(* ===== verification/Prelude.thy ===== *)
theory Prelude
  imports Main "HOL-Library.AList" "HOL-Library.Sublist" "HOL-Library.Word"
begin

section \<open>Prelude: shared types, collections and generic lemmas\<close>

text \<open>
  What every component of the development uses: the machine types of the Go code, the
  reading of Go maps as association lists, a fold that may fail, and the collections of
  rewrite rules.
  \<^item> \<open>int64\<close> and \<open>uint32\<close> are words of the width the code gives them; \<open>sint\<close> reads
    an \<open>int64\<close> as Go does.
  \<^item> A \<open>time.Time\<close> is the number of nanoseconds since the epoch. The wall clock is an
    argument of every operation that calls \<open>time.Now()\<close>.
  \<^item> A Go map is an association list. Its order stands for the iteration order, which Go
    leaves open; what is proved never depends on it. The invariants keep the keys distinct.
\<close>

type_synonym int64 = "64 word"
type_synonym uint32 = "32 word"
type_synonym time = int
type_synonym byte = "8 word"
type_synonym ('k, 'v) gomap = "('k \<times> 'v) list"

named_theorems heap_simps "how the heap operations act on the entry store"
named_theorems keep_intros "operations that keep an invariant"

text \<open>\<open>m[k]\<close> with its comma-ok form, \<open>m[k] = v\<close> and \<open>delete(m, k)\<close>.\<close>

abbreviation map_get :: "('k, 'v) gomap \<Rightarrow> 'k \<Rightarrow> 'v option" where
  "map_get \<equiv> map_of"

abbreviation map_put :: "'k \<Rightarrow> 'v \<Rightarrow> ('k, 'v) gomap \<Rightarrow> ('k, 'v) gomap" where
  "map_put \<equiv> AList.update"

abbreviation map_del :: "'k \<Rightarrow> ('k, 'v) gomap \<Rightarrow> ('k, 'v) gomap" where
  "map_del \<equiv> AList.delete"

abbreviation map_ok :: "('k, 'v) gomap \<Rightarrow> bool" where
  "map_ok m \<equiv> distinct (map fst m)"

lemma map_get_put: "map_get (map_put k v m) = (map_get m)(k \<mapsto> v)"
  by (rule update_conv')

lemma map_get_del: "map_get (map_del k m) = (map_get m)(k := None)"
  by (rule delete_conv')

lemma map_ok_put [keep_intros]: "map_ok m \<Longrightarrow> map_ok (map_put k v m)"
  by (rule distinct_update)

lemma map_ok_del [keep_intros]: "map_ok m \<Longrightarrow> map_ok (map_del k m)"
  by (rule distinct_delete)

lemma keys_put: "fst ` set (map_put k v m) = insert k (fst ` set m)"
  by (metis dom_map_of_conv_image_fst dom_fun_upd map_get_put option.distinct(1))

text \<open>A \<open>for\<close> loop over a list whose body may give up.\<close>

fun fold_opt :: "('a \<Rightarrow> 'b \<Rightarrow> 'b option) \<Rightarrow> 'a list \<Rightarrow> 'b \<Rightarrow> 'b option" where
  "fold_opt f [] b = Some b"
| "fold_opt f (x # xs) b = (case f x b of None \<Rightarrow> None | Some b' \<Rightarrow> fold_opt f xs b')"

lemma fold_opt_total:
  assumes "\<And>x b. x \<in> set xs \<Longrightarrow> \<exists>b'. f x b = Some b'"
  shows "\<exists>b'. fold_opt f xs b = Some b'"
  using assms
proof (induction xs arbitrary: b)
  case Nil
  then show ?case by simp
next
  case (Cons x xs)
  from Cons.prems obtain b' where "f x b = Some b'" by fastforce
  moreover have "\<exists>b''. fold_opt f xs b' = Some b''"
    using Cons.prems by (intro Cons.IH) auto
  ultimately show ?case by simp
qed

text \<open>A loop that only adds to a set adds the union of what its rounds add.\<close>

lemma fold_opt_union:
  assumes "\<And>x b. x \<in> set xs \<Longrightarrow> f x b = Some (b \<union> g x)"
  shows "fold_opt f xs b = Some (b \<union> (\<Union>x \<in> set xs. g x))"
  using assms
  by (induction xs arbitrary: b) (auto simp: Un_assoc)

text \<open>Paths are lists of names; the last step of a path.\<close>

lemma snoc_cases: "ps \<noteq> [] \<Longrightarrow> (\<And>qs n. ps = qs @ [n] \<Longrightarrow> P) \<Longrightarrow> P"
  by (metis append_butlast_last_id)

lemma prefix_snoc_iff: "prefix xs (ys @ [y]) \<longleftrightarrow> xs = ys @ [y] \<or> prefix xs ys"
  by (auto simp: prefix_snoc)

lemma prefix_drop: "prefix xs ys \<Longrightarrow> ys = xs @ drop (length xs) ys"
  by (auto simp: prefix_def)

lemma not_prefix_snoc_self: "\<not> prefix (xs @ [x]) xs"
  by (auto simp: prefix_def)

lemma append_not_butlast: "ps \<noteq> [] \<Longrightarrow> ps @ rs \<noteq> butlast ps"
  by (metis append_butlast_last_id append_assoc not_Cons_self2 self_append_conv append_is_Nil_conv)

lemma strict_prefix_butlast: "dst \<noteq> [] \<Longrightarrow> strict_prefix (butlast dst) dst"
  by (metis append_butlast_last_id not_Cons_self2 prefixI append_self_conv strict_prefix_def)

lemma prefix_butlast_strict: "dst \<noteq> [] \<Longrightarrow> prefix ps (butlast dst) \<longleftrightarrow> strict_prefix ps dst"
  by (metis append_butlast_last_id prefix_snoc_iff strict_prefix_def not_prefix_snoc_self)

lemma mod_add_inj_le:
  fixes s i j n :: nat
  assumes "i \<le> j" "j < n" "(s + i) mod n = (s + j) mod n"
  shows "i = j"
proof -
  have "n dvd (s + j) - (s + i)"
    using assms mod_eq_dvd_iff_nat [of "s + i" "s + j" n] by simp
  then have "n dvd j - i" by simp
  then show ?thesis using assms by (auto dest: dvd_imp_le)
qed

lemma mod_add_inj:
  fixes s i j n :: nat
  shows "i < n \<Longrightarrow> j < n \<Longrightarrow> (s + i) mod n = (s + j) mod n \<Longrightarrow> i = j"
  using mod_add_inj_le [of i j n s] mod_add_inj_le [of j i n s] by (cases "i \<le> j") auto

end
