(* ===== verification/Go_Strings.thy ===== *)
theory Go_Strings
  imports Prelude
begin

section \<open>The string functions of Go's standard library that the code calls\<close>

text \<open>
  Go strings are byte sequences, as \<open>string\<close> is here. \<open>strings.TrimPrefix\<close>,
  \<open>TrimSuffix\<close>, \<open>Split\<close> at one byte, \<open>Index\<close>, \<open>Contains\<close> and \<open>HasSuffix\<close> are
  modelled exactly, as is \<open>strings.TrimSpace\<close>. A \<open>range\<close>
  over a string decodes UTF-8: \<open>runes\<close> follows the language definition, an invalid byte
  giving U+FFFD and a step of one byte.
\<close>

definition HasPrefix :: "string \<Rightarrow> string \<Rightarrow> bool" where
  "HasPrefix s p \<longleftrightarrow> take (length p) s = p"

definition TrimPrefix :: "string \<Rightarrow> string \<Rightarrow> string" where
  "TrimPrefix s p = (if HasPrefix s p then drop (length p) s else s)"

definition HasSuffix :: "string \<Rightarrow> string \<Rightarrow> bool" where
  "HasSuffix s p \<longleftrightarrow> length p \<le> length s \<and> drop (length s - length p) s = p"

definition TrimSuffix :: "string \<Rightarrow> string \<Rightarrow> string" where
  "TrimSuffix s p = (if HasSuffix s p then take (length s - length p) s else s)"

lemma HasPrefix_iff: "HasPrefix s p \<longleftrightarrow> (\<exists>t. s = p @ t)"
  unfolding HasPrefix_def by (metis append_eq_conv_conj append_take_drop_id)

lemma HasSuffix_iff: "HasSuffix s p \<longleftrightarrow> (\<exists>t. s = t @ p)"
proof
  assume "HasSuffix s p"
  then have "s = take (length s - length p) s @ p"
    by (metis HasSuffix_def append_take_drop_id)
  then show "\<exists>t. s = t @ p" by blast
qed (auto simp: HasSuffix_def)

lemma TrimPrefix_append [simp]: "TrimPrefix (p @ t) p = t"
  by (simp add: TrimPrefix_def HasPrefix_def)

text \<open>\<open>strings.Split(s, sep)\<close> for a separator of one byte.\<close>

fun Split :: "string \<Rightarrow> char \<Rightarrow> string list" where
  "Split [] sep = [[]]"
| "Split (c # cs) sep =
     (if c = sep then [] # Split cs sep
      else (case Split cs sep of [] \<Rightarrow> [[c]] | x # xs \<Rightarrow> (c # x) # xs))"

lemma Split_nonempty [simp]: "Split s sep \<noteq> []"
  by (induction s) (auto split: list.splits)

lemma Split_no_sep: "x \<in> set (Split s sep) \<Longrightarrow> sep \<notin> set x"
  by (induction s arbitrary: x) (auto split: list.splits if_splits)

lemma Split_plain: "sep \<notin> set s \<Longrightarrow> Split s sep = [s]"
  by (induction s) auto

lemma Split_append_sep: "Split (s @ sep # t) sep = Split s sep @ Split t sep"
  by (induction s) (auto split: list.splits)

text \<open>\<open>strings.Index\<close>: the first position of a substring, \<open>None\<close> for -1.\<close>

fun Index :: "string \<Rightarrow> string \<Rightarrow> nat option" where
  "Index [] p = (if p = [] then Some 0 else None)"
| "Index (c # cs) p =
     (if HasPrefix (c # cs) p then Some 0 else map_option Suc (Index cs p))"

definition Contains :: "string \<Rightarrow> string \<Rightarrow> bool" where
  "Contains s p \<longleftrightarrow> Index s p \<noteq> None"

lemma Index_Some: "Index s p = Some i \<Longrightarrow> i + length p \<le> length s \<and> take (length p) (drop i s) = p"
proof (induction s arbitrary: i)
  case Nil
  then show ?case by (auto split: if_splits)
next
  case (Cons c cs)
  show ?case
  proof (cases "HasPrefix (c # cs) p")
    case True
    with Cons.prems show ?thesis
      by (auto simp: HasPrefix_def dest: arg_cong [of _ _ length])
  next
    case False
    with Cons.prems obtain j where "Index cs p = Some j" "i = Suc j" by auto
    with Cons.IH [of j] show ?thesis by simp
  qed
qed

lemma Index_None: "Index s p = None \<Longrightarrow> \<not> sublist p s"
proof (induction s)
  case Nil
  then show ?case by (auto split: if_splits)
next
  case (Cons c cs)
  then show ?case
    by (auto simp: sublist_Cons_right HasPrefix_iff prefix_def split: if_splits)
qed

lemma Contains_iff: "Contains s p \<longleftrightarrow> sublist p s"
proof
  assume "Contains s p"
  then obtain i where "Index s p = Some i" by (auto simp: Contains_def)
  then have "take (length p) (drop i s) = p" using Index_Some by blast
  then show "sublist p s"
    by (metis sublist_drop sublist_order.order.trans sublist_take)
next
  assume "sublist p s"
  then show "Contains s p" using Index_None by (auto simp: Contains_def)
qed

text \<open>
  \<open>strings.TrimSpace\<close>: the UTF-8 encodings of the runes that \<open>unicode.IsSpace\<close> accepts are
  stripped from both ends. No encoding is longer than its text is stripped, so as many rounds as
  there are bytes are enough.
\<close>

definition space_texts :: "string list" where
  "space_texts = map (\<lambda>n. [char_of n]) [9::nat, 10, 11, 12, 13, 32] @
     map (map char_of) ([[0xC2, 0x85], [0xC2, 0xA0], [0xE1, 0x9A, 0x80]] @
       map (\<lambda>n. [0xE2, 0x80, n]) ([0x80..<0x8B] @ [0xA8, 0xA9, 0xAF]) @
       [[0xE2, 0x81, 0x9F], [0xE3, 0x80, 0x80 :: nat]])"

definition strip_one :: "string list \<Rightarrow> string \<Rightarrow> string" where
  "strip_one texts s = (case find (HasPrefix s) texts of None \<Rightarrow> s | Some sp \<Rightarrow> drop (length sp) s)"

definition strip_all :: "string list \<Rightarrow> string \<Rightarrow> string" where
  "strip_all texts s = (strip_one texts ^^ length s) s"

definition TrimSpace :: "string \<Rightarrow> string" where
  "TrimSpace s = rev (strip_all (map rev space_texts) (rev (strip_all space_texts s)))"

text \<open>Text of printable ASCII characters has nothing to trim.\<close>

definition printable :: "char \<Rightarrow> bool" where
  "printable c \<longleftrightarrow> (33::nat) \<le> of_char c \<and> (of_char c :: nat) \<le> 126"

lemma strip_all_printable:
  assumes "list_all (\<lambda>t. t \<noteq> [] \<and> \<not> printable (hd t)) texts" "list_all printable s"
  shows "strip_all texts s = s"
proof -
  have "\<not> HasPrefix s t" if t: "t \<in> set texts" for t
  proof -
    have "t \<noteq> []" "\<not> printable (hd t)" using assms(1) t by (auto simp: list_all_iff)
    then show ?thesis using assms(2) by (cases t) (auto simp: HasPrefix_iff)
  qed
  then have "find (HasPrefix s) texts = None" by (simp add: find_None_iff)
  then have "strip_one texts s = s" by (simp add: strip_one_def)
  then have "(strip_one texts ^^ n) s = s" for n by (induction n) simp_all
  then show ?thesis by (simp add: strip_all_def)
qed

lemma space_texts_edges:
  "list_all (\<lambda>t. t \<noteq> [] \<and> \<not> printable (hd t)) space_texts"
  "list_all (\<lambda>t. t \<noteq> [] \<and> \<not> printable (hd t)) (map rev space_texts)"
  by (simp_all add: space_texts_def printable_def upt_rec)

lemma TrimSpace_printable: "list_all printable s \<Longrightarrow> TrimSpace s = s"
  using strip_all_printable space_texts_edges by (simp add: TrimSpace_def list_all_rev)

text \<open>The decimal text of a number, as \<open>%d\<close> prints it.\<close>

definition digit_char :: "nat \<Rightarrow> char" where
  "digit_char d = char_of (48 + d)"

fun Itoa :: "nat \<Rightarrow> string" where
  "Itoa n = (if n < 10 then [digit_char n] else Itoa (n div 10) @ [digit_char (n mod 10)])"

declare Itoa.simps [simp del]

text \<open>\<open>hex.EncodeToString\<close>.\<close>

definition hex_char :: "nat \<Rightarrow> char" where
  "hex_char d = (if d < 10 then char_of (48 + d) else char_of (87 + d))"

definition hex_byte :: "byte \<Rightarrow> string" where
  "hex_byte b = [hex_char (unat b div 16), hex_char (unat b mod 16)]"

definition EncodeToString :: "byte list \<Rightarrow> string" where
  "EncodeToString bs = concat (map hex_byte bs)"

definition is_hex :: "char \<Rightarrow> bool" where
  "is_hex c \<longleftrightarrow> (let n = of_char c :: nat in (48 \<le> n \<and> n \<le> 57) \<or> (97 \<le> n \<and> n \<le> 102))"

lemma of_hex_char: "d < 16 \<Longrightarrow> (of_char (hex_char d) :: nat) = (if d < 10 then 48 + d else 87 + d)"
  by (simp add: hex_char_def)

lemma is_hex_char: "d < 16 \<Longrightarrow> is_hex (hex_char d)"
  by (simp add: is_hex_def of_hex_char)

lemma hex_char_inj: "d < 16 \<Longrightarrow> e < 16 \<Longrightarrow> hex_char d = hex_char e \<Longrightarrow> d = e"
proof -
  assume "d < 16" "e < 16" "hex_char d = hex_char e"
  then have "(if d < 10 then 48 + d else 87 + d) = (if e < 10 then 48 + e else 87 + e)"
    using of_hex_char by metis
  then show "d = e" using \<open>d < 16\<close> \<open>e < 16\<close> by (auto split: if_splits)
qed

lemma byte_nibbles: "unat (b :: byte) div 16 < 16" "unat b mod 16 < 16"
proof -
  have "unat b < 256" using unsigned_less [of b] by simp
  then show "unat b div 16 < 16" by simp
qed simp

lemma hex_byte_inj: "hex_byte a = hex_byte b \<Longrightarrow> a = b"
proof -
  assume "hex_byte a = hex_byte b"
  then have "unat a div 16 = unat b div 16" "unat a mod 16 = unat b mod 16"
    using byte_nibbles hex_char_inj by (auto simp: hex_byte_def)
  then have "unat a = unat b" by (metis div_mult_mod_eq)
  then show "a = b" by (simp only: word_unat_eq_iff)
qed

lemma EncodeToString_hex: "list_all is_hex (EncodeToString bs)"
  by (induction bs) (auto simp: EncodeToString_def hex_byte_def is_hex_char byte_nibbles)

lemma length_EncodeToString: "length (EncodeToString bs) = 2 * length bs"
  by (induction bs) (auto simp: EncodeToString_def hex_byte_def)

lemma EncodeToString_Cons [simp]: "EncodeToString (b # bs) = hex_byte b @ EncodeToString bs"
  by (simp add: EncodeToString_def)

lemma EncodeToString_inj: "EncodeToString as = EncodeToString bs \<Longrightarrow> as = bs"
proof (induction as arbitrary: bs)
  case Nil
  then have "length (EncodeToString bs) = 0" by (simp add: EncodeToString_def)
  then show ?case by (simp add: length_EncodeToString)
next
  case (Cons a as)
  then obtain b cs where bs: "bs = b # cs"
    using length_EncodeToString [of "a # as"] length_EncodeToString [of bs] by (cases bs) auto
  with Cons.prems have "hex_byte a = hex_byte b \<and> EncodeToString as = EncodeToString cs"
    by (simp add: hex_byte_def)
  then show ?case using Cons.IH hex_byte_inj bs by blast
qed

subsection \<open>Runes\<close>

definition cont_byte :: "nat \<Rightarrow> bool" where
  "cont_byte b \<longleftrightarrow> 128 \<le> b \<and> b \<le> 191"

text \<open>
  The continuation of a multi-byte rune that starts with \<open>b\<close>: the code point and the
  number of continuation bytes, \<open>None\<close> when the encoding is invalid.
\<close>

fun rune_tail :: "nat \<Rightarrow> nat list \<Rightarrow> (int \<times> nat) option" where
  "rune_tail b (x # y # z # bs) =
     (if 194 \<le> b \<and> b \<le> 223 \<and> cont_byte x then Some (int ((b - 192) * 64 + (x - 128)), 1)
      else if 224 \<le> b \<and> b \<le> 239 \<and> cont_byte x \<and> cont_byte y
           \<and> (b = 224 \<longrightarrow> 160 \<le> x) \<and> (b = 237 \<longrightarrow> x \<le> 159)
        then Some (int ((b - 224) * 4096 + (x - 128) * 64 + (y - 128)), 2)
      else if 240 \<le> b \<and> b \<le> 244 \<and> cont_byte x \<and> cont_byte y \<and> cont_byte z
           \<and> (b = 240 \<longrightarrow> 144 \<le> x) \<and> (b = 244 \<longrightarrow> x \<le> 143)
        then Some (int ((b - 240) * 262144 + (x - 128) * 4096 + (y - 128) * 64 + (z - 128)), 3)
      else None)"
| "rune_tail b [x, y] =
     (if 194 \<le> b \<and> b \<le> 223 \<and> cont_byte x then Some (int ((b - 192) * 64 + (x - 128)), 1)
      else if 224 \<le> b \<and> b \<le> 239 \<and> cont_byte x \<and> cont_byte y
           \<and> (b = 224 \<longrightarrow> 160 \<le> x) \<and> (b = 237 \<longrightarrow> x \<le> 159)
        then Some (int ((b - 224) * 4096 + (x - 128) * 64 + (y - 128)), 2)
      else None)"
| "rune_tail b [x] =
     (if 194 \<le> b \<and> b \<le> 223 \<and> cont_byte x then Some (int ((b - 192) * 64 + (x - 128)), 1)
      else None)"
| "rune_tail b [] = None"

fun decode_runes :: "nat list \<Rightarrow> int list" where
  "decode_runes [] = []"
| "decode_runes (b # bs) =
     (if b < 128 then int b # decode_runes bs
      else (case rune_tail b bs of
              None \<Rightarrow> 65533 # decode_runes bs
            | Some (r, k) \<Rightarrow> r # decode_runes (drop k bs)))"

definition runes :: "string \<Rightarrow> int list" where
  "runes s = decode_runes (map of_char s)"

end
