(* ===== verification/Fs_Types.thy ===== *)
theory Fs_Types
  imports Go_Strings
begin

section \<open>The shared types\<close>

text \<open>
  The structs of \<open>internal/types/types.go\<close> and the errors of the metadata server. Field
  names keep the source's spelling behind a prefix that tells the structs apart, since
  record fields are global here. Every \<open>fmt.Errorf\<close> of the metadata server is a
  constructor of \<open>fs_error\<close>; \<open>error_text\<close> is the message, which matters because the
  clients inspect it (\<open>extractLeaderAddr\<close>, and \<open>Client.Open\<close> looks for \<open>not found\<close>).
\<close>

record FileInfo =
  fi_Name :: string
  fi_Path :: string
  fi_IsDir :: bool
  fi_Size :: int64
  fi_Mode :: uint32
  fi_CreatedAt :: time
  fi_ModTime :: time
  fi_FileID :: string

record Replica =
  Addr :: string
  RemotePath :: string

record FileLocation =
  fl_FileID :: string
  fl_Replicas :: "Replica list"
  fl_Status :: string

record NodeFile =
  nf_Path :: string
  nf_ModTime :: time

datatype CreateMode = CreateIfNotExist | OverwriteIfExists

record CreateFileArgs =
  cf_Path :: string
  cf_Size :: int64
  cf_CreateMode :: CreateMode

record HeartbeatReply =
  IsLeader :: bool
  Leader :: string

record CreateFileReply =
  cr_Replicas :: "Replica list"

record DeleteReply =
  dr_Replicas :: "Replica list"
  dr_IsDir :: bool

record RenameArgs =
  SrcPath :: string
  DstPath :: string

record UpdateSizeArgs =
  us_Path :: string
  us_Size :: int64

text \<open>The arguments of the data service.\<close>

record StoreArgs =
  st_Path :: string
  st_Content :: "byte list"

record RangeReadArgs =
  rr_Path :: string
  rr_Offset :: int64
  rr_Length :: int64

record RangeReadReply =
  rr_Data :: "byte list"
  rr_EOF :: bool

record PartialWriteArgs =
  pw_Path :: string
  pw_Offset :: int64
  pw_Data :: "byte list"

record TruncateArgs =
  tr_Path :: string
  tr_Size :: int64

record SyncArgs =
  sy_Path :: string

text \<open>The two states of a file.\<close>

definition StatusPending :: string where
  "StatusPending = ''pending''"

definition StatusComplete :: string where
  "StatusComplete = ''complete''"

lemma status_neq [simp]: "StatusPending \<noteq> StatusComplete" "StatusComplete \<noteq> StatusPending"
  by (simp_all add: StatusPending_def StatusComplete_def)

subsection \<open>Errors\<close>

datatype fs_error =
    ErrUnmarshal
  | ErrUnmarshalSnapshot
  | ErrMarshalTime
  | PanicNilSnapshot
  | ErrUnknownOp string
  | ErrNotADirectory string nat string
  | ErrInvalidPath string
  | ErrParentNotFound string
  | ErrIsDirectoryCreate string
  | ErrFileExists string
  | ErrPathNotFound string
  | ErrIsDirectoryComplete string
  | ErrDeleteRoot
  | ErrInvalidRename string string
  | ErrSourceNotFound string
  | ErrOwnSubtree string string
  | ErrDstParentNotFound string
  | ErrDstIsDirectory string
  | ErrIsDirectoryUpdateSize string
  | ErrNotLeader string
  | ErrRaftDo string
  | ErrGenerateFileID string
  | ErrNoDataNodes
  | ErrEmptyRenamePath
  | ErrRenameRoot
  | ErrEmptyPath
  | ErrNegativeSize
  | ErrFileNotFound string
  | ErrIsDirectory string
  | ErrDirNotFound string
  | ErrNotDirectory string

fun error_text :: "fs_error \<Rightarrow> string" where
  "error_text ErrUnmarshal = ''unmarshal command payload failed''"
| "error_text ErrUnmarshalSnapshot = ''unmarshal snapshot failed''"
| "error_text ErrMarshalTime =
     ''json: error calling MarshalJSON for type time.Time: Time.MarshalJSON: year outside of range [0,9999]''"
| "error_text PanicNilSnapshot = ''runtime error: invalid memory address or nil pointer dereference''"
| "error_text (ErrUnknownOp op) = ''unknown command op: '' @ op"
| "error_text (ErrNotADirectory p i part) =
     p @ '' is not a directory (at level '' @ Itoa i @ '': '' @ part @ '')''"
| "error_text (ErrInvalidPath p) = ''invalid path: '' @ p"
| "error_text (ErrParentNotFound p) = ''parent directory not found: '' @ p"
| "error_text (ErrIsDirectoryCreate p) =
     p @ '' is a directory, cannot create file with same name''"
| "error_text (ErrFileExists p) = ''file already exists: '' @ p"
| "error_text (ErrPathNotFound p) = ''path not found: '' @ p"
| "error_text (ErrIsDirectoryComplete p) = p @ '' is a directory, cannot complete''"
| "error_text ErrDeleteRoot = ''cannot delete root''"
| "error_text (ErrInvalidRename s d) = ''invalid path: src='' @ s @ '' dst='' @ d"
| "error_text (ErrSourceNotFound p) = ''source path not found: '' @ p"
| "error_text (ErrOwnSubtree s d) =
     ''cannot move directory into its own subtree: '' @ s @ '' -> '' @ d"
| "error_text (ErrDstParentNotFound p) = ''destination parent directory not found: '' @ p"
| "error_text (ErrDstIsDirectory p) = ''destination is an existing directory: '' @ p"
| "error_text (ErrIsDirectoryUpdateSize p) = p @ '' is a directory, cannot update size''"
| "error_text (ErrNotLeader l) = ''not leader, redirect to '' @ l"
| "error_text (ErrRaftDo e) = ''raft do failed: '' @ e"
| "error_text (ErrGenerateFileID e) = ''generate file id failed: '' @ e"
| "error_text ErrNoDataNodes = ''no data nodes registered''"
| "error_text ErrEmptyRenamePath = ''src_path and dst_path must not be empty''"
| "error_text ErrRenameRoot = ''cannot rename root''"
| "error_text ErrEmptyPath = ''path must not be empty''"
| "error_text ErrNegativeSize = ''size must not be negative''"
| "error_text (ErrFileNotFound p) = ''file not found: '' @ p"
| "error_text (ErrIsDirectory p) = p @ '' is a directory''"
| "error_text (ErrDirNotFound p) = ''directory not found: '' @ p"
| "error_text (ErrNotDirectory p) = p @ '' is not a directory''"

text \<open>
  A Go function that returns only an \<open>error\<close>, or writes its result through a \<open>reply\<close>
  pointer before it returns one, gives a value of this type: \<open>Inr\<close> the reply on a nil
  error, \<open>Inl\<close> the error otherwise.
\<close>

type_synonym 'a reply = "fs_error + 'a"

end
