(* ===== verification/Path_Names.thy ===== *)
theory Path_Names
  imports Fs_Types
begin

section \<open>Path names\<close>

text \<open>
  \<open>splitPath\<close> of \<open>internal/metadata/mds.go\<close> turns a path into the list of names that every
  metadata operation walks. The reference reading is simpler than the code: the non-empty
  components between slashes. \<open>join_path\<close> prints a list of names as the absolute path.
\<close>

abbreviation slash :: char where
  "slash \<equiv> CHR ''/''"

definition splitPath :: "string \<Rightarrow> string list" where
  "splitPath path =
     (let path = TrimPrefix path ''/'';
          path = TrimSuffix path ''/''
      in if path = '''' then []
         else filter (\<lambda>p. p \<noteq> '''') (Split path slash))"

definition valid_name :: "string \<Rightarrow> bool" where
  "valid_name n \<longleftrightarrow> n \<noteq> '''' \<and> slash \<notin> set n"

definition join_path :: "string list \<Rightarrow> string" where
  "join_path ps = concat (map (\<lambda>n. slash # n) ps)"

definition components :: "string \<Rightarrow> string list" where
  "components path = filter (\<lambda>p. p \<noteq> '''') (Split path slash)"

lemma components_Nil [simp]: "components '''' = []"
  by (simp add: components_def)

lemma components_append_slash: "components (s @ slash # t) = components s @ components t"
  by (simp add: components_def Split_append_sep)

lemma components_slash [simp]: "components (slash # t) = components t"
  using components_append_slash [of "[]" t] by simp

lemma components_plain: "valid_name n \<Longrightarrow> components n = [n]"
  by (simp add: components_def valid_name_def Split_plain)

lemma components_TrimPrefix: "components (TrimPrefix s ''/'') = components s"
  by (auto simp: TrimPrefix_def HasPrefix_iff)

lemma components_TrimSuffix: "components (TrimSuffix s ''/'') = components s"
  using components_append_slash [of _ "[]"]
  by (auto simp: TrimSuffix_def HasSuffix_iff)

lemma splitPath_eq_components: "splitPath path = components path"
proof -
  have "components (TrimSuffix (TrimPrefix path ''/'') ''/'') = components path"
    by (simp add: components_TrimSuffix components_TrimPrefix)
  then show ?thesis
    by (auto simp: splitPath_def Let_def simp flip: components_def)
qed

lemma splitPath_valid: "n \<in> set (splitPath path) \<Longrightarrow> valid_name n"
  by (auto simp: splitPath_eq_components components_def valid_name_def dest: Split_no_sep)

lemma splitPath_list_all: "list_all valid_name (splitPath path)"
  by (auto simp: list_all_iff dest: splitPath_valid)

lemma components_join_path: "list_all valid_name ps \<Longrightarrow> components (join_path ps) = ps"
proof (induction ps rule: rev_induct)
  case Nil
  then show ?case by (simp add: join_path_def)
next
  case (snoc n ps)
  then have "components (join_path ps @ slash # n) = ps @ [n]"
    by (simp add: components_append_slash components_plain)
  then show ?case by (simp add: join_path_def)
qed

text \<open>Parsing a printed path gives its names back: \<open>splitPath\<close> inverts
  \<open>join_path\<close> on every list of names that contain no slash and are not empty.\<close>

theorem splitPath_join_path:
  assumes "list_all valid_name ps"
  shows "splitPath (join_path ps) = ps"
  using assms by (simp add: splitPath_eq_components components_join_path)

theorem splitPath_join_path_witness: "splitPath ''/d/f'' = [''d'', ''f'']"
  using splitPath_join_path [of "[''d'', ''f'']"]
  by (simp add: join_path_def valid_name_def)

end
