(* ===== verification/Go_Paths.thy ===== *)
theory Go_Paths
  imports Path_Names
begin

section \<open>The functions of \<open>path/filepath\<close> that the code calls\<close>

text \<open>
  \<open>filepath.Clean\<close> and \<open>filepath.Join\<close> on Unix, as their documentation specifies them: \<open>Clean\<close>
  drops empty and \<open>.\<close> components, lets \<open>..\<close> eliminate the component before it, and drops
  \<open>..\<close> at the root. The metadata server uses \<open>Join\<close> to name the entries of a listing, the
  data node uses both to place a file below its data directory.
\<close>

fun clean_fold :: "bool \<Rightarrow> string list \<Rightarrow> string list \<Rightarrow> string list" where
  "clean_fold rooted st [] = rev st"
| "clean_fold rooted st (c # cs) =
     (if c = '''' \<or> c = ''.'' then clean_fold rooted st cs
      else if c \<noteq> ''..'' then clean_fold rooted (c # st) cs
      else (case st of
              [] \<Rightarrow> clean_fold rooted (if rooted then [] else [''..'']) cs
            | t # ts \<Rightarrow> if t = ''..'' then clean_fold rooted (''..'' # st) cs else clean_fold rooted ts cs))"

fun intercalate :: "string \<Rightarrow> string list \<Rightarrow> string" where
  "intercalate sep [] = ''''"
| "intercalate sep [x] = x"
| "intercalate sep (x # y # ys) = x @ sep @ intercalate sep (y # ys)"

definition Clean :: "string \<Rightarrow> string" where
  "Clean path =
     (let rooted = HasPrefix path ''/'';
          out = clean_fold rooted [] (Split path slash);
          text = intercalate ''/'' out
      in if rooted then ''/'' @ text else if text = '''' then ''.'' else text)"

text \<open>\<open>filepath.Join\<close> of two elements; only leading empty elements are dropped before cleaning.\<close>

definition Join :: "string \<Rightarrow> string \<Rightarrow> string" where
  "Join a b = (if a \<noteq> '''' then Clean (a @ ''/'' @ b) else if b \<noteq> '''' then Clean b else '''')"

definition plain_name :: "string \<Rightarrow> bool" where
  "plain_name n \<longleftrightarrow> valid_name n \<and> n \<noteq> ''.'' \<and> n \<noteq> ''..''"

lemma valid_name_plain: "plain_name n \<Longrightarrow> valid_name n"
  by (simp add: plain_name_def)

lemma clean_fold_components: "clean_fold rooted st (Split path slash) = clean_fold rooted st (components path)"
proof -
  have "clean_fold rooted st cs = clean_fold rooted st (filter (\<lambda>p. p \<noteq> '''') cs)" for cs
    by (induction rooted st cs rule: clean_fold.induct) (auto split: list.splits)
  then show ?thesis by (simp add: components_def)
qed

lemma clean_fold_plain: "list_all plain_name cs \<Longrightarrow> clean_fold rooted st cs = rev st @ cs"
  by (induction cs arbitrary: st) (auto simp: plain_name_def valid_name_def)

text \<open>Below the root, what comes out has neither empty nor dot components.\<close>

lemma clean_fold_rooted:
  "list_all valid_name cs \<Longrightarrow> list_all plain_name st \<Longrightarrow> list_all plain_name (clean_fold True st cs)"
proof (induction "True" st cs rule: clean_fold.induct)
  case (1 st)
  then show ?case by (simp add: list_all_iff)
next
  case (2 st c cs)
  then show ?case by (cases st) (auto simp: plain_name_def)
qed

lemma components_intercalate: "list_all valid_name ps \<Longrightarrow> components (intercalate ''/'' ps) = ps"
  by (induction "''/''" ps rule: intercalate.induct) (auto simp: components_plain components_append_slash)

lemma components_valid: "list_all valid_name (components s)"
  using splitPath_list_all [of s] by (simp add: splitPath_eq_components)

lemma components_Clean_rooted: "components (Clean (slash # s)) = clean_fold True [] (components s)"
proof -
  have "list_all valid_name (clean_fold True [] (components s))"
    using clean_fold_rooted [OF components_valid, of "[]" s] by (auto simp: list_all_iff valid_name_plain)
  then show ?thesis
    by (simp add: Clean_def HasPrefix_def clean_fold_components components_intercalate)
qed

lemma components_Clean_plain:
  assumes "list_all plain_name (components s)" "components s \<noteq> [] \<or> HasPrefix s ''/''"
  shows "components (Clean s) = components s"
proof -
  have f: "components (intercalate ''/'' (components s)) = components s"
    using assms(1) by (intro components_intercalate) (auto simp: list_all_iff valid_name_plain)
  have "intercalate ''/'' (components s) \<noteq> ''''" if "components s \<noteq> []"
    using f that by (metis components_Nil)
  then show ?thesis
    using assms(2) f by (auto simp: Clean_def Let_def clean_fold_components clean_fold_plain [OF assms(1)])
qed

lemma splitPath_Join:
  assumes "list_all plain_name (splitPath path)" "plain_name name"
  shows "splitPath (Join path name) = splitPath path @ [name]"
proof -
  have n: "components name = [name]" "name \<noteq> ''''"
    using assms(2) by (auto simp: components_plain plain_name_def valid_name_def)
  have "components (Clean (path @ slash # name)) = components path @ [name]"
    using assms n by (subst components_Clean_plain) (auto simp: splitPath_eq_components components_append_slash)
  moreover have "components (Clean name) = [name]"
    using assms(2) n by (subst components_Clean_plain) auto
  ultimately show ?thesis using n by (auto simp: Join_def splitPath_eq_components)
qed

text \<open>\<open>filepath.Dir\<close>: all but the last element, cleaned.\<close>

definition Dir :: "string \<Rightarrow> string" where
  "Dir path = Clean (rev (dropWhile (\<lambda>c. c \<noteq> slash) (rev path)))"

lemma intercalate_snoc: "xs \<noteq> [] \<Longrightarrow> intercalate sep (xs @ [n]) = intercalate sep xs @ sep @ n"
  by (induction sep xs rule: intercalate.induct) auto

text \<open>A cleaned absolute path splits into the part up to the last slash and the last name.\<close>

lemma Clean_rooted_snoc:
  assumes "HasPrefix s ''/''" "list_all plain_name (xs @ [n])" "components s = xs @ [n]"
  obtains pre where "Clean s = pre @ slash # n" "components pre = xs" "HasPrefix (pre @ [slash]) ''/''"
proof (cases "xs = []")
  case True
  with assms have "Clean s = '''' @ slash # n"
    by (simp add: Clean_def clean_fold_components plain_name_def)
  with True that [of "''''"] show ?thesis by (simp add: HasPrefix_def)
next
  case False
  have "clean_fold True [] (components s) = xs @ [n]"
    unfolding assms(3) using clean_fold_plain [OF assms(2)] by simp
  then have "Clean s = (slash # intercalate ''/'' xs) @ slash # n"
    using assms(1) False by (simp add: Clean_def clean_fold_components intercalate_snoc)
  moreover have "components (slash # intercalate ''/'' xs) = xs"
    using assms(2) by (simp add: components_intercalate list_all_iff valid_name_plain)
  ultimately show ?thesis using that by (simp add: HasPrefix_def)
qed

lemma components_last: "components pre = xs \<Longrightarrow> valid_name m \<Longrightarrow> components (pre @ slash # m) = xs @ [m]"
  by (simp add: components_append_slash components_plain)

lemma components_Dir:
  assumes "components pre = xs" "list_all plain_name xs" "valid_name n" "HasPrefix (pre @ [slash]) ''/''"
  shows "components (Dir (pre @ slash # n)) = xs"
proof -
  have "\<forall>c \<in> set (rev n). c \<noteq> slash" using assms(3) by (auto simp: valid_name_def)
  then have "dropWhile (\<lambda>c. c \<noteq> slash) (rev n @ slash # rev pre) = slash # rev pre"
    by (subst dropWhile_append2) auto
  then have d: "Dir (pre @ slash # n) = Clean (pre @ [slash])" by (simp add: Dir_def)
  have "components (pre @ [slash]) = xs" using assms(1) components_append_slash [of pre "[]"] by simp
  then show ?thesis
    unfolding d using assms(2,4) by (subst components_Clean_plain) auto
qed

end
