(* ===== verification/Os_Disk.thy ===== *)
theory Os_Disk
  imports Go_Paths "HOL-Library.List_Lexorder" "HOL-Library.Char_ord"
begin

section \<open>The local file system of a data node\<close>

text \<open>
  The calls of Go's \<open>os\<close> and \<open>path/filepath\<close> packages that \<open>internal/datanode/datanode.go\<close>
  makes, on a disk without links: a node for every path, a path being the list of its
  components. Each call first draws from a script of injected faults; an empty script means a
  healthy disk. A fault fails the call with an I/O error without effect, except that a write
  may have written a part. \<open>os_now\<close> is the clock of the file system.
\<close>

datatype inode = DirNode | FileNode (file_data: "byte list") (file_mtime: time)

datatype os_fault = NoFault | Fault nat

datatype os_error = ENOENT | ENOTDIR | EISDIR | ENOTEMPTY | EINVAL | EFBIG | EIO | ENegOffset

type_synonym disk = "(string list, inode) gomap"

record os_state =
  os_files :: disk
  os_now :: time
  os_faults :: "os_fault list"

type_synonym 'a os_result = "os_state \<times> (os_error + 'a)"

definition draw_fault :: "os_state \<Rightarrow> os_state \<times> os_fault" where
  "draw_fault os = (case os_faults os of [] \<Rightarrow> (os, NoFault) | f # fs \<Rightarrow> (os\<lparr>os_faults := fs\<rparr>, f))"

definition set_files :: "disk \<Rightarrow> os_state \<Rightarrow> os_state" where
  "set_files fs os = os\<lparr>os_files := fs\<rparr>"

subsection \<open>Path resolution\<close>

text \<open>The components of a path as the kernel walks them; \<open>.\<close> stays where it is.\<close>

definition os_path :: "string \<Rightarrow> string list" where
  "os_path p = filter (\<lambda>c. c \<noteq> ''.'') (components p)"

lemma os_path_plain: "list_all plain_name (components p) \<Longrightarrow> os_path p = components p"
  by (auto simp: os_path_def list_all_iff plain_name_def filter_id_conv)

definition node :: "disk \<Rightarrow> string list \<Rightarrow> inode option" where
  "node fs ps = (if ps = [] then Some DirNode else map_get fs ps)"

fun find_node :: "disk \<Rightarrow> string list \<Rightarrow> string list \<Rightarrow> os_error + inode" where
  "find_node fs at [] = (case node fs at of None \<Rightarrow> Inl ENOENT | Some n \<Rightarrow> Inr n)"
| "find_node fs at (c # cs) =
     (case node fs at of
        None \<Rightarrow> Inl ENOENT
      | Some (FileNode d t) \<Rightarrow> Inl ENOTDIR
      | Some DirNode \<Rightarrow> find_node fs (at @ [c]) cs)"

definition stat_path :: "disk \<Rightarrow> string list \<Rightarrow> os_error + inode" where
  "stat_path fs ps = find_node fs [] ps"

text \<open>Can a file be opened for writing at this path, creating it if needed?\<close>

definition check_create :: "disk \<Rightarrow> string list \<Rightarrow> os_error option" where
  "check_create fs ps =
     (if ps = [] then Some EISDIR
      else case stat_path fs (butlast ps) of
             Inl e \<Rightarrow> Some e
           | Inr (FileNode d t) \<Rightarrow> Some ENOTDIR
           | Inr DirNode \<Rightarrow> (if node fs ps = Some DirNode then Some EISDIR else None))"

subsection \<open>The calls\<close>

fun mkdir_all :: "disk \<Rightarrow> string list \<Rightarrow> string list \<Rightarrow> disk \<times> os_error option" where
  "mkdir_all fs at [] = (fs, None)"
| "mkdir_all fs at (c # cs) =
     (case node fs (at @ [c]) of
        None \<Rightarrow> mkdir_all (map_put (at @ [c]) DirNode fs) (at @ [c]) cs
      | Some DirNode \<Rightarrow> mkdir_all fs (at @ [c]) cs
      | Some (FileNode d t) \<Rightarrow> (fs, Some ENOTDIR))"

definition os_MkdirAll :: "string \<Rightarrow> os_state \<Rightarrow> unit os_result" where
  "os_MkdirAll path os =
     (let (os, f) = draw_fault os in
      if f \<noteq> NoFault then (os, Inl EIO)
      else let (fs, err) = mkdir_all (os_files os) [] (os_path path)
           in (set_files fs os, case err of None \<Rightarrow> Inr () | Some e \<Rightarrow> Inl e))"

definition os_WriteFile :: "string \<Rightarrow> byte list \<Rightarrow> os_state \<Rightarrow> unit os_result" where
  "os_WriteFile path content os =
     (let (os, f) = draw_fault os; ps = os_path path in
      case check_create (os_files os) ps of
        Some e \<Rightarrow> (os, Inl e)
      | None \<Rightarrow>
          (case f of
             NoFault \<Rightarrow> (set_files (map_put ps (FileNode content (os_now os)) (os_files os)) os, Inr ())
           | Fault n \<Rightarrow>
               (set_files (map_put ps (FileNode (take n content) (os_now os)) (os_files os)) os, Inl EIO)))"

text \<open>Only files are renamed here: the source has just been written.\<close>

definition os_Rename :: "string \<Rightarrow> string \<Rightarrow> os_state \<Rightarrow> unit os_result" where
  "os_Rename old new os =
     (let (os, f) = draw_fault os; po = os_path old; pn = os_path new; fs = os_files os in
      if f \<noteq> NoFault then (os, Inl EIO)
      else case stat_path fs po of
             Inl e \<Rightarrow> (os, Inl e)
           | Inr DirNode \<Rightarrow> (os, Inl EINVAL)
           | Inr (FileNode d t) \<Rightarrow>
               (case check_create fs pn of
                  Some e \<Rightarrow> (os, Inl e)
                | None \<Rightarrow> (set_files (map_put pn (FileNode d t) (map_del po fs)) os, Inr ())))"

definition has_children :: "disk \<Rightarrow> string list \<Rightarrow> bool" where
  "has_children fs ps = list_ex (\<lambda>q. strict_prefix ps q) (map fst fs)"

definition os_Remove :: "string \<Rightarrow> os_state \<Rightarrow> unit os_result" where
  "os_Remove path os =
     (let (os, f) = draw_fault os; ps = os_path path; fs = os_files os in
      if f \<noteq> NoFault then (os, Inl EIO)
      else case stat_path fs ps of
             Inl e \<Rightarrow> (os, Inl e)
           | Inr (FileNode d t) \<Rightarrow> (set_files (map_del ps fs) os, Inr ())
           | Inr DirNode \<Rightarrow>
               if ps = [] \<or> has_children fs ps then (os, Inl ENOTEMPTY)
               else (set_files (map_del ps fs) os, Inr ()))"

definition os_ReadFile :: "string \<Rightarrow> os_state \<Rightarrow> byte list os_result" where
  "os_ReadFile path os =
     (let (os, f) = draw_fault os in
      (os, if f \<noteq> NoFault then Inl EIO
           else case stat_path (os_files os) (os_path path) of
                  Inl e \<Rightarrow> Inl e
                | Inr DirNode \<Rightarrow> Inl EISDIR
                | Inr (FileNode d t) \<Rightarrow> Inr d))"

text \<open>\<open>filepath.Walk\<close>: every node below the root, in lexical order.\<close>

definition os_Walk :: "string \<Rightarrow> os_state \<Rightarrow> (string list \<times> inode) list os_result" where
  "os_Walk root os =
     (let (os, f) = draw_fault os; ps = os_path root; fs = os_files os in
      (os, if f \<noteq> NoFault then Inl EIO
           else case stat_path fs ps of
                  Inl e \<Rightarrow> Inl e
                | Inr n \<Rightarrow> Inr (sort_key fst (filter (\<lambda>(q, i). prefix ps q) fs))))"

definition resize :: "nat \<Rightarrow> byte list \<Rightarrow> byte list" where
  "resize n d = take n d @ replicate (n - length d) 0"

definition os_Truncate :: "string \<Rightarrow> int64 \<Rightarrow> os_state \<Rightarrow> unit os_result" where
  "os_Truncate path newSize os =
     (let (os, f) = draw_fault os; ps = os_path path; fs = os_files os in
      if f \<noteq> NoFault then (os, Inl EIO)
      else if sint newSize < 0 then (os, Inl EINVAL)
      else case stat_path fs ps of
             Inl e \<Rightarrow> (os, Inl e)
           | Inr DirNode \<Rightarrow> (os, Inl EISDIR)
           | Inr (FileNode d t) \<Rightarrow>
               (set_files (map_put ps (FileNode (resize (nat (sint newSize)) d) (os_now os)) fs) os, Inr ()))"

text \<open>\<open>os.Open\<close>, and \<open>os.OpenFile\<close> with \<open>O_RDWR\<close>, which refuses directories.\<close>

definition os_Open :: "string \<Rightarrow> os_state \<Rightarrow> inode os_result" where
  "os_Open path os =
     (let (os, f) = draw_fault os in
      (os, if f \<noteq> NoFault then Inl EIO else stat_path (os_files os) (os_path path)))"

definition os_OpenRDWR :: "string \<Rightarrow> os_state \<Rightarrow> inode os_result" where
  "os_OpenRDWR path os =
     (let (os, r) = os_Open path os in
      (os, case r of Inr DirNode \<Rightarrow> Inl EISDIR | _ \<Rightarrow> r))"

text \<open>
  \<open>f.ReadAt\<close> into a buffer of \<open>len\<close> bytes: what was read, and whether the error was \<open>io.EOF\<close>.
  An empty buffer is read without touching the file.
\<close>

definition os_ReadAt :: "inode \<Rightarrow> nat \<Rightarrow> int64 \<Rightarrow> os_state \<Rightarrow> (byte list \<times> bool) os_result" where
  "os_ReadAt n len offset os =
     (let (os, f) = draw_fault os in
      (os, if sint offset < 0 then Inl ENegOffset
           else if len = 0 then Inr ([], False)
           else if f \<noteq> NoFault then Inl EIO
           else case n of
                  DirNode \<Rightarrow> Inl EISDIR
                | FileNode d t \<Rightarrow>
                    (let got = take len (drop (nat (sint offset)) d) in Inr (got, length got < len))))"

text \<open>\<open>os.OpenFile\<close> with \<open>O_WRONLY|O_CREATE\<close> creates an empty file.\<close>

definition os_OpenCreate :: "string \<Rightarrow> os_state \<Rightarrow> unit os_result" where
  "os_OpenCreate path os =
     (let (os, f) = draw_fault os; ps = os_path path; fs = os_files os in
      if f \<noteq> NoFault then (os, Inl EIO)
      else case check_create fs ps of
             Some e \<Rightarrow> (os, Inl e)
           | None \<Rightarrow>
               (case node fs ps of
                  None \<Rightarrow> (set_files (map_put ps (FileNode [] (os_now os)) fs) os, Inr ())
                | Some n \<Rightarrow> (os, Inr ())))"

definition write_at :: "nat \<Rightarrow> byte list \<Rightarrow> byte list \<Rightarrow> byte list" where
  "write_at offset bs d =
     (if bs = [] then d else resize offset d @ bs @ drop (offset + length bs) d)"

text \<open>\<open>f.WriteAt\<close> on the file opened at the path: the number of bytes written.\<close>

definition os_WriteAt :: "string \<Rightarrow> byte list \<Rightarrow> int64 \<Rightarrow> os_state \<Rightarrow> nat os_result" where
  "os_WriteAt path bs offset os =
     (let (os, f) = draw_fault os; ps = os_path path; fs = os_files os; off = nat (sint offset);
          put = (\<lambda>bs. case node fs ps of
                   Some (FileNode d t) \<Rightarrow> set_files (map_put ps (FileNode (write_at off bs d) (os_now os)) fs) os
                 | _ \<Rightarrow> os) in
      if sint offset < 0 then (os, Inl ENegOffset)
      else if bs = [] then (os, Inr 0)
      else if sint offset + int (length bs) \<ge> 2 ^ 63 then (os, Inl EFBIG)
      else case f of
             NoFault \<Rightarrow> (put bs, Inr (length bs))
           | Fault n \<Rightarrow> (put (take n bs), Inl EIO))"

definition os_Sync :: "os_state \<Rightarrow> unit os_result" where
  "os_Sync os = (let (os, f) = draw_fault os in (os, if f \<noteq> NoFault then Inl EIO else Inr ()))"

subsection \<open>Well-formed disks\<close>

definition disk_ok :: "disk \<Rightarrow> bool" where
  "disk_ok fs \<longleftrightarrow> map_ok fs \<and> map_get fs [] = None \<and>
     (\<forall>p q. strict_prefix p q \<longrightarrow> node fs q \<noteq> None \<longrightarrow> node fs p = Some DirNode)"

definition file_at :: "disk \<Rightarrow> string list \<Rightarrow> byte list option" where
  "file_at fs ps = (case node fs ps of Some (FileNode d t) \<Rightarrow> Some d | _ \<Rightarrow> None)"

lemma draw_fault_files [simp]: "os_files (fst (draw_fault os)) = os_files os" "os_now (fst (draw_fault os)) = os_now os"
  by (simp_all add: draw_fault_def split: list.split)

lemma draw_fault_cases:
  obtains os' f where "draw_fault os = (os', f)" "os_files os' = os_files os" "os_now os' = os_now os"
    "os_faults os = [] \<Longrightarrow> f = NoFault \<and> os' = os"
  by (cases "os_faults os") (auto simp: draw_fault_def)

lemma set_files_simps [simp]:
  "os_files (set_files fs os) = fs" "os_now (set_files fs os) = os_now os" "os_faults (set_files fs os) = os_faults os"
  by (simp_all add: set_files_def)

lemma node_put: "ps \<noteq> [] \<Longrightarrow> node (map_put ps n fs) qs = (if qs = ps then Some n else node fs qs)"
  by (simp add: node_def map_get_put)

lemma node_del: "ps \<noteq> [] \<Longrightarrow> node (map_del ps fs) qs = (if qs = ps then None else node fs qs)"
  by (simp add: node_def map_get_del)

lemma node_Nil [simp]: "node fs [] = Some DirNode"
  by (simp add: node_def)

text \<open>On a well-formed disk the walk through the directories finds what is at the path.\<close>

lemma find_node_prefix:
  assumes "disk_ok fs" "node fs (at @ cs) = Some n"
  shows "find_node fs at cs = Inr n"
  using assms(2)
proof (induction cs arbitrary: at)
  case (Cons c cs)
  have "strict_prefix at (at @ c # cs)" by (simp add: strict_prefix_def)
  then have "node fs at = Some DirNode" using assms(1) Cons.prems by (auto simp: disk_ok_def)
  with Cons.IH [of "at @ [c]"] Cons.prems show ?case by simp
qed simp

lemma find_node_Inr: "find_node fs at cs = Inr n \<Longrightarrow> node fs (at @ cs) = Some n"
  by (induction fs at cs rule: find_node.induct) (auto split: option.splits inode.splits)

lemma stat_path_Inr: "disk_ok fs \<Longrightarrow> stat_path fs ps = Inr n \<longleftrightarrow> node fs ps = Some n"
  unfolding stat_path_def by (metis append_Nil find_node_Inr find_node_prefix)

lemma stat_path_Inl: "disk_ok fs \<Longrightarrow> stat_path fs ps = Inl e \<Longrightarrow> node fs ps = None"
  using stat_path_Inr [of fs ps] by (cases "node fs ps") auto

lemma check_create_None:
  assumes "disk_ok fs"
  shows "check_create fs ps = None \<longleftrightarrow>
     ps \<noteq> [] \<and> node fs (butlast ps) = Some DirNode \<and> node fs ps \<noteq> Some DirNode"
proof (cases "stat_path fs (butlast ps)")
  case (Inl e)
  then show ?thesis using assms stat_path_Inl [of fs "butlast ps" e] by (simp add: check_create_def)
next
  case (Inr n)
  then show ?thesis
    using assms stat_path_Inr [of fs "butlast ps" n] by (cases n) (simp_all add: check_create_def)
qed

subsection \<open>What the calls keep\<close>

lemma disk_okI:
  "map_ok fs \<Longrightarrow> map_get fs [] = None \<Longrightarrow>
   (\<And>p q. strict_prefix p q \<Longrightarrow> node fs q \<noteq> None \<Longrightarrow> node fs p = Some DirNode) \<Longrightarrow> disk_ok fs"
  by (simp add: disk_ok_def)

lemma disk_ok_parent: "disk_ok fs \<Longrightarrow> strict_prefix p q \<Longrightarrow> node fs q \<noteq> None \<Longrightarrow> node fs p = Some DirNode"
  by (simp add: disk_ok_def)

lemma disk_ok_put:
  assumes ok: "disk_ok fs" and ps: "ps \<noteq> []" "node fs (butlast ps) = Some DirNode"
    and n: "n = DirNode \<or> node fs ps \<noteq> Some DirNode"
  shows "disk_ok (map_put ps n fs)"
proof (rule disk_okI)
  show "map_ok (map_put ps n fs)" "map_get (map_put ps n fs) [] = None"
    using ok ps(1) by (simp_all add: disk_ok_def map_ok_put map_get_put)
  fix p q assume pq: "strict_prefix p q" and q: "node (map_put ps n fs) q \<noteq> None"
  have above: "node fs p = Some DirNode" if "strict_prefix p ps" for p
  proof (cases "p = butlast ps")
    case False
    then have "strict_prefix p (butlast ps)"
      using that prefix_butlast_strict [OF ps(1), of p] by (simp add: strict_prefix_def)
    then show ?thesis using disk_ok_parent [OF ok] ps(2) by simp
  qed (simp add: ps(2))
  have p: "node fs p = Some DirNode"
  proof (cases "q = ps")
    case False
    then show ?thesis using q pq disk_ok_parent [OF ok] ps(1) by (simp add: node_put)
  qed (use above pq in simp)
  show "node (map_put ps n fs) p = Some DirNode"
    using p n ps(1) by (auto simp: node_put)
qed

lemma disk_ok_del:
  assumes ok: "disk_ok fs" and ps: "ps \<noteq> []" and leaf: "\<And>q. strict_prefix ps q \<Longrightarrow> node fs q = None"
  shows "disk_ok (map_del ps fs)"
proof (rule disk_okI)
  show "map_ok (map_del ps fs)" "map_get (map_del ps fs) [] = None"
    using ok by (simp_all add: disk_ok_def map_ok_del map_get_del)
  fix p q assume "strict_prefix p q" "node (map_del ps fs) q \<noteq> None"
  then show "node (map_del ps fs) p = Some DirNode"
    using leaf [of q] disk_ok_parent [OF ok, of p q] by (auto simp: node_del [OF ps] split: if_splits)
qed

lemma file_leaf: "disk_ok fs \<Longrightarrow> node fs ps = Some (FileNode d t) \<Longrightarrow> strict_prefix ps q \<Longrightarrow> node fs q = None"
  using disk_ok_parent by fastforce

lemma no_children_leaf: "\<not> has_children fs ps \<Longrightarrow> strict_prefix ps q \<Longrightarrow> node fs q = None"
  by (cases "map_get fs q")
     (force simp: has_children_def list_ex_iff node_def dest: map_of_SomeD)+

lemma file_at_put: "ps \<noteq> [] \<Longrightarrow> file_at (map_put ps (FileNode d t) fs) = (file_at fs)(ps \<mapsto> d)"
  by (rule ext) (simp add: file_at_def node_put)

lemma file_at_put_dir: "ps \<noteq> [] \<Longrightarrow> node fs ps = None \<Longrightarrow> file_at (map_put ps DirNode fs) = file_at fs"
  by (rule ext) (simp add: file_at_def node_put)

lemma file_at_del: "ps \<noteq> [] \<Longrightarrow> file_at (map_del ps fs) = (file_at fs)(ps := None)"
  by (rule ext) (simp add: file_at_def node_del)

lemma file_at_Some: "file_at fs ps = Some d \<longleftrightarrow> (\<exists>t. node fs ps = Some (FileNode d t))"
  by (auto simp: file_at_def split: option.splits inode.splits)

lemma file_at_nonempty: "file_at fs ps = Some d \<Longrightarrow> ps \<noteq> []"
  by (auto simp: file_at_Some)

lemma mkdir_all_ok:
  assumes "disk_ok fs" "node fs at = Some DirNode" "mkdir_all fs at cs = (fs', err)"
  shows "disk_ok fs' \<and> file_at fs' = file_at fs \<and> (\<forall>q. node fs q \<noteq> None \<longrightarrow> node fs' q = node fs q) \<and>
    (err = None \<longrightarrow> node fs' (at @ cs) = Some DirNode)"
  using assms
proof (induction fs at cs rule: mkdir_all.induct)
  case (2 fs at c cs)
  show ?case
  proof (cases "node fs (at @ [c])")
    case None
    let ?fs = "map_put (at @ [c]) DirNode fs"
    have "disk_ok ?fs" using "2.prems"(1,2) by (intro disk_ok_put) simp_all
    moreover have "file_at ?fs = file_at fs" using None by (intro file_at_put_dir) simp_all
    ultimately show ?thesis
      using "2.IH"(1) [OF None] "2.prems" None by (auto simp: node_put split: if_splits)
  next
    case (Some n)
    then show ?thesis using "2.IH"(2) [OF Some] "2.prems" by (cases n) (auto simp: file_at_def)
  qed
qed simp

subsection \<open>The effect of each call on the files\<close>

text \<open>
  Each lemma is stated on a run of the call: the disk stays well formed, what a success has done,
  and that a failure has done nothing, or no more than spoil the file being written.
\<close>

abbreviation os_ok :: "os_state \<Rightarrow> bool" where
  "os_ok os \<equiv> disk_ok (os_files os)"

abbreviation files :: "os_state \<Rightarrow> string list \<Rightarrow> byte list option" where
  "files os \<equiv> file_at (os_files os)"

lemma os_MkdirAll_ok:
  assumes "os_ok os" "os_MkdirAll path os = (os', r)"
  shows "os_ok os' \<and> files os' = files os \<and> (\<forall>q. node (os_files os) q \<noteq> None \<longrightarrow> node (os_files os') q = node (os_files os) q)
    \<and> (r = Inr () \<longrightarrow> node (os_files os') (os_path path) = Some DirNode)"
proof -
  obtain os1 f where d: "draw_fault os = (os1, f)" "os_files os1 = os_files os"
    by (rule draw_fault_cases [of os])
  obtain fs err where m: "mkdir_all (os_files os) [] (os_path path) = (fs, err)" by fastforce
  from mkdir_all_ok [OF assms(1) node_Nil m] assms d m show ?thesis
    by (auto simp: os_MkdirAll_def Let_def split: if_splits option.splits)
qed

lemma os_WriteFile_ok:
  assumes "os_ok os" "os_WriteFile path content os = (os', r)" "ps = os_path path"
  shows "os_ok os' \<and> (\<forall>q. q \<noteq> ps \<longrightarrow> files os' q = files os q) \<and>
    (r = Inr () \<longrightarrow> ps \<noteq> [] \<and> files os' = (files os)(ps \<mapsto> content))"
proof -
  obtain os1 f where d: "draw_fault os = (os1, f)" "os_files os1 = os_files os"
    by (rule draw_fault_cases [of os])
  have put: "disk_ok (map_put ps (FileNode c t) (os_files os)) \<and>
      file_at (map_put ps (FileNode c t) (os_files os)) = (files os)(ps \<mapsto> c) \<and> ps \<noteq> []"
    if "check_create (os_files os) ps = None" for c t
    using that check_create_None [OF assms(1)] disk_ok_put [OF assms(1)] file_at_put by auto
  show ?thesis
  proof (cases "check_create (os_files os) ps")
    case None
    then show ?thesis
      using assms(2) d put [OF None] by (auto simp: os_WriteFile_def Let_def assms(3) split: os_fault.splits)
  next
    case (Some e)
    then show ?thesis using assms d by (auto simp: os_WriteFile_def Let_def)
  qed
qed

text \<open>A write that fails may leave a part of the content.\<close>

lemma os_WriteFile_part:
  assumes "os_ok os" "os_WriteFile path content os = (os', r)" "ps = os_path path"
  shows "files os' ps = files os ps \<or> (\<exists>n. files os' ps = Some (take n content))"
proof -
  obtain os1 f where d: "draw_fault os = (os1, f)" "os_files os1 = os_files os"
    by (rule draw_fault_cases [of os])
  have "file_at (map_put ps (FileNode c t) (os_files os)) ps = Some c" if "check_create (os_files os) ps = None" for c t
    using that check_create_None [OF assms(1)] file_at_put by auto
  moreover have "\<exists>n. content = take n content" by (rule exI [of _ "length content"]) simp
  ultimately show ?thesis
    using assms(2) d by (cases f) (auto simp: os_WriteFile_def Let_def assms(3) split: option.splits)
qed

lemma os_Rename_ok:
  assumes "os_ok os" "os_Rename old new os = (os', r)"
  shows "os_ok os' \<and> (\<forall>e. r = Inl e \<longrightarrow> os_files os' = os_files os) \<and>
    (r = Inr () \<longrightarrow> (\<exists>d. files os (os_path old) = Some d \<and>
       files os' = (files os)(os_path old := None, os_path new \<mapsto> d)))"
proof -
  obtain os1 f where d: "draw_fault os = (os1, f)" "os_files os1 = os_files os"
    by (rule draw_fault_cases [of os])
  let ?po = "os_path old" and ?pn = "os_path new" and ?fs = "os_files os"
  have move: "disk_ok (map_put ?pn (FileNode c t) (map_del ?po ?fs)) \<and>
      file_at (map_put ?pn (FileNode c t) (map_del ?po ?fs)) = (files os)(?po := None, ?pn \<mapsto> c) \<and>
      node ?fs ?po = Some (FileNode c t)"
    if s: "stat_path ?fs ?po = Inr (FileNode c t)" and c: "check_create ?fs ?pn = None"
  for c t
  proof -
    have n: "node ?fs ?po = Some (FileNode c t)" using s stat_path_Inr [OF assms(1)] by simp
    note pn = c [unfolded check_create_None [OF assms(1)]]
    have po: "?po \<noteq> []" using n by auto
    have del: "disk_ok (map_del ?po ?fs)" using disk_ok_del [OF assms(1) po file_leaf [OF assms(1) n]] .
    have "node (map_del ?po ?fs) (butlast ?pn) = Some DirNode" "node (map_del ?po ?fs) ?pn \<noteq> Some DirNode"
      using pn n po by (auto simp: node_del)
    then show ?thesis
      using disk_ok_put [OF del] pn po n by (simp add: file_at_put file_at_del)
  qed
  show ?thesis
    using assms d move
    by (auto simp: os_Rename_def Let_def file_at_Some split: if_splits sum.splits inode.splits option.splits)
qed

lemma os_Remove_ok:
  assumes "os_ok os" "os_Remove path os = (os', r)" "ps = os_path path"
  shows "os_ok os' \<and> (\<forall>e. r = Inl e \<longrightarrow> os_files os' = os_files os) \<and>
    (r = Inr () \<longrightarrow> files os' = (files os)(ps := None)) \<and> (r = Inl ENOENT \<longrightarrow> files os ps = None)"
proof -
  obtain os1 f where d: "draw_fault os = (os1, f)" "os_files os1 = os_files os"
    by (rule draw_fault_cases [of os])
  note ok = assms(1)
  show ?thesis
  proof (cases "stat_path (os_files os) ps")
    case (Inl e)
    then show ?thesis
      using assms d stat_path_Inl [OF ok Inl] by (auto simp: os_Remove_def Let_def file_at_def split: if_splits)
  next
    case (Inr n)
    then have n: "node (os_files os) ps = Some n" using stat_path_Inr [OF ok] by simp
    show ?thesis
    proof (cases n)
      case (FileNode c t)
      have ps: "ps \<noteq> []" using n FileNode by auto
      have "disk_ok (map_del ps (os_files os))"
        using disk_ok_del [OF ok ps] file_leaf [OF ok] n FileNode by blast
      then show ?thesis
        using assms d Inr FileNode file_at_del [OF ps] by (auto simp: os_Remove_def Let_def split: if_splits)
    next
      case DirNode
      then have "files os ps = None" using n by (simp add: file_at_def)
      then have "(files os)(ps := None) = files os" by (simp add: fun_upd_idem)
      moreover have "ps \<noteq> [] \<Longrightarrow> \<not> has_children (os_files os) ps \<Longrightarrow> disk_ok (map_del ps (os_files os))"
        using disk_ok_del [OF ok] no_children_leaf by blast
      ultimately show ?thesis
        using assms d Inr DirNode file_at_del [of ps "os_files os"]
        by (auto simp: os_Remove_def Let_def split: if_splits)
    qed
  qed
qed

lemma disk_ok_overwrite:
  assumes "disk_ok fs" "node fs ps = Some (FileNode c t)"
  shows "disk_ok (map_put ps (FileNode d u) fs) \<and> file_at (map_put ps (FileNode d u) fs) = (file_at fs)(ps \<mapsto> d)"
proof -
  have ps: "ps \<noteq> []" using assms(2) by auto
  then have "strict_prefix (butlast ps) ps" by (rule strict_prefix_butlast)
  then have "node fs (butlast ps) = Some DirNode" using disk_ok_parent [OF assms(1)] assms(2) by blast
  with disk_ok_put [OF assms(1) ps] assms(2) file_at_put [OF ps] show ?thesis by simp
qed

lemma os_Truncate_ok:
  assumes "os_ok os" "os_Truncate path n os = (os', r)" "ps = os_path path"
  shows "os_ok os' \<and> (\<forall>e. r = Inl e \<longrightarrow> os_files os' = os_files os) \<and>
    (r = Inr () \<longrightarrow> 0 \<le> sint n \<and> (\<exists>d. files os ps = Some d \<and> files os' = (files os)(ps \<mapsto> resize (nat (sint n)) d)))"
proof -
  obtain os1 f where d: "draw_fault os = (os1, f)" "os_files os1 = os_files os"
    by (rule draw_fault_cases [of os])
  have st: "node (os_files os) ps = Some i" if "stat_path (os_files os) ps = Inr i" for i
    using that stat_path_Inr [OF assms(1)] by simp
  have "disk_ok (map_put ps (FileNode e u) (os_files os)) \<and>
      file_at (map_put ps (FileNode e u) (os_files os)) = (files os)(ps \<mapsto> e) \<and> files os ps = Some c"
    if "stat_path (os_files os) ps = Inr (FileNode c t)" for c t e u
    using disk_ok_overwrite [OF assms(1) st [OF that]] st [OF that] by (simp add: file_at_def)
  then show ?thesis
    using assms d by (auto simp: os_Truncate_def Let_def split: if_splits sum.splits inode.splits)
qed

lemma os_OpenCreate_ok:
  assumes "os_ok os" "os_OpenCreate path os = (os', r)" "ps = os_path path"
  shows "os_ok os' \<and> (\<forall>e. r = Inl e \<longrightarrow> os_files os' = os_files os) \<and>
    (r = Inr () \<longrightarrow> files os' = (files os)(ps \<mapsto> case files os ps of None \<Rightarrow> [] | Some d \<Rightarrow> d))"
proof -
  obtain os1 f where d: "draw_fault os = (os1, f)" "os_files os1 = os_files os"
    by (rule draw_fault_cases [of os])
  show ?thesis
  proof (cases "check_create (os_files os) ps")
    case None
    note c = None [unfolded check_create_None [OF assms(1)]]
    have new: "disk_ok (map_put ps (FileNode [] u) (os_files os)) \<and>
        file_at (map_put ps (FileNode [] u) (os_files os)) = (files os)(ps \<mapsto> [])" for u
      using c disk_ok_put [OF assms(1)] file_at_put by auto
    show ?thesis
    proof (cases "node (os_files os) ps")
      case None
      then show ?thesis
        using assms d \<open>check_create (os_files os) ps = None\<close> new
        by (auto simp: os_OpenCreate_def Let_def file_at_def split: if_splits)
    next
      case (Some n)
      then obtain e t where "n = FileNode e t" using c by (cases n) auto
      then have "files os ps = Some e" using Some by (simp add: file_at_def)
      then show ?thesis
        using assms d Some \<open>check_create (os_files os) ps = None\<close>
        by (auto simp: os_OpenCreate_def Let_def fun_upd_idem split: if_splits)
    qed
  next
    case (Some e)
    then show ?thesis using assms d by (auto simp: os_OpenCreate_def Let_def split: if_splits)
  qed
qed

lemma os_WriteAt_ok:
  assumes "os_ok os" "os_WriteAt path bs offset os = (os', r)" "ps = os_path path"
  shows "os_ok os' \<and> (\<forall>q. q \<noteq> ps \<longrightarrow> files os' q = files os q) \<and>
    (\<forall>n. r = Inr n \<longrightarrow> n = length bs \<and> 0 \<le> sint offset \<and>
       files os' = (files os)(ps := map_option (write_at (nat (sint offset)) bs) (files os ps)))"
proof -
  obtain os1 f where d: "draw_fault os = (os1, f)" "os_files os1 = os_files os"
    by (rule draw_fault_cases [of os])
  show ?thesis
  proof (cases "node (os_files os) ps")
    case None
    then have "files os ps = None" by (simp add: file_at_def)
    then have "(files os)(ps := None) = files os" by (simp add: fun_upd_idem)
    then show ?thesis
      using assms d None \<open>files os ps = None\<close>
      by (auto simp: os_WriteAt_def Let_def split: if_splits os_fault.splits)
  next
    case (Some n)
    show ?thesis
    proof (cases n)
      case DirNode
      then have "files os ps = None" using Some by (simp add: file_at_def)
      then have "(files os)(ps := None) = files os" by (simp add: fun_upd_idem)
      then show ?thesis
        using assms d Some DirNode \<open>files os ps = None\<close>
        by (auto simp: os_WriteAt_def Let_def split: if_splits os_fault.splits)
    next
      case (FileNode e t)
      then have f: "files os ps = Some e" using Some by (simp add: file_at_def)
      then have "(files os)(ps \<mapsto> e) = files os" by (simp add: fun_upd_idem)
      with f show ?thesis
        using assms d Some FileNode disk_ok_overwrite [OF assms(1), of ps e t]
        by (auto simp: os_WriteAt_def Let_def write_at_def split: if_splits os_fault.splits)
    qed
  qed
qed

lemma os_read_files:
  "os_files (fst (os_ReadFile path os)) = os_files os" "os_files (fst (os_Open path os)) = os_files os"
  "os_files (fst (os_OpenRDWR path os)) = os_files os" "os_files (fst (os_ReadAt n len off os)) = os_files os"
  "os_files (fst (os_Walk path os)) = os_files os" "os_files (fst (os_Sync os)) = os_files os"
  by (simp_all add: os_ReadFile_def os_Open_def os_OpenRDWR_def os_ReadAt_def os_Walk_def os_Sync_def
      Let_def split: prod.split) (metis draw_fault_files(1) fst_conv)+

lemma os_ReadFile_ok:
  assumes "os_ok os" "os_ReadFile path os = (os', Inr d)"
  shows "files os (os_path path) = Some d"
proof -
  obtain os1 f where dr: "draw_fault os = (os1, f)" "os_files os1 = os_files os"
    by (rule draw_fault_cases [of os])
  then show ?thesis
    using assms stat_path_Inr [OF assms(1), of "os_path path"]
    by (auto simp: os_ReadFile_def Let_def file_at_Some split: if_splits sum.splits inode.splits)
qed

subsection \<open>The nodes a call can change\<close>

text \<open>A call on a path changes no other node; \<open>MkdirAll\<close> may add the ancestors.\<close>

lemma node_put_other: "q \<noteq> ps \<Longrightarrow> node (map_put ps n fs) q = node fs q"
  by (simp add: node_def map_get_put)

lemma node_del_other: "q \<noteq> ps \<Longrightarrow> node (map_del ps fs) q = node fs q"
  by (simp add: node_def map_get_del)

lemma mkdir_all_frame:
  "\<not> prefix q (at @ cs) \<Longrightarrow> node (fst (mkdir_all fs at cs)) q = node fs q"
proof (induction fs at cs rule: mkdir_all.induct)
  case (2 fs at c cs)
  have "q \<noteq> at @ [c]" using "2.prems" by (auto simp: prefix_def)
  then show ?case
    using 2 by (auto simp: node_put_other split: option.split inode.split)
qed simp

lemma os_frame:
  "\<not> prefix q (os_path path) \<Longrightarrow> node (os_files (fst (os_MkdirAll path os))) q = node (os_files os) q"
  "q \<noteq> os_path path \<Longrightarrow> node (os_files (fst (os_WriteFile path c os))) q = node (os_files os) q"
  "q \<noteq> os_path path \<Longrightarrow> q \<noteq> os_path new \<Longrightarrow> node (os_files (fst (os_Rename path new os))) q = node (os_files os) q"
  "q \<noteq> os_path path \<Longrightarrow> node (os_files (fst (os_Remove path os))) q = node (os_files os) q"
  "q \<noteq> os_path path \<Longrightarrow> node (os_files (fst (os_Truncate path n os))) q = node (os_files os) q"
  "q \<noteq> os_path path \<Longrightarrow> node (os_files (fst (os_OpenCreate path os))) q = node (os_files os) q"
  "q \<noteq> os_path path \<Longrightarrow> node (os_files (fst (os_WriteAt path c off os))) q = node (os_files os) q"
  using mkdir_all_frame [of q "[]" "os_path path" "os_files os"]
  unfolding os_MkdirAll_def os_WriteFile_def os_Rename_def os_Remove_def os_Truncate_def os_OpenCreate_def
    os_WriteAt_def Let_def
  by (cases "draw_fault os"; insert draw_fault_files(1) [of os];
      auto simp: node_put_other node_del_other split: option.split os_fault.split sum.split inode.split prod.split)+

end
