(* ===== verification/Data_Node.thy ===== *)
theory Data_Node
  imports Os_Disk
begin

section \<open>The data node\<close>

text \<open>
  The RPC methods of \<open>DataNode\<close> in \<open>internal/datanode/datanode.go\<close>, one definition each, over
  the disk of \<open>Os_Disk\<close>. Every return of an error is a constructor of \<open>dn_error\<close>; \<open>DnPanic\<close> is
  the run-time panic of a negative buffer length. Memory has no bound here: \<open>RangeRead\<close> of a length
  that Go cannot allocate, which panics too, is one that reads to the end. The lock of the node
  makes each method one step on its disk.
\<close>

record DataNode =
  dataDir :: string
  mdsAddr :: string
  dn_addr :: string

datatype dn_error =
    DnInvalidPath string
  | DnCreateDataDir os_error
  | DnCreateParent os_error
  | DnWrite os_error
  | DnRename os_error
  | DnNotFound string
  | DnRead os_error
  | DnDelete os_error
  | DnWalk os_error
  | DnOpen os_error
  | DnReadRange os_error
  | DnOpenWrite os_error
  | DnWriteRange os_error
  | DnShortWrite nat nat
  | DnTruncate os_error
  | DnOpenSync os_error
  | DnSync os_error
  | DnPanic

type_synonym 'a dn_result = "os_state \<times> (dn_error + 'a)"

definition NewDataNode :: "string \<Rightarrow> string \<Rightarrow> string \<Rightarrow> os_state \<Rightarrow> DataNode dn_result" where
  "NewDataNode dir mds addr os =
     (case os_MkdirAll dir os of
        (os, Inl e) \<Rightarrow> (os, Inl (DnCreateDataDir e))
      | (os, Inr u) \<Rightarrow> (os, Inr \<lparr>dataDir = dir, mdsAddr = mds, dn_addr = addr\<rparr>))"

definition resolvePath :: "DataNode \<Rightarrow> string \<Rightarrow> dn_error + string" where
  "resolvePath dn remotePath =
     (let clean = Clean (''/'' @ TrimPrefix remotePath ''/'') in
      if Contains clean ''..'' then Inl (DnInvalidPath remotePath)
      else Inr (Join (dataDir dn) clean))"

definition StoreData :: "DataNode \<Rightarrow> StoreArgs \<Rightarrow> os_state \<Rightarrow> bool dn_result" where
  "StoreData dn args os =
     (case resolvePath dn (st_Path args) of
        Inl e \<Rightarrow> (os, Inl e)
      | Inr realPath \<Rightarrow>
     (case os_MkdirAll (Dir realPath) os of
        (os, Inl e) \<Rightarrow> (os, Inl (DnCreateParent e))
      | (os, Inr u) \<Rightarrow>
          (let tmpPath = realPath @ ''.tmp'' in
           case os_WriteFile tmpPath (st_Content args) os of
             (os, Inl e) \<Rightarrow> (os, Inl (DnWrite e))
           | (os, Inr u) \<Rightarrow>
               (case os_Rename tmpPath realPath os of
                  (os, Inl e) \<Rightarrow> (fst (os_Remove tmpPath os), Inl (DnRename e))
                | (os, Inr u) \<Rightarrow> (os, Inr True)))))"

definition GetData :: "DataNode \<Rightarrow> string \<Rightarrow> os_state \<Rightarrow> byte list dn_result" where
  "GetData dn path os =
     (case resolvePath dn path of
        Inl e \<Rightarrow> (os, Inl e)
      | Inr realPath \<Rightarrow>
          (case os_ReadFile realPath os of
             (os, Inl e) \<Rightarrow> (os, Inl (if e = ENOENT then DnNotFound path else DnRead e))
           | (os, Inr d) \<Rightarrow> (os, Inr d)))"

definition DeleteData :: "DataNode \<Rightarrow> string \<Rightarrow> os_state \<Rightarrow> bool dn_result" where
  "DeleteData dn path os =
     (case resolvePath dn path of
        Inl e \<Rightarrow> (os, Inl e)
      | Inr realPath \<Rightarrow>
          (case os_Remove realPath os of
             (os, Inl e) \<Rightarrow> (os, if e = ENOENT then Inr True else Inl (DnDelete e))
           | (os, Inr u) \<Rightarrow> (os, Inr True)))"

definition HealthCheck :: "DataNode \<Rightarrow> os_state \<Rightarrow> bool dn_result" where
  "HealthCheck dn os = (os, Inr True)"

text \<open>The callback of \<open>filepath.Walk\<close> on one node, and \<open>filepath.Rel\<close> below the data directory.\<close>

definition walk_path :: "string \<Rightarrow> string list \<Rightarrow> string" where
  "walk_path root q = Join root (intercalate ''/'' (drop (length (os_path root)) q))"

definition Rel :: "string \<Rightarrow> string list \<Rightarrow> string" where
  "Rel root q =
     (let rest = drop (length (os_path root)) q in if rest = [] then ''.'' else intercalate ''/'' rest)"

definition walk_fn :: "string \<Rightarrow> string list \<times> inode \<Rightarrow> NodeFile option" where
  "walk_fn root x =
     (case x of
        (q, DirNode) \<Rightarrow> None
      | (q, FileNode d t) \<Rightarrow>
          if HasSuffix (walk_path root q) ''.tmp'' then None
          else Some \<lparr>nf_Path = ''/'' @ Rel root q, nf_ModTime = t\<rparr>)"

definition ListAllPaths :: "DataNode \<Rightarrow> os_state \<Rightarrow> NodeFile list dn_result" where
  "ListAllPaths dn os =
     (case os_Walk (dataDir dn) os of
        (os, Inl e) \<Rightarrow> (os, Inl (DnWalk e))
      | (os, Inr xs) \<Rightarrow> (os, Inr (List.map_filter (walk_fn (dataDir dn)) xs)))"

definition RangeRead :: "DataNode \<Rightarrow> RangeReadArgs \<Rightarrow> os_state \<Rightarrow> RangeReadReply dn_result" where
  "RangeRead dn args os =
     (case resolvePath dn (rr_Path args) of
        Inl e \<Rightarrow> (os, Inl e)
      | Inr realPath \<Rightarrow>
     (case os_Open realPath os of
        (os, Inl e) \<Rightarrow>
          (os, if e = ENOENT then Inr \<lparr>rr_Data = [], rr_EOF = True\<rparr> else Inl (DnOpen e))
      | (os, Inr f) \<Rightarrow>
          if sint (rr_Length args) < 0 then (os, Inl DnPanic)
          else (case os_ReadAt f (nat (sint (rr_Length args))) (rr_Offset args) os of
                  (os, Inl e) \<Rightarrow> (os, Inl (DnReadRange e))
                | (os, Inr (got, eof)) \<Rightarrow>
                    (os, Inr \<lparr>rr_Data = got,
                       rr_EOF = (eof \<or> int (length got) < sint (rr_Length args))\<rparr>))))"

definition PartialWrite :: "DataNode \<Rightarrow> PartialWriteArgs \<Rightarrow> os_state \<Rightarrow> bool dn_result" where
  "PartialWrite dn args os =
     (case resolvePath dn (pw_Path args) of
        Inl e \<Rightarrow> (os, Inl e)
      | Inr realPath \<Rightarrow>
     (case os_MkdirAll (Dir realPath) os of
        (os, Inl e) \<Rightarrow> (os, Inl (DnCreateParent e))
      | (os, Inr u) \<Rightarrow>
     (case os_OpenCreate realPath os of
        (os, Inl e) \<Rightarrow> (os, Inl (DnOpenWrite e))
      | (os, Inr u) \<Rightarrow>
          (case os_WriteAt realPath (pw_Data args) (pw_Offset args) os of
             (os, Inl e) \<Rightarrow> (os, Inl (DnWriteRange e))
           | (os, Inr n) \<Rightarrow>
               (os, if n \<noteq> length (pw_Data args) then Inl (DnShortWrite n (length (pw_Data args)))
                    else Inr True)))))"

definition Truncate :: "DataNode \<Rightarrow> TruncateArgs \<Rightarrow> os_state \<Rightarrow> bool dn_result" where
  "Truncate dn args os =
     (case resolvePath dn (tr_Path args) of
        Inl e \<Rightarrow> (os, Inl e)
      | Inr realPath \<Rightarrow>
          (case os_Truncate realPath (tr_Size args) os of
             (os, Inl e) \<Rightarrow> (os, Inl (DnTruncate e))
           | (os, Inr u) \<Rightarrow> (os, Inr True)))"

definition Sync :: "DataNode \<Rightarrow> SyncArgs \<Rightarrow> os_state \<Rightarrow> bool dn_result" where
  "Sync dn args os =
     (case resolvePath dn (sy_Path args) of
        Inl e \<Rightarrow> (os, Inl e)
      | Inr realPath \<Rightarrow>
     (case os_OpenRDWR realPath os of
        (os, Inl e) \<Rightarrow> (os, Inl (if e = ENOENT then DnNotFound (sy_Path args) else DnOpenSync e))
      | (os, Inr f) \<Rightarrow>
          (case os_Sync os of
             (os, Inl e) \<Rightarrow> (os, Inl (DnSync e))
           | (os, Inr u) \<Rightarrow> (os, Inr True))))"

subsection \<open>Where a virtual path lands on the disk\<close>

definition dn_ok :: "DataNode \<Rightarrow> bool" where
  "dn_ok dn \<longleftrightarrow> HasPrefix (dataDir dn) ''/'' \<and> components (dataDir dn) \<noteq> [] \<and>
     list_all plain_name (components (dataDir dn))"

definition virtual :: "string \<Rightarrow> string list" where
  "virtual p = clean_fold True [] (components p)"

definition target :: "DataNode \<Rightarrow> string \<Rightarrow> string list" where
  "target dn p = components (dataDir dn) @ virtual p"

definition tmp_of :: "string list \<Rightarrow> string list" where
  "tmp_of ps = butlast ps @ [last ps @ ''.tmp'']"

lemma virtual_plain: "list_all plain_name (virtual p)"
  unfolding virtual_def by (rule clean_fold_rooted [OF components_valid]) simp

lemma target_plain: "dn_ok dn \<Longrightarrow> list_all plain_name (target dn p) \<and> target dn p \<noteq> []"
  using virtual_plain [of p] by (simp add: target_def dn_ok_def)

lemma plain_tmp: "plain_name n \<Longrightarrow> plain_name (n @ ''.tmp'')"
  by (auto simp: plain_name_def valid_name_def append_eq_Cons_conv)

lemma tmp_of_neq: "ps \<noteq> [] \<Longrightarrow> tmp_of ps \<noteq> ps"
  by (metis append_butlast_last_id last_snoc list.distinct(1) self_append_conv tmp_of_def)

lemma resolvePath_lands:
  assumes dn: "dn_ok dn" and r: "resolvePath dn p = Inr realPath"
  shows "os_path realPath = target dn p" "os_path (Dir realPath) = butlast (target dn p)"
    "os_path (realPath @ ''.tmp'') = tmp_of (target dn p)"
proof -
  let ?clean = "Clean (slash # TrimPrefix p ''/'')"
  let ?s = "dataDir dn @ slash # ?clean"
  have real: "realPath = Clean ?s"
    using r dn by (auto simp: resolvePath_def Join_def Let_def dn_ok_def split: if_splits)
  have cs: "components ?s = target dn p"
    by (simp add: components_append_slash components_Clean_rooted components_TrimPrefix target_def virtual_def)
  note pl = target_plain [OF dn, of p]
  obtain xs n where xs: "target dn p = xs @ [n]" using pl by (metis snoc_cases)
  have hp: "HasPrefix ?s ''/''" using dn by (auto simp: dn_ok_def HasPrefix_iff)
  obtain pre where pre: "realPath = pre @ slash # n" "components pre = xs" "HasPrefix (pre @ [slash]) ''/''"
    using Clean_rooted_snoc [OF hp, of xs n] pl xs cs real by auto
  have n: "plain_name n" "list_all plain_name xs" using pl xs by simp_all
  note last = components_last [OF pre(2)]
  have "components realPath = xs @ [n]" using last [of n] n pre(1) by (simp add: valid_name_plain)
  then show "os_path realPath = target dn p" using n xs by (simp add: os_path_plain)
  have "components (Dir realPath) = xs"
    unfolding pre(1) by (rule components_Dir [OF pre(2) n(2) valid_name_plain [OF n(1)] pre(3)])
  then show "os_path (Dir realPath) = butlast (target dn p)" using n xs by (simp add: os_path_plain)
  have "components (realPath @ ''.tmp'') = xs @ [n @ ''.tmp'']"
    using last [of "n @ ''.tmp''"] plain_tmp [OF n(1)] pre(1) by (simp add: valid_name_plain)
  then show "os_path (realPath @ ''.tmp'') = tmp_of (target dn p)"
    using n plain_tmp [OF n(1)] xs by (simp add: os_path_plain tmp_of_def)
qed

subsection \<open>The methods as operations on files\<close>

text \<open>The atomic replacement: write the temporary file, rename it, clean up if that fails.\<close>

definition replace_file :: "string \<Rightarrow> byte list \<Rightarrow> os_state \<Rightarrow> bool dn_result" where
  "replace_file realPath content os =
     (case os_WriteFile (realPath @ ''.tmp'') content os of
        (os, Inl e) \<Rightarrow> (os, Inl (DnWrite e))
      | (os, Inr u) \<Rightarrow>
          (case os_Rename (realPath @ ''.tmp'') realPath os of
             (os, Inl e) \<Rightarrow> (fst (os_Remove (realPath @ ''.tmp'') os), Inl (DnRename e))
           | (os, Inr u) \<Rightarrow> (os, Inr True)))"

text \<open>What a failed store may leave under the temporary name: what was there, nothing, or a part of the
  new content.\<close>

definition leftover :: "string list \<Rightarrow> byte list \<Rightarrow> os_state \<Rightarrow> os_state \<Rightarrow> bool" where
  "leftover t content os os' \<longleftrightarrow>
     files os' (tmp_of t) \<in> {files os (tmp_of t), None} \<or> (\<exists>n. files os' (tmp_of t) = Some (take n content))"

definition replaced :: "string list \<Rightarrow> byte list \<Rightarrow> os_state \<Rightarrow> os_state \<Rightarrow> dn_error + bool \<Rightarrow> bool" where
  "replaced t content os os' r \<longleftrightarrow> os_ok os' \<and>
     (\<forall>q. q \<noteq> t \<longrightarrow> q \<noteq> tmp_of t \<longrightarrow> files os' q = files os q) \<and>
     (case r of Inl e \<Rightarrow> files os' t = files os t \<and> leftover t content os os'
      | Inr b \<Rightarrow> b \<and> files os' = (files os)(tmp_of t := None, t \<mapsto> content))"

lemma replaced_cong: "files os1 = files os \<Longrightarrow> replaced t content os1 os' r = replaced t content os os' r"
  by (simp add: replaced_def leftover_def split: sum.split)

lemma replace_file_replaced:
  assumes ok: "os_ok os" and run: "replace_file realPath content os = (os', r)"
    and land: "os_path realPath = t" "os_path (realPath @ ''.tmp'') = tmp_of t" and tne: "tmp_of t \<noteq> t"
  shows "replaced t content os os' r"
proof -
  obtain os2 r2 where 2: "os_WriteFile (realPath @ ''.tmp'') content os = (os2, r2)" by fastforce
  note w = os_WriteFile_ok [OF ok 2 refl, unfolded land]
  note part = os_WriteFile_part [OF ok 2 refl, unfolded land]
  from w have ok2: "os_ok os2" by simp
  show ?thesis
  proof (cases r2)
    case (Inl e)
    then show ?thesis using run 2 w part tne by (auto simp: replace_file_def replaced_def leftover_def)
  next
    case r2: (Inr u)
    then have f2: "files os2 = (files os)(tmp_of t \<mapsto> content)" using w by simp
    obtain os3 r3 where 3: "os_Rename (realPath @ ''.tmp'') realPath os2 = (os3, r3)" by fastforce
    note rn = os_Rename_ok [OF ok2 3, unfolded land]
    show ?thesis
    proof (cases r3)
      case (Inl e)
      obtain os4 r4 where 4: "os_Remove (realPath @ ''.tmp'') os3 = (os4, r4)" by fastforce
      have ok3: "os_ok os3" and f3: "os_files os3 = os_files os2" using rn Inl by blast+
      note rm = os_Remove_ok [OF ok3 4 refl, unfolded land]
      have "os' = os4" "r = Inl (DnRename e)"
        using run 2 3 4 r2 Inl by (simp_all add: replace_file_def)
      moreover have "files os4 q = files os q" if "q \<noteq> tmp_of t" for q
        using rm f3 f2 that by (cases r4) auto
      moreover have "files os4 (tmp_of t) \<in> {None, Some (take (length content) content)}"
        using rm f3 f2 by (cases r4) auto
      then have "leftover t content os os4" unfolding leftover_def by blast
      ultimately show ?thesis using rm tne by (auto simp: replaced_def)
    next
      case r3: (Inr u)
      then have "os' = os3" "r = Inr True" using run 2 3 r2 by (simp_all add: replace_file_def)
      then show ?thesis using rn r3 f2 tne by (auto simp: replaced_def)
    qed
  qed
qed

lemma StoreData_replaced:
  assumes dn: "dn_ok dn" and ok: "os_ok os" and run: "StoreData dn args os = (os', r)"
  shows "replaced (target dn (st_Path args)) (st_Content args) os os' r"
proof (cases "resolvePath dn (st_Path args)")
  case (Inl e)
  then show ?thesis using run ok by (auto simp: StoreData_def replaced_def leftover_def)
next
  case (Inr realPath)
  note land = resolvePath_lands [OF dn Inr]
  obtain os1 r1 where 1: "os_MkdirAll (Dir realPath) os = (os1, r1)" by fastforce
  note m = os_MkdirAll_ok [OF ok 1]
  show ?thesis
  proof (cases r1)
    case (Inl e)
    then show ?thesis using run Inr 1 m by (auto simp: StoreData_def replaced_def leftover_def)
  next
    case r1: (Inr u)
    then have "replace_file realPath (st_Content args) os1 = (os', r)"
      using run Inr 1 by (simp add: StoreData_def replace_file_def Let_def)
    moreover have "os_ok os1" "files os1 = files os" using m by simp_all
    moreover have "tmp_of (target dn (st_Path args)) \<noteq> target dn (st_Path args)"
      using tmp_of_neq target_plain [OF dn] by blast
    ultimately show ?thesis
      using replace_file_replaced [OF _ _ land(1,3)] replaced_cong by blast
  qed
qed

lemma GetData_files:
  assumes dn: "dn_ok dn" and ok: "os_ok os" and run: "GetData dn p os = (os', r)"
  shows "os_files os' = os_files os" "r = Inr d \<Longrightarrow> files os (target dn p) = Some d"
proof -
  have "os_files os' = os_files os \<and> (\<forall>d. r = Inr d \<longrightarrow> files os (target dn p) = Some d)"
  proof (cases "resolvePath dn p")
    case (Inr realPath)
    obtain os1 r1 where 1: "os_ReadFile realPath os = (os1, r1)" by fastforce
    then show ?thesis
      using run Inr os_read_files(1) [of realPath os] os_ReadFile_ok [OF ok, of realPath]
      by (auto simp: GetData_def resolvePath_lands(1) [OF dn Inr] split: sum.splits)
  qed (use run in \<open>auto simp: GetData_def\<close>)
  then show "os_files os' = os_files os" "r = Inr d \<Longrightarrow> files os (target dn p) = Some d" by blast+
qed

lemma DeleteData_files:
  assumes dn: "dn_ok dn" and ok: "os_ok os" and run: "DeleteData dn p os = (os', r)"
  shows "os_ok os'" "r = Inl e \<Longrightarrow> os_files os' = os_files os"
    "r = Inr b \<Longrightarrow> b \<and> files os' = (files os)(target dn p := None)"
proof -
  have "os_ok os' \<and> (\<forall>e. r = Inl e \<longrightarrow> os_files os' = os_files os) \<and>
    (\<forall>b. r = Inr b \<longrightarrow> b \<and> files os' = (files os)(target dn p := None))"
  proof (cases "resolvePath dn p")
    case (Inr realPath)
    obtain os1 r1 where 1: "os_Remove realPath os = (os1, r1)" by fastforce
    note rm = os_Remove_ok [OF ok 1 refl, unfolded resolvePath_lands(1) [OF dn Inr]]
    show ?thesis
      using run Inr 1 rm by (cases r1) (auto simp: DeleteData_def fun_upd_idem split: if_splits)
  qed (use run ok in \<open>auto simp: DeleteData_def\<close>)
  then show "os_ok os'" "r = Inl e \<Longrightarrow> os_files os' = os_files os"
    "r = Inr b \<Longrightarrow> b \<and> files os' = (files os)(target dn p := None)" by blast+
qed

lemma Truncate_files:
  assumes dn: "dn_ok dn" and ok: "os_ok os" and run: "Truncate dn args os = (os', r)"
  defines "t \<equiv> target dn (tr_Path args)"
  shows "os_ok os'" "r = Inl e \<Longrightarrow> os_files os' = os_files os"
    "r = Inr b \<Longrightarrow> b \<and> 0 \<le> sint (tr_Size args) \<and>
       (\<exists>d. files os t = Some d \<and> files os' = (files os)(t \<mapsto> resize (nat (sint (tr_Size args))) d))"
proof -
  have "os_ok os' \<and> (\<forall>e. r = Inl e \<longrightarrow> os_files os' = os_files os) \<and>
    (\<forall>b. r = Inr b \<longrightarrow> b \<and> 0 \<le> sint (tr_Size args) \<and>
       (\<exists>d. files os t = Some d \<and> files os' = (files os)(t \<mapsto> resize (nat (sint (tr_Size args))) d)))"
  proof (cases "resolvePath dn (tr_Path args)")
    case (Inr realPath)
    obtain os1 r1 where 1: "os_Truncate realPath (tr_Size args) os = (os1, r1)" by fastforce
    note tr = os_Truncate_ok [OF ok 1 refl, unfolded resolvePath_lands(1) [OF dn Inr], folded t_def]
    show ?thesis
      using run Inr 1 tr by (cases r1) (auto simp: Truncate_def)
  qed (use run ok in \<open>auto simp: Truncate_def\<close>)
  then show "os_ok os'" "r = Inl e \<Longrightarrow> os_files os' = os_files os"
    "r = Inr b \<Longrightarrow> b \<and> 0 \<le> sint (tr_Size args) \<and>
       (\<exists>d. files os t = Some d \<and> files os' = (files os)(t \<mapsto> resize (nat (sint (tr_Size args))) d))"
    by blast+
qed

lemma PartialWrite_files:
  assumes dn: "dn_ok dn" and ok: "os_ok os" and run: "PartialWrite dn args os = (os', r)"
  defines "t \<equiv> target dn (pw_Path args)"
  shows "os_ok os'" "q \<noteq> t \<Longrightarrow> files os' q = files os q"
    "r = Inr b \<Longrightarrow> b \<and> 0 \<le> sint (pw_Offset args) \<and> files os' t =
       Some (write_at (nat (sint (pw_Offset args))) (pw_Data args) (case files os t of None \<Rightarrow> [] | Some d \<Rightarrow> d))"
proof -
  have "os_ok os' \<and> (\<forall>q. q \<noteq> t \<longrightarrow> files os' q = files os q) \<and>
    (\<forall>b. r = Inr b \<longrightarrow> b \<and> 0 \<le> sint (pw_Offset args) \<and> files os' t =
       Some (write_at (nat (sint (pw_Offset args))) (pw_Data args) (case files os t of None \<Rightarrow> [] | Some d \<Rightarrow> d)))"
  proof (cases "resolvePath dn (pw_Path args)")
    case (Inr realPath)
    note land = resolvePath_lands(1) [OF dn Inr, folded t_def]
    obtain os1 r1 where 1: "os_MkdirAll (Dir realPath) os = (os1, r1)" by fastforce
    note m = os_MkdirAll_ok [OF ok 1]
    then have ok1: "os_ok os1" by simp
    obtain os2 r2 where 2: "os_OpenCreate realPath os1 = (os2, r2)" by fastforce
    note c = os_OpenCreate_ok [OF ok1 2 refl, unfolded land]
    then have ok2: "os_ok os2" by simp
    obtain os3 r3 where 3: "os_WriteAt realPath (pw_Data args) (pw_Offset args) os2 = (os3, r3)" by fastforce
    note w = os_WriteAt_ok [OF ok2 3 refl, unfolded land]
    show ?thesis
      using run Inr 1 2 3 m c w
      by (cases r1; cases r2; cases r3) (auto simp: PartialWrite_def split: if_splits)
  qed (use run ok in \<open>auto simp: PartialWrite_def\<close>)
  then show "os_ok os'" "q \<noteq> t \<Longrightarrow> files os' q = files os q"
    "r = Inr b \<Longrightarrow> b \<and> 0 \<le> sint (pw_Offset args) \<and> files os' t =
       Some (write_at (nat (sint (pw_Offset args))) (pw_Data args) (case files os t of None \<Rightarrow> [] | Some d \<Rightarrow> d))"
    by blast+
qed

lemma RangeRead_files:
  assumes dn: "dn_ok dn" and ok: "os_ok os" and run: "RangeRead dn args os = (os', r)"
  defines "t \<equiv> target dn (rr_Path args)"
  shows "os_files os' = os_files os"
    and "r = Inr reply \<Longrightarrow>
      (case files os t of
         None \<Rightarrow> rr_Data reply = []
       | Some d \<Rightarrow> 0 \<le> sint (rr_Offset args) \<and> 0 \<le> sint (rr_Length args) \<and>
           rr_Data reply = take (nat (sint (rr_Length args))) (drop (nat (sint (rr_Offset args))) d) \<and>
           (rr_EOF reply \<longleftrightarrow> int (length (rr_Data reply)) < sint (rr_Length args)))"
proof -
  have "os_files os' = os_files os \<and> (r = Inr reply \<longrightarrow>
      (case files os t of
         None \<Rightarrow> rr_Data reply = []
       | Some d \<Rightarrow> 0 \<le> sint (rr_Offset args) \<and> 0 \<le> sint (rr_Length args) \<and>
           rr_Data reply = take (nat (sint (rr_Length args))) (drop (nat (sint (rr_Offset args))) d) \<and>
           (rr_EOF reply \<longleftrightarrow> int (length (rr_Data reply)) < sint (rr_Length args))))"
  proof (cases "resolvePath dn (rr_Path args)")
    case (Inr realPath)
    note land = resolvePath_lands(1) [OF dn Inr, folded t_def]
    obtain os1 r1 where 1: "os_Open realPath os = (os1, r1)" by fastforce
    then have f1: "os_files os1 = os_files os" using os_read_files(2) [of realPath os] by simp
    have o1: "r1 = Inl EIO \<or> r1 = stat_path (os_files os) t"
      using 1 by (auto simp: os_Open_def land split: prod.splits if_splits) (metis draw_fault_files(1) fst_conv)
    show ?thesis
    proof (cases r1)
      case (Inl e)
      then show ?thesis
        using run Inr 1 f1 o1 stat_path_Inl [OF ok, of t e] by (auto simp: RangeRead_def file_at_def split: if_splits)
    next
      case r1: (Inr n)
      then have "stat_path (os_files os) t = Inr n" using o1 by auto
      then have n: "node (os_files os) t = Some n" by (simp add: stat_path_Inr [OF ok])
      let ?len = "nat (sint (rr_Length args))"
      obtain os2 r2 where 2: "os_ReadAt n ?len (rr_Offset args) os1 = (os2, r2)" by fastforce
      then have f2: "os_files os2 = os_files os" using os_read_files(4) f1 by (metis fst_conv)
      show ?thesis
        using run Inr 1 r1 2 n f1 f2
        by (cases n; cases r2)
           (auto simp: RangeRead_def file_at_def os_ReadAt_def Let_def split: prod.splits if_splits)
    qed
  qed (use run in \<open>auto simp: RangeRead_def\<close>)
  then show "os_files os' = os_files os" "r = Inr reply \<Longrightarrow>
      (case files os t of
         None \<Rightarrow> rr_Data reply = []
       | Some d \<Rightarrow> 0 \<le> sint (rr_Offset args) \<and> 0 \<le> sint (rr_Length args) \<and>
           rr_Data reply = take (nat (sint (rr_Length args))) (drop (nat (sint (rr_Offset args))) d) \<and>
           (rr_EOF reply \<longleftrightarrow> int (length (rr_Data reply)) < sint (rr_Length args)))"
    by blast+
qed

subsection \<open>Nothing outside the data directory\<close>

definition near :: "string list \<Rightarrow> string list \<Rightarrow> bool" where
  "near t q \<longleftrightarrow> prefix q t \<or> q = tmp_of t"

lemma near_facts:
  assumes "dn_ok dn" "resolvePath dn p = Inr realPath" "\<not> near (target dn p) q"
  shows "q \<noteq> os_path realPath" "q \<noteq> os_path (realPath @ ''.tmp'')" "\<not> prefix q (os_path (Dir realPath))"
proof -
  note r = resolvePath_lands [OF assms(1,2)]
  show "q \<noteq> os_path realPath" "q \<noteq> os_path (realPath @ ''.tmp'')" "\<not> prefix q (os_path (Dir realPath))"
    using assms(3) prefix_butlast_strict [of "target dn p" q] target_plain [OF assms(1), of p]
    by (auto simp: r near_def strict_prefix_def)
qed

lemma node_frame:
  assumes "dn_ok dn"
  shows "\<not> near (target dn (st_Path a)) q \<Longrightarrow> node (os_files (fst (StoreData dn a os))) q = node (os_files os) q"
    and "\<not> near (target dn p) q \<Longrightarrow> node (os_files (fst (DeleteData dn p os))) q = node (os_files os) q"
    and "\<not> near (target dn (pw_Path w)) q \<Longrightarrow> node (os_files (fst (PartialWrite dn w os))) q = node (os_files os) q"
    and "\<not> near (target dn (tr_Path t)) q \<Longrightarrow> node (os_files (fst (Truncate dn t os))) q = node (os_files os) q"
  using near_facts [OF assms] os_frame
  by (auto simp: StoreData_def DeleteData_def PartialWrite_def Truncate_def Let_def
      split: sum.split prod.split) (metis fst_conv)+

subsection \<open>Listing\<close>

text \<open>No name on the disk is empty, contains a slash, or is a dot name.\<close>

definition names_ok :: "disk \<Rightarrow> bool" where
  "names_ok fs \<longleftrightarrow> (\<forall>q. node fs q \<noteq> None \<longrightarrow> list_all plain_name q)"

definition node_ok :: "DataNode \<Rightarrow> os_state \<Rightarrow> bool" where
  "node_ok dn os \<longleftrightarrow> dn_ok dn \<and> os_ok os \<and> names_ok (os_files os)"

lemma near_plain: "dn_ok dn \<Longrightarrow> near (target dn p) q \<Longrightarrow> list_all plain_name q"
proof -
  assume dn: "dn_ok dn" and n: "near (target dn p) q"
  note t = target_plain [OF dn, of p]
  obtain xs m where xs: "target dn p = xs @ [m]" using t by (metis snoc_cases)
  have p: "list_all plain_name q" if "prefix q (target dn p)"
    using that t by (auto elim!: prefixE)
  have "list_all plain_name (tmp_of (target dn p))"
    using t plain_tmp [of m] by (simp add: xs tmp_of_def)
  with p n show ?thesis unfolding near_def by blast
qed

lemma names_ok_frame:
  assumes "dn_ok dn" "names_ok fs" "\<And>q. \<not> near (target dn p) q \<Longrightarrow> node fs' q = node fs q"
  shows "names_ok fs'"
  using assms(2,3) near_plain [OF assms(1), of p] unfolding names_ok_def by metis

lemma HasSuffix_last: "slash \<notin> set suf \<Longrightarrow> HasSuffix (pre @ slash # n) suf = HasSuffix n suf"
  by (auto simp: HasSuffix_iff append_eq_append_conv2 Cons_eq_append_conv)

lemma join_path_intercalate: "rest \<noteq> [] \<Longrightarrow> slash # intercalate ''/'' rest = join_path rest"
  by (induction "''/''" rest rule: intercalate.induct) (auto simp: join_path_def)

lemma virtual_join_path: "list_all plain_name rest \<Longrightarrow> virtual (join_path rest) = rest"
  by (simp add: virtual_def components_join_path clean_fold_plain list_all_iff valid_name_plain)

lemma walk_path_suffix:
  assumes dn: "dn_ok dn" and rest: "rest \<noteq> []" "list_all plain_name rest"
  shows "HasSuffix (walk_path (dataDir dn) (components (dataDir dn) @ rest)) ''.tmp'' \<longleftrightarrow> HasSuffix (last rest) ''.tmp''"
proof -
  have os: "os_path (dataDir dn) = components (dataDir dn)"
    using dn by (simp add: os_path_plain dn_ok_def)
  obtain xs n where xs: "components (dataDir dn) @ rest = xs @ [n]" "n = last rest"
    using rest(1) by (metis append_butlast_last_id append_assoc)
  let ?s = "dataDir dn @ slash # intercalate ''/'' rest"
  have "components ?s = xs @ [n]"
    using rest xs by (simp add: components_append_slash components_intercalate list_all_iff valid_name_plain)
  moreover have "list_all plain_name (xs @ [n])" using dn rest xs(1) by (metis dn_ok_def list_all_append)
  moreover have "HasPrefix ?s ''/''" using dn by (auto simp: dn_ok_def HasPrefix_iff)
  ultimately obtain pre where "Clean ?s = pre @ slash # n" using Clean_rooted_snoc by metis
  moreover have "walk_path (dataDir dn) (components (dataDir dn) @ rest) = Clean ?s"
    using dn by (auto simp: walk_path_def os Join_def dn_ok_def)
  ultimately show ?thesis using HasSuffix_last [of "''.tmp''" pre n] xs(2) by simp
qed

lemma ListAllPaths_files:
  assumes ok: "node_ok dn os" and run: "ListAllPaths dn os = (os', r)"
    and base: "node (os_files os) (components (dataDir dn)) = Some DirNode"
  shows "os_files os' = os_files os"
    and "r = Inr nfs \<Longrightarrow> nf \<in> set nfs \<longleftrightarrow> (\<exists>rest d t. rest \<noteq> [] \<and> list_all plain_name rest \<and>
      node (os_files os) (components (dataDir dn) @ rest) = Some (FileNode d t) \<and>
      \<not> HasSuffix (last rest) ''.tmp'' \<and> nf = \<lparr>nf_Path = join_path rest, nf_ModTime = t\<rparr>)"
proof -
  let ?base = "components (dataDir dn)" and ?fs = "os_files os"
  have dn: "dn_ok dn" and names: "names_ok ?fs" and okf: "os_ok os" using ok by (simp_all add: node_ok_def)
  have op: "os_path (dataDir dn) = ?base" using dn by (simp add: os_path_plain dn_ok_def)
  obtain os1 r1 where 1: "os_Walk (dataDir dn) os = (os1, r1)" by fastforce
  then have f1: "os_files os1 = ?fs" using os_read_files(5) by (metis fst_conv)
  then show "os_files os' = ?fs" using run 1 by (auto simp: ListAllPaths_def split: sum.splits)
  assume "r = Inr nfs"
  then obtain xs where xs: "r1 = Inr xs" "nfs = List.map_filter (walk_fn (dataDir dn)) xs"
    using run 1 by (auto simp: ListAllPaths_def split: sum.splits)
  have "xs = sort_key fst (filter (\<lambda>(q, i). prefix ?base q) ?fs)"
    using 1 xs(1) draw_fault_files(1) [of os]
    by (cases "draw_fault os") (auto simp: os_Walk_def op Let_def split: if_splits sum.splits)
  moreover have "(q, i) \<in> set ?fs \<longleftrightarrow> q \<noteq> [] \<and> node ?fs q = Some i" for q i
    using okf by (auto simp: disk_ok_def node_def map_of_eq_Some_iff)
  ultimately have mem: "(q, i) \<in> set xs \<longleftrightarrow> prefix ?base q \<and> q \<noteq> [] \<and> node ?fs q = Some i" for q i
    by auto
  have "nf \<in> set nfs \<longleftrightarrow> (\<exists>q i. prefix ?base q \<and> q \<noteq> [] \<and> node ?fs q = Some i \<and> walk_fn (dataDir dn) (q, i) = Some nf)"
    unfolding xs(2) using mem by (auto simp: List.map_filter_def image_iff)
  also have "\<dots> \<longleftrightarrow> (\<exists>rest d t. rest \<noteq> [] \<and> list_all plain_name rest \<and> node ?fs (?base @ rest) = Some (FileNode d t) \<and>
      \<not> HasSuffix (last rest) ''.tmp'' \<and> nf = \<lparr>nf_Path = join_path rest, nf_ModTime = t\<rparr>)"
  proof -
    have "walk_fn (dataDir dn) (?base @ rest, FileNode d t) =
        (if HasSuffix (last rest) ''.tmp'' then None else Some \<lparr>nf_Path = join_path rest, nf_ModTime = t\<rparr>)"
      if "rest \<noteq> []" "list_all plain_name rest" for rest d t
      using walk_path_suffix [OF dn that] join_path_intercalate [OF that(1)] that(1)
      by (simp add: walk_fn_def Rel_def op)
    moreover have "rest \<noteq> [] \<and> list_all plain_name rest"
      if "node ?fs (?base @ rest) = Some (FileNode d t)" for rest d t
    proof -
      have "list_all plain_name (?base @ rest)"
        using names that by (metis names_ok_def option.distinct(1))
      then show ?thesis using that base by auto
    qed
    ultimately have fn: "walk_fn (dataDir dn) (?base @ rest, i) = Some nf \<longleftrightarrow>
        (\<exists>d t. i = FileNode d t \<and> rest \<noteq> [] \<and> list_all plain_name rest \<and> \<not> HasSuffix (last rest) ''.tmp'' \<and>
          nf = \<lparr>nf_Path = join_path rest, nf_ModTime = t\<rparr>)" if "node ?fs (?base @ rest) = Some i" for rest i
      using that by (cases i) (auto simp: walk_fn_def)
    have "(\<exists>q i. prefix ?base q \<and> q \<noteq> [] \<and> node ?fs q = Some i \<and> walk_fn (dataDir dn) (q, i) = Some nf) \<longleftrightarrow>
        (\<exists>rest i. node ?fs (?base @ rest) = Some i \<and> walk_fn (dataDir dn) (?base @ rest, i) = Some nf)"
      using dn by (auto simp: prefix_def dn_ok_def)
    also have "\<dots> \<longleftrightarrow> (\<exists>rest d t. rest \<noteq> [] \<and> list_all plain_name rest \<and>
        node ?fs (?base @ rest) = Some (FileNode d t) \<and>
        \<not> HasSuffix (last rest) ''.tmp'' \<and> nf = \<lparr>nf_Path = join_path rest, nf_ModTime = t\<rparr>)"
      using fn by blast
    finally show ?thesis .
  qed
  finally show "nf \<in> set nfs \<longleftrightarrow> (\<exists>rest d t. rest \<noteq> [] \<and> list_all plain_name rest \<and>
      node (os_files os) (components (dataDir dn) @ rest) = Some (FileNode d t) \<and>
      \<not> HasSuffix (last rest) ''.tmp'' \<and> nf = \<lparr>nf_Path = join_path rest, nf_ModTime = t\<rparr>)" .
qed

end
