(* ===== verification/Node_Healthy.thy ===== *)
theory Node_Healthy
  imports Data_Node
begin

section \<open>Data nodes on healthy disks\<close>

text \<open>
  When the disk injects no fault, each method of the data node succeeds unless the directory
  structure forbids it: a file where a directory is needed, or a directory where a file is.
  The lemmas here compute the results of the calls; together with the lemmas on the effect of
  successful runs in \<open>Data_Node\<close> they give total correctness.
\<close>

abbreviation healthy :: "os_state \<Rightarrow> bool" where
  "healthy os \<equiv> os_faults os = []"

lemma draw_healthy [simp]: "healthy os \<Longrightarrow> draw_fault os = (os, NoFault)"
  by (simp add: draw_fault_def)

lemma mkdir_all_succeeds:
  "(\<And>q. prefix q (at @ cs) \<Longrightarrow> file_at fs q = None) \<Longrightarrow> snd (mkdir_all fs at cs) = None"
proof (induction fs at cs rule: mkdir_all.induct)
  case (2 fs at c cs)
  have q: "file_at fs (at @ [c]) = None" by (rule "2.prems") (simp add: prefix_def)
  show ?case
  proof (cases "node fs (at @ [c])")
    case None
    have "file_at (map_put (at @ [c]) DirNode fs) = file_at fs"
      using None by (intro file_at_put_dir) simp_all
    then show ?thesis using "2.IH"(1) [OF None] "2.prems" None by simp
  next
    case (Some n)
    then show ?thesis using "2.IH"(2) [OF Some] "2.prems" q by (cases n) (simp_all add: file_at_def)
  qed
qed simp

lemma os_MkdirAll_healthy:
  assumes "healthy os" "\<And>q. prefix q (os_path path) \<Longrightarrow> files os q = None"
  shows "\<exists>os'. os_MkdirAll path os = (os', Inr ()) \<and> healthy os' \<and> os_now os' = os_now os"
  using assms(1) mkdir_all_succeeds [of "[]" "os_path path" "os_files os"] assms(2)
  by (cases "mkdir_all (os_files os) [] (os_path path)") (auto simp: os_MkdirAll_def Let_def)

lemma stat_node: "disk_ok fs \<Longrightarrow> node fs ps = Some n \<Longrightarrow> stat_path fs ps = Inr n"
  by (simp add: stat_path_Inr)

lemma stat_file: "disk_ok fs \<Longrightarrow> file_at fs ps = Some d \<Longrightarrow> \<exists>t. stat_path fs ps = Inr (FileNode d t)"
  by (auto simp: file_at_Some dest: stat_node)

lemma check_create_free:
  "disk_ok fs \<Longrightarrow> ps \<noteq> [] \<Longrightarrow> node fs (butlast ps) = Some DirNode \<Longrightarrow> node fs ps \<noteq> Some DirNode \<Longrightarrow>
   check_create fs ps = None"
  by (simp add: check_create_None)

lemma os_WriteFile_healthy:
  assumes "os_ok os" "healthy os" "os_path path \<noteq> []"
    "node (os_files os) (butlast (os_path path)) = Some DirNode" "node (os_files os) (os_path path) \<noteq> Some DirNode"
  shows "os_WriteFile path c os =
    (set_files (map_put (os_path path) (FileNode c (os_now os)) (os_files os)) os, Inr ())"
  using assms check_create_free [OF assms(1,3,4,5)] by (simp add: os_WriteFile_def Let_def)

lemma os_Rename_healthy:
  assumes "os_ok os" "healthy os" "node (os_files os) (os_path path) = Some (FileNode d t)"
    "os_path new \<noteq> []" "node (os_files os) (butlast (os_path new)) = Some DirNode"
    "node (os_files os) (os_path new) \<noteq> Some DirNode"
  shows "os_Rename path new os =
    (set_files (map_put (os_path new) (FileNode d t) (map_del (os_path path) (os_files os))) os, Inr ())"
  using assms check_create_free [OF assms(1,4,5,6)] stat_node [OF assms(1,3)] by (simp add: os_Rename_def Let_def)

lemma os_OpenCreate_healthy:
  assumes "os_ok os" "healthy os" "os_path path \<noteq> []"
    "node (os_files os) (butlast (os_path path)) = Some DirNode" "node (os_files os) (os_path path) \<noteq> Some DirNode"
  shows "\<exists>os'. os_OpenCreate path os = (os', Inr ()) \<and> healthy os'"
proof -
  have "check_create (os_files os) (os_path path) = None" using assms check_create_None by blast
  then show ?thesis
    using assms(2) by (cases "node (os_files os) (os_path path)") (auto simp: os_OpenCreate_def Let_def)
qed

lemma os_WriteAt_healthy:
  assumes "healthy os" "0 \<le> sint offset" "nat (sint offset) + length bs < 2 ^ 63"
  shows "\<exists>os'. os_WriteAt path bs offset os = (os', Inr (length bs)) \<and> healthy os'"
proof -
  have "\<not> sint offset + int (length bs) \<ge> 2 ^ 63" using assms(2,3) by (auto; linarith)
  then show ?thesis using assms(1,2) by (auto simp: os_WriteAt_def Let_def split: option.split inode.split)
qed

subsection \<open>Free targets\<close>

text \<open>
  A target is free when nothing blocks a file there: no file above it, and no directory at it
  or at the name of its temporary file.
\<close>

definition free_target :: "os_state \<Rightarrow> string list \<Rightarrow> bool" where
  "free_target os t \<longleftrightarrow> (\<forall>q. strict_prefix q t \<longrightarrow> files os q = None) \<and>
     node (os_files os) t \<noteq> Some DirNode \<and> node (os_files os) (tmp_of t) \<noteq> Some DirNode"

lemma tmp_of_simps: "tmp_of ps \<noteq> []" "butlast (tmp_of ps) = butlast ps"
  by (simp_all add: tmp_of_def)

lemma parent_made:
  assumes dn: "dn_ok dn" and ok: "os_ok os" and h: "healthy os"
    and r: "resolvePath dn p = Inr realPath" and free: "free_target os (target dn p)"
  obtains os1 where "os_MkdirAll (Dir realPath) os = (os1, Inr ())" "healthy os1" "os_ok os1"
    "files os1 = files os" "node (os_files os1) (butlast (target dn p)) = Some DirNode"
    "node (os_files os1) (target dn p) \<noteq> Some DirNode" "node (os_files os1) (tmp_of (target dn p)) \<noteq> Some DirNode"
proof -
  let ?t = "target dn p"
  have tne: "?t \<noteq> []" using target_plain [OF dn] by blast
  note land = resolvePath_lands [OF dn r]
  have up: "files os q = None" if "prefix q (butlast ?t)" for q
    using that free prefix_butlast_strict [OF tne] by (simp add: free_target_def)
  obtain os1 where 1: "os_MkdirAll (Dir realPath) os = (os1, Inr ())" "healthy os1"
    using os_MkdirAll_healthy [OF h, of "Dir realPath"] up land(2) by auto
  note m = os_MkdirAll_ok [OF ok 1(1), unfolded land(2)]
  have np: "\<not> prefix ?t (butlast ?t)" using prefix_butlast_strict [OF tne] by simp
  have "\<not> prefix (tmp_of ?t) (butlast ?t)" using prefix_length_le by (force simp: tmp_of_def)
  with np have "node (os_files os1) ?t = node (os_files os) ?t"
    "node (os_files os1) (tmp_of ?t) = node (os_files os) (tmp_of ?t)"
    using os_frame(1) [of _ "Dir realPath" os] land(2) 1(1) by auto
  then show ?thesis using that [OF 1] m free by (simp add: free_target_def)
qed

lemma StoreData_healthy:
  assumes dn: "dn_ok dn" and ok: "os_ok os" and h: "healthy os"
    and r: "resolvePath dn (st_Path args) = Inr realPath" and free: "free_target os (target dn (st_Path args))"
  shows "\<exists>os'. StoreData dn args os = (os', Inr True) \<and> healthy os'"
proof -
  let ?t = "target dn (st_Path args)"
  have tne: "?t \<noteq> []" using target_plain [OF dn] by blast
  note land = resolvePath_lands [OF dn r]
  obtain os1 where 1: "os_MkdirAll (Dir realPath) os = (os1, Inr ())" "healthy os1" "os_ok os1"
    "node (os_files os1) (butlast ?t) = Some DirNode" "node (os_files os1) ?t \<noteq> Some DirNode"
    "node (os_files os1) (tmp_of ?t) \<noteq> Some DirNode"
    by (rule parent_made [OF dn ok h r free])
  let ?fn = "FileNode (st_Content args) (os_now os1)"
  let ?os2 = "set_files (map_put (tmp_of ?t) ?fn (os_files os1)) os1"
  have 2: "os_WriteFile (realPath @ ''.tmp'') (st_Content args) os1 = (?os2, Inr ())"
    using os_WriteFile_healthy [OF 1(3,2), of "realPath @ ''.tmp''"] 1(4,6) tmp_of_simps [of ?t] land(3) by simp
  have ok2: "os_ok ?os2" using os_WriteFile_ok [OF 1(3) 2 refl] by blast
  have neq: "butlast ?t \<noteq> tmp_of ?t" "?t \<noteq> tmp_of ?t"
    using tne tmp_of_neq [OF tne] by (auto simp: tmp_of_def)
  have 3: "os_Rename (realPath @ ''.tmp'') realPath ?os2 =
      (set_files (map_put ?t ?fn (map_del (tmp_of ?t) (os_files ?os2))) ?os2, Inr ())"
    using os_Rename_healthy [OF ok2, of "realPath @ ''.tmp''"] 1(2,4,5) tmp_of_simps [of ?t] land tne neq
    by (simp add: node_put)
  show ?thesis using r 1(1,2) 2 3 by (simp add: StoreData_def Let_def)
qed

lemma GetData_healthy:
  assumes dn: "dn_ok dn" and ok: "os_ok os" and h: "healthy os"
    and r: "resolvePath dn p = Inr realPath" and f: "files os (target dn p) = Some d"
  shows "GetData dn p os = (os, Inr d)"
  using r h stat_file [OF ok f] resolvePath_lands(1) [OF dn r]
  by (auto simp: GetData_def os_ReadFile_def Let_def)

lemma GetData_missing:
  assumes dn: "dn_ok dn" and ok: "os_ok os" and h: "healthy os"
    and f: "files os (target dn p) = None"
  shows "\<exists>e. GetData dn p os = (os, Inl e)"
proof (cases "resolvePath dn p")
  case (Inr realPath)
  obtain os' r where run: "GetData dn p os = (os', r)" by fastforce
  have "os' = os" using run Inr h by (auto simp: GetData_def os_ReadFile_def Let_def split: sum.splits)
  moreover have "r \<noteq> Inr d" for d using GetData_files(2) [OF dn ok run, of d] f by auto
  ultimately show ?thesis using run by (cases r) auto
qed (simp add: GetData_def)

lemma PartialWrite_healthy:
  assumes dn: "dn_ok dn" and ok: "os_ok os" and h: "healthy os"
    and r: "resolvePath dn (pw_Path args) = Inr realPath" and free: "free_target os (target dn (pw_Path args))"
    and off: "0 \<le> sint (pw_Offset args)" "nat (sint (pw_Offset args)) + length (pw_Data args) < 2 ^ 63"
  shows "\<exists>os'. PartialWrite dn args os = (os', Inr True) \<and> healthy os'"
proof -
  let ?t = "target dn (pw_Path args)"
  have tne: "?t \<noteq> []" using target_plain [OF dn] by blast
  note land = resolvePath_lands [OF dn r]
  obtain os1 where 1: "os_MkdirAll (Dir realPath) os = (os1, Inr ())" "healthy os1" "os_ok os1"
    "node (os_files os1) (butlast ?t) = Some DirNode" "node (os_files os1) ?t \<noteq> Some DirNode"
    by (rule parent_made [OF dn ok h r free])
  obtain os2 where 2: "os_OpenCreate realPath os1 = (os2, Inr ())" "healthy os2"
    using os_OpenCreate_healthy [OF 1(3,2), of realPath] 1(4,5) tne land(1) by auto
  obtain os3 where 3: "os_WriteAt realPath (pw_Data args) (pw_Offset args) os2 = (os3, Inr (length (pw_Data args)))" "healthy os3"
    using os_WriteAt_healthy [OF 2(2) off] by blast
  show ?thesis using r 1(1) 2 3 by (simp add: PartialWrite_def)
qed

lemma RangeRead_healthy:
  assumes dn: "dn_ok dn" and ok: "os_ok os" and h: "healthy os"
    and r: "resolvePath dn (rr_Path args) = Inr realPath"
    and f: "files os (target dn (rr_Path args)) = Some d"
    and nn: "0 \<le> sint (rr_Offset args)" "0 \<le> sint (rr_Length args)"
  shows "RangeRead dn args os = (os, Inr
    \<lparr>rr_Data = take (nat (sint (rr_Length args))) (drop (nat (sint (rr_Offset args))) d),
     rr_EOF = (int (length (take (nat (sint (rr_Length args))) (drop (nat (sint (rr_Offset args))) d))) < sint (rr_Length args))\<rparr>)"
  using r h nn stat_file [OF ok f] resolvePath_lands(1) [OF dn r]
  by (auto simp: RangeRead_def os_Open_def os_ReadAt_def Let_def)

text \<open>Nothing at the target, and directories above it, reads as an empty file.\<close>

lemma find_node_missing:
  "(\<And>q. prefix q (at @ cs) \<Longrightarrow> file_at fs q = None) \<Longrightarrow> node fs (at @ cs) = None \<Longrightarrow> find_node fs at cs = Inl ENOENT"
proof (induction fs at cs rule: find_node.induct)
  case (2 fs at c cs)
  have "file_at fs at = None" by (rule "2.prems"(1)) (simp add: prefix_def)
  then show ?case
    using 2 by (cases "node fs at") (simp_all add: file_at_def split: inode.split_asm inode.split)
qed simp

lemma free_missing:
  assumes "free_target os t" "files os t = None"
  shows "stat_path (os_files os) t = Inl ENOENT"
proof -
  have "node (os_files os) t = None"
    using assms by (auto simp: free_target_def file_at_def split: option.splits inode.splits)
  then show ?thesis
    using find_node_missing [of "[]" t "os_files os"] assms
    by (auto simp: stat_path_def free_target_def strict_prefix_def)
qed

lemma RangeRead_missing:
  assumes dn: "dn_ok dn" and h: "healthy os" and r: "resolvePath dn (rr_Path args) = Inr realPath"
    and f: "free_target os (target dn (rr_Path args))" "files os (target dn (rr_Path args)) = None"
  shows "RangeRead dn args os = (os, Inr \<lparr>rr_Data = [], rr_EOF = True\<rparr>)"
  using r h free_missing [OF f] resolvePath_lands(1) [OF dn r]
  by (simp add: RangeRead_def os_Open_def Let_def)

lemma DeleteData_healthy:
  assumes dn: "dn_ok dn" and ok: "os_ok os" and h: "healthy os"
    and r: "resolvePath dn p = Inr realPath" and f: "free_target os (target dn p)"
  shows "\<exists>os'. DeleteData dn p os = (os', Inr True) \<and> healthy os'"
proof (cases "files os (target dn p)")
  case None
  then show ?thesis
    using r h free_missing [OF f] resolvePath_lands(1) [OF dn r] by (simp add: DeleteData_def os_Remove_def Let_def)
next
  case (Some d)
  then show ?thesis
    using r h stat_file [OF ok Some] resolvePath_lands(1) [OF dn r]
    by (auto simp: DeleteData_def os_Remove_def Let_def)
qed

lemma Truncate_healthy:
  assumes dn: "dn_ok dn" and ok: "os_ok os" and h: "healthy os"
    and r: "resolvePath dn (tr_Path args) = Inr realPath"
    and f: "files os (target dn (tr_Path args)) = Some d" and nn: "0 \<le> sint (tr_Size args)"
  shows "\<exists>os'. Truncate dn args os = (os', Inr True) \<and> healthy os'"
  using r h nn stat_file [OF ok f] resolvePath_lands(1) [OF dn r]
  by (auto simp: Truncate_def os_Truncate_def Let_def)

subsection \<open>Bytes written and bytes read\<close>

lemma length_resize [simp]: "length (resize n d) = n"
  by (simp add: resize_def)

lemma nth_resize: "i < n \<Longrightarrow> resize n d ! i = (if i < length d then d ! i else 0)"
  by (auto simp: resize_def nth_append)

lemma read_back: "take (length bs) (drop off (write_at off bs d)) = bs"
  by (simp add: write_at_def)

lemma length_write_at: "bs \<noteq> [] \<Longrightarrow> length (write_at off bs d) = max (length d) (off + length bs)"
  by (auto simp: write_at_def)

lemma nth_write_at:
  assumes "bs \<noteq> []" "i < max (length d) (off + length bs)"
  shows "write_at off bs d ! i =
    (if off \<le> i \<and> i < off + length bs then bs ! (i - off) else if i < length d then d ! i else 0)"
  using assms by (auto simp: write_at_def nth_append nth_resize)

lemma sint_word_of_int_small: "0 \<le> i \<Longrightarrow> i < 2 ^ 63 \<Longrightarrow> sint (word_of_int i :: int64) = i"
  by (simp add: sint_sbintrunc' signed_take_bit_int_eq_self)

lemma sint_length: "length bs < 2 ^ 63 \<Longrightarrow> sint (word_of_nat (length bs) :: int64) = int (length bs)"
  using sint_word_of_int_small [of "int (length bs)"] by simp

lemma sint_eq_0: "sint (w :: int64) = 0 \<longleftrightarrow> w = 0"
proof
  assume "sint w = 0"
  from arg_cong [OF this, of "of_int :: int \<Rightarrow> int64"] show "w = 0" by simp
qed simp

lemma DeleteData_free:
  assumes dn: "dn_ok dn" and run: "DeleteData dn p os = (os', r)" and free: "free_target os (target dn p)"
    and f: "files os' = (files os)(target dn p := None)"
  shows "free_target os' (target dn p)"
proof -
  have tne: "tmp_of (target dn p) \<noteq> target dn p" using target_plain [OF dn] tmp_of_neq by blast
  have "os_files os' = os_files os \<or> os_files os' = map_del (target dn p) (os_files os)"
  proof (cases "resolvePath dn p")
    case (Inr realPath)
    obtain os1 x where d: "draw_fault os = (os1, x)" "os_files os1 = os_files os"
      by (rule draw_fault_cases [of os])
    then show ?thesis
      using run Inr resolvePath_lands(1) [OF dn Inr]
      by (auto simp: DeleteData_def os_Remove_def Let_def split: prod.splits sum.splits if_splits inode.splits)
  qed (use run in \<open>auto simp: DeleteData_def\<close>)
  moreover have "target dn p \<noteq> []" using target_plain [OF dn] by blast
  ultimately show ?thesis
    using free f tne by (auto simp: free_target_def node_del)
qed

end
