(* ===== verification/Data_Cluster.thy ===== *)
theory Data_Cluster
  imports Node_Healthy
begin

section \<open>The data nodes behind the network\<close>

text \<open>
  Both the metadata server (\<open>internal/metadata/gc.go\<close>) and the clients
  (\<open>internal/client/client.go\<close>) reach data nodes through \<open>rpc.Dial\<close> and \<open>client.Call\<close>. A
  cluster has at most one data node at an address, each with its own disk, and for each address
  a script of what the network does to the next dials and calls; an empty script is a working
  network. A lost request has no effect, a lost reply hides an effect that took place: the
  caller sees an error in both cases, with a text that only the network knows. A node whose
  handler panics is gone.

  What is known of a call is in three lemmas: it touches no other address, it does to the disk
  what the method does or nothing, and on a working network it returns what the method returns.
\<close>

datatype net_fault = NetOk | DialFail string | RequestLost string | ReplyLost string

record cluster =
  cl_nodes :: "string \<Rightarrow> (DataNode \<times> os_state) option"
  cl_net :: "string \<Rightarrow> net_fault list"

datatype call_error = NoConnection string | NodeError dn_error

type_synonym 'a call_result = "cluster \<times> (call_error + 'a)"

definition draw_net :: "string \<Rightarrow> (string \<Rightarrow> net_fault list) \<Rightarrow> (string \<Rightarrow> net_fault list) \<times> net_fault" where
  "draw_net addr net = (case net addr of [] \<Rightarrow> (net, NetOk) | f # fs \<Rightarrow> (net(addr := fs), f))"

definition refused :: "string \<Rightarrow> string" where
  "refused addr = ''dial tcp '' @ addr @ '': connect: connection refused''"

fun fault_text :: "net_fault \<Rightarrow> string option" where
  "fault_text NetOk = None"
| "fault_text (DialFail e) = Some e"
| "fault_text (RequestLost e) = Some e"
| "fault_text (ReplyLost e) = Some e"

text \<open>\<open>rpc.Dial\<close>: the error text, if there is no connection.\<close>

definition dial_node :: "string \<Rightarrow> cluster \<Rightarrow> cluster \<times> string option" where
  "dial_node addr cl =
     (let (net, f) = draw_net addr (cl_net cl); cl' = cl\<lparr>cl_net := net\<rparr> in
      if cl_nodes cl addr = None then (cl', Some (refused addr)) else (cl', fault_text f))"

definition call_node :: "string \<Rightarrow> (DataNode \<Rightarrow> os_state \<Rightarrow> 'a dn_result) \<Rightarrow> cluster \<Rightarrow> 'a call_result" where
  "call_node addr f cl =
     (let (net, flt) = draw_net addr (cl_net cl); cl' = cl\<lparr>cl_net := net\<rparr> in
      case cl_nodes cl addr of
        None \<Rightarrow> (cl', Inl (NoConnection ''connection is shut down''))
      | Some (dn, os) \<Rightarrow>
          (case flt of
             DialFail e \<Rightarrow> (cl', Inl (NoConnection e))
           | RequestLost e \<Rightarrow> (cl', Inl (NoConnection e))
           | _ \<Rightarrow>
               (case f dn os of
                  (os', r) \<Rightarrow>
                    if r = Inl DnPanic
                    then (cl'\<lparr>cl_nodes := (cl_nodes cl)(addr := None)\<rparr>, Inl (NoConnection ''unexpected EOF''))
                    else (cl'\<lparr>cl_nodes := (cl_nodes cl)(addr \<mapsto> (dn, os'))\<rparr>,
                          case fault_text flt of
                            Some e \<Rightarrow> Inl (NoConnection e)
                          | None \<Rightarrow> (case r of Inl e \<Rightarrow> Inl (NodeError e) | Inr x \<Rightarrow> Inr x)))))"

text \<open>One dial and one call on the new connection.\<close>

definition dial_call :: "string \<Rightarrow> (DataNode \<Rightarrow> os_state \<Rightarrow> 'a dn_result) \<Rightarrow> cluster \<Rightarrow> 'a call_result" where
  "dial_call addr f cl =
     (case dial_node addr cl of
        (cl, Some e) \<Rightarrow> (cl, Inl (NoConnection e))
      | (cl, None) \<Rightarrow> call_node addr f cl)"

subsection \<open>What a call does\<close>

lemma draw_net_other [simp]: "draw_net a net = (net', f) \<Longrightarrow> b \<noteq> a \<Longrightarrow> net' b = net b"
  by (auto simp: draw_net_def split: list.splits)

lemma dial_node_nodes: "dial_node addr cl = (cl', r) \<Longrightarrow> cl_nodes cl' = cl_nodes cl"
  by (auto simp: dial_node_def Let_def split: prod.splits if_splits)

text \<open>No call touches another address.\<close>

lemma call_node_other: "call_node addr f cl = (cl', r) \<Longrightarrow> a \<noteq> addr \<Longrightarrow> cl_nodes cl' a = cl_nodes cl a"
  by (auto simp: call_node_def Let_def split: prod.splits option.splits net_fault.splits if_splits)

lemma dial_call_other: "dial_call addr f cl = (cl', r) \<Longrightarrow> a \<noteq> addr \<Longrightarrow> cl_nodes cl' a = cl_nodes cl a"
  by (auto simp: dial_call_def dial_node_nodes dest: call_node_other split: prod.splits option.splits)

lemma call_node_frame:
  "a \<noteq> addr \<Longrightarrow> cl_nodes (fst (call_node addr f cl)) a = cl_nodes cl a \<and> cl_net (fst (call_node addr f cl)) a = cl_net cl a"
  by (auto simp: call_node_def Let_def split: prod.split option.split net_fault.split)

lemma dial_node_frame:
  "a \<noteq> addr \<Longrightarrow> cl_nodes (fst (dial_node addr cl)) a = cl_nodes cl a \<and> cl_net (fst (dial_node addr cl)) a = cl_net cl a"
  by (auto simp: dial_node_def Let_def split: prod.split)

text \<open>
  The node at the address is as before, gone after a panic, or has run the method; a returned
  value is the one the method returned.
\<close>

lemma call_node_effect:
  assumes "call_node addr f cl = (cl', r)" "cl_nodes cl addr = Some (dn, os)"
  shows "(cl_nodes cl' = cl_nodes cl \<and> (\<forall>x. r \<noteq> Inr x)) \<or>
    (snd (f dn os) = Inl DnPanic \<and> cl_nodes cl' = (cl_nodes cl)(addr := None) \<and> (\<forall>x. r \<noteq> Inr x)) \<or>
    (cl_nodes cl' = (cl_nodes cl)(addr \<mapsto> (dn, fst (f dn os))) \<and> (\<forall>x. r = Inr x \<longrightarrow> snd (f dn os) = Inr x))"
  using assms
  by (auto simp: call_node_def Let_def split: prod.splits net_fault.splits if_splits sum.splits)

lemma call_node_None: "call_node addr f cl = (cl', r) \<Longrightarrow> cl_nodes cl addr = None \<Longrightarrow>
   cl_nodes cl' = cl_nodes cl \<and> (\<forall>x. r \<noteq> Inr x)"
  by (auto simp: call_node_def Let_def split: prod.splits)

lemma dial_call_cases:
  assumes "dial_call addr f cl = (cl', r)"
  obtains (lost) "cl_nodes cl' = cl_nodes cl" "\<And>x. r \<noteq> Inr x"
  | (panic) dn os where "cl_nodes cl addr = Some (dn, os)" "snd (f dn os) = Inl DnPanic"
      "cl_nodes cl' = (cl_nodes cl)(addr := None)" "\<And>x. r \<noteq> Inr x"
  | (ran) dn os where "cl_nodes cl addr = Some (dn, os)"
      "cl_nodes cl' = (cl_nodes cl)(addr \<mapsto> (dn, fst (f dn os)))" "\<And>x. r = Inr x \<Longrightarrow> snd (f dn os) = Inr x"
proof -
  obtain cl1 d where d: "dial_node addr cl = (cl1, d)" by fastforce
  note n = dial_node_nodes [OF d]
  show ?thesis
  proof (cases d)
    case (Some e)
    then show ?thesis using assms d n by (intro lost) (auto simp: dial_call_def)
  next
    case None
    then have c: "call_node addr f cl1 = (cl', r)" using assms d by (simp add: dial_call_def)
    show ?thesis
    proof (cases "cl_nodes cl1 addr")
      case None
      then show ?thesis using call_node_None [OF c] n by (intro lost) auto
    next
      case (Some p)
      obtain dn os where p: "p = (dn, os)" by fastforce
      from call_node_effect [OF c Some [unfolded p]] Some p n show ?thesis
        by (elim disjE) (auto intro: lost panic ran)
    qed
  qed
qed

text \<open>On a working network a call returns what the method returns.\<close>

definition reaches :: "cluster \<Rightarrow> string \<Rightarrow> bool" where
  "reaches cl addr \<longleftrightarrow> cl_nodes cl addr \<noteq> None \<and> cl_net cl addr = []"

lemma dial_working: "reaches cl addr \<Longrightarrow> dial_node addr cl = (cl, None)"
  by (auto simp: dial_node_def draw_net_def reaches_def)

lemma call_working:
  assumes "reaches cl addr" "cl_nodes cl addr = Some (dn, os)" "f dn os = (os', r)" "r \<noteq> Inl DnPanic"
  shows "call_node addr f cl = (cl\<lparr>cl_nodes := (cl_nodes cl)(addr \<mapsto> (dn, os'))\<rparr>,
    case r of Inl e \<Rightarrow> Inl (NodeError e) | Inr x \<Rightarrow> Inr x)"
  using assms by (simp add: call_node_def draw_net_def reaches_def)

lemma dial_call_working:
  assumes "reaches cl addr" "cl_nodes cl addr = Some (dn, os)" "f dn os = (os', r)" "r \<noteq> Inl DnPanic"
  shows "dial_call addr f cl = (cl\<lparr>cl_nodes := (cl_nodes cl)(addr \<mapsto> (dn, os'))\<rparr>,
    case r of Inl e \<Rightarrow> Inl (NodeError e) | Inr x \<Rightarrow> Inr x)"
  using dial_working [OF assms(1)] call_working [where f = f, OF assms] by (simp add: dial_call_def)

subsection \<open>Independence\<close>

text \<open>
  Calls to different addresses commute, results included. The clients call replicas from
  concurrent goroutines, and the replicas of a file are on different nodes, so the order in which
  the model makes these calls does not matter.
\<close>

definition local_step :: "string \<Rightarrow> (cluster \<Rightarrow> cluster \<times> 'a) \<Rightarrow> bool" where
  "local_step addr step \<longleftrightarrow> (\<exists>g. \<forall>cl. step cl =
     (case g (cl_nodes cl addr) (cl_net cl addr) of (n, net, r) \<Rightarrow>
        (cl\<lparr>cl_nodes := (cl_nodes cl)(addr := n), cl_net := (cl_net cl)(addr := net)\<rparr>, r)))"

lemma local_step_call: "local_step addr (call_node addr f)"
proof -
  define g where "g n net =
    (let (net', flt) = (case net of [] \<Rightarrow> ([], NetOk) | x # xs \<Rightarrow> (xs, x)) in
     case n of
       None \<Rightarrow> (None, net', Inl (NoConnection ''connection is shut down''))
     | Some (dn, os) \<Rightarrow>
         (case flt of
            DialFail e \<Rightarrow> (n, net', Inl (NoConnection e))
          | RequestLost e \<Rightarrow> (n, net', Inl (NoConnection e))
          | _ \<Rightarrow> (case f dn os of (os', r) \<Rightarrow>
              if r = Inl DnPanic then (None, net', Inl (NoConnection ''unexpected EOF''))
              else (Some (dn, os'), net', case fault_text flt of
                     Some e \<Rightarrow> Inl (NoConnection e)
                   | None \<Rightarrow> (case r of Inl e \<Rightarrow> Inl (NodeError e) | Inr x \<Rightarrow> Inr x)))))" for n net
  have "call_node addr f cl = (case g (cl_nodes cl addr) (cl_net cl addr) of (n, net, r) \<Rightarrow>
      (cl\<lparr>cl_nodes := (cl_nodes cl)(addr := n), cl_net := (cl_net cl)(addr := net)\<rparr>, r))" for cl
  proof (cases "cl_net cl addr")
    case Nil
    then have "(cl_net cl)(addr := []) = cl_net cl" by (simp add: fun_upd_idem)
    with Nil show ?thesis
      by (cases cl; cases "cl_nodes cl addr")
         (auto simp: call_node_def g_def draw_net_def Let_def fun_upd_idem split: prod.split)
  next
    case (Cons x xs)
    then show ?thesis
      by (cases cl; cases "cl_nodes cl addr"; cases x)
         (auto simp: call_node_def g_def draw_net_def Let_def fun_upd_idem split: prod.split)
  qed
  then show ?thesis unfolding local_step_def by blast
qed

lemma local_step_dial: "local_step addr (dial_node addr)"
proof -
  define g where "g n net =
    (let (net', flt) = (case net of [] \<Rightarrow> ([], NetOk) | x # xs \<Rightarrow> (xs, x)) in
     (n, net', if n = None then Some (refused addr) else fault_text flt))"
    for n :: "(DataNode \<times> os_state) option" and net
  have "dial_node addr cl = (case g (cl_nodes cl addr) (cl_net cl addr) of (n, net, r) \<Rightarrow>
      (cl\<lparr>cl_nodes := (cl_nodes cl)(addr := n), cl_net := (cl_net cl)(addr := net)\<rparr>, r))" for cl
    by (cases cl; cases "cl_net cl addr") (auto simp: dial_node_def g_def draw_net_def Let_def fun_upd_idem)
  then show ?thesis unfolding local_step_def by blast
qed

lemma local_step_seq:
  assumes "local_step addr s" "\<And>x. local_step addr (t x)"
  shows "local_step addr (\<lambda>cl. case s cl of (cl, x) \<Rightarrow> t x cl)"
proof -
  from assms(1) obtain g where g: "\<And>cl. s cl = (case g (cl_nodes cl addr) (cl_net cl addr) of (n, net, r) \<Rightarrow>
      (cl\<lparr>cl_nodes := (cl_nodes cl)(addr := n), cl_net := (cl_net cl)(addr := net)\<rparr>, r))"
    unfolding local_step_def by blast
  from assms(2) obtain h where h: "\<And>x cl. t x cl = (case h x (cl_nodes cl addr) (cl_net cl addr) of (n, net, r) \<Rightarrow>
      (cl\<lparr>cl_nodes := (cl_nodes cl)(addr := n), cl_net := (cl_net cl)(addr := net)\<rparr>, r))"
    unfolding local_step_def by metis
  show ?thesis
    unfolding local_step_def
    by (rule exI [of _ "\<lambda>n net. case g n net of (n, net, x) \<Rightarrow> h x n net"])
       (auto simp: g h split: prod.split)
qed

lemma local_step_return: "local_step addr (\<lambda>cl. (cl, x))"
  unfolding local_step_def by (rule exI [of _ "\<lambda>n net. (n, net, x)"]) (auto simp: fun_upd_idem)

lemma local_step_dial_call: "local_step addr (dial_call addr f)"
proof -
  have eq: "dial_call addr f = (\<lambda>cl. case dial_node addr cl of (cl, x) \<Rightarrow>
      (case x of Some e \<Rightarrow> \<lambda>cl. (cl, Inl (NoConnection e)) | None \<Rightarrow> call_node addr f) cl)"
    by (rule ext) (simp add: dial_call_def split: prod.split option.split)
  show ?thesis unfolding eq
    by (rule local_step_seq [OF local_step_dial])
       (auto simp: local_step_call local_step_return split: option.split)
qed

lemma local_steps_commute:
  assumes "a \<noteq> b" "local_step a s" "local_step b t"
  shows "(let (cl1, x) = s cl; (cl2, y) = t cl1 in (cl2, x, y)) =
         (let (cl1, y) = t cl; (cl2, x) = s cl1 in (cl2, x, y))"
proof -
  from assms(2) obtain g where g: "\<And>cl. s cl = (case g (cl_nodes cl a) (cl_net cl a) of (n, net, r) \<Rightarrow>
      (cl\<lparr>cl_nodes := (cl_nodes cl)(a := n), cl_net := (cl_net cl)(a := net)\<rparr>, r))"
    unfolding local_step_def by blast
  from assms(3) obtain h where h: "\<And>cl. t cl = (case h (cl_nodes cl b) (cl_net cl b) of (n, net, r) \<Rightarrow>
      (cl\<lparr>cl_nodes := (cl_nodes cl)(b := n), cl_net := (cl_net cl)(b := net)\<rparr>, r))"
    unfolding local_step_def by blast
  show ?thesis
    using assms(1) by (simp add: g h Let_def fun_upd_twist [OF assms(1)] split: prod.split)
qed

end
