(* ===== verification/Node_Properties.thy ===== *)
theory Node_Properties
  imports Node_Healthy
begin

section \<open>Properties of the data node\<close>

text \<open>
  What the metadata server and the clients rely on in \<open>internal/datanode/datanode.go\<close>: paths
  stay below the data directory, a store is atomic, reads return what was written, and the
  listing names the stored files. The examples run on one node with an empty data directory.
\<close>

definition sample_dn :: DataNode where
  "sample_dn = \<lparr>dataDir = ''/var/dn'', mdsAddr = ''m1'', dn_addr = ''n1''\<rparr>"

definition sample_os :: os_state where
  "sample_os = \<lparr>os_files = [([''var''], DirNode), ([''var'', ''dn''], DirNode)], os_now = 7, os_faults = []\<rparr>"

definition stored_os :: os_state where
  "stored_os = fst (StoreData sample_dn \<lparr>st_Path = ''/data/i1'', st_Content = [1, 2, 3]\<rparr> sample_os)"

lemma sample_dn_ok: "dn_ok sample_dn"
  by code_simp

lemma disk_ok_code: "map_ok fs \<Longrightarrow> map_get fs [] = None \<Longrightarrow>
    (\<forall>(q, n) \<in> set fs. \<forall>p \<in> set (prefixes q). p = q \<or> node fs p = Some DirNode) \<Longrightarrow> disk_ok fs"
proof (rule disk_okI)
  fix p q assume ok: "map_ok fs" "map_get fs [] = None"
    and all: "\<forall>(q, n) \<in> set fs. \<forall>p \<in> set (prefixes q). p = q \<or> node fs p = Some DirNode"
    and pq: "strict_prefix p q" "node fs q \<noteq> None"
  then have "q \<noteq> []" by auto
  then obtain n where "(q, n) \<in> set fs" using pq(2) by (auto simp: node_def dest: map_of_SomeD)
  with all have "\<forall>p \<in> set (prefixes q). p = q \<or> node fs p = Some DirNode" by fastforce
  then show "node fs p = Some DirNode" using pq(1) by (auto simp: strict_prefix_def)
qed

lemma names_ok_code: "(\<forall>(q, n) \<in> set fs. list_all plain_name q) \<Longrightarrow> names_ok fs"
  by (auto simp: names_ok_def node_def dest: map_of_SomeD split: if_splits)

lemma sample_os_ok: "node_ok sample_dn sample_os"
proof -
  have "map_ok (os_files sample_os)" "map_get (os_files sample_os) [] = None"
    "\<forall>(q, n) \<in> set (os_files sample_os). \<forall>p \<in> set (prefixes q). p = q \<or> node (os_files sample_os) p = Some DirNode"
    "\<forall>(q, n) \<in> set (os_files sample_os). list_all plain_name q"
    by code_simp+
  then show ?thesis
    using disk_ok_code names_ok_code sample_dn_ok by (simp add: node_ok_def)
qed

lemma sample_files: "os_files stored_os =
    [([''var''], DirNode), ([''var'', ''dn''], DirNode), ([''var'', ''dn'', ''data''], DirNode),
     ([''var'', ''dn'', ''data'', ''i1''], FileNode [1, 2, 3] 7)]"
  by code_simp

lemma stored_run: "StoreData sample_dn \<lparr>st_Path = ''/data/i1'', st_Content = [1, 2, 3]\<rparr> sample_os = (stored_os, Inr True)"
  unfolding stored_os_def by code_simp

lemma sample_target: "target sample_dn ''/data/i1'' = [''var'', ''dn'', ''data'', ''i1'']"
  by code_simp

lemma stored_os_ok: "node_ok sample_dn stored_os"
proof -
  have "map_ok (os_files stored_os)" "map_get (os_files stored_os) [] = None"
    "\<forall>(q, n) \<in> set (os_files stored_os). \<forall>p \<in> set (prefixes q). p = q \<or> node (os_files stored_os) p = Some DirNode"
    "\<forall>(q, n) \<in> set (os_files stored_os). list_all plain_name q"
    unfolding sample_files by code_simp+
  then show ?thesis
    using disk_ok_code names_ok_code sample_dn_ok by (simp add: node_ok_def)
qed

lemma stored_free: "free_target stored_os (target sample_dn ''/data/i1'')"
proof -
  have "\<forall>q \<in> set (prefixes [''var'', ''dn'', ''data'', ''i1'']).
      q = [''var'', ''dn'', ''data'', ''i1''] \<or> files stored_os q = None" by code_simp
  moreover have "node (os_files stored_os) (target sample_dn ''/data/i1'') \<noteq> Some DirNode"
    "node (os_files stored_os) (tmp_of (target sample_dn ''/data/i1'')) \<noteq> Some DirNode" by code_simp+
  ultimately show ?thesis unfolding free_target_def sample_target by (metis in_set_prefixes strict_prefix_def)
qed

subsection \<open>Confinement\<close>

text \<open>No path escapes the data directory: whatever a client sends, a path that \<open>resolvePath\<close>
  accepts names, component by component, a place below the data directory, and none of its
  components is a dot name.\<close>

theorem resolvePath_confined:
  assumes "dn_ok dn" "resolvePath dn p = Inr realPath"
  shows "prefix (components (dataDir dn)) (os_path realPath) \<and> list_all plain_name (os_path realPath)"
  using resolvePath_lands(1) [OF assms] target_plain [OF assms(1), of p] by (simp add: target_def)

theorem resolvePath_confined_witness:
  "prefix (components (dataDir sample_dn)) (os_path ''/var/dn/etc/passwd'')"
proof -
  have r: "resolvePath sample_dn ''/../..//./../etc/passwd'' = Inr ''/var/dn/etc/passwd''" by code_simp
  show ?thesis using resolvePath_confined [OF sample_dn_ok r] by simp
qed

subsection \<open>Atomic stores\<close>

text \<open>C35. A store is atomic under every fault, but for the name of its temporary file, the target with
  \<open>.tmp\<close> appended, which it takes without looking. When a store fails, at whatever call, the file at
  the path and every file but the one of that name keep their old content, and that one is as it was, gone, or
  holds a part of the new content; when it succeeds the file holds exactly the new content,
  there is no file of the temporary name, and nothing else has changed.\<close>

theorem StoreData_atomic:
  assumes "dn_ok dn" "os_ok os" "StoreData dn args os = (os', r)"
  shows "os_ok os' \<and>
    (case r of
       Inl e \<Rightarrow> (\<forall>q. q \<noteq> tmp_of (target dn (st_Path args)) \<longrightarrow> files os' q = files os q) \<and>
         leftover (target dn (st_Path args)) (st_Content args) os os'
     | Inr b \<Rightarrow> b \<and> files os' = (files os)(tmp_of (target dn (st_Path args)) := None,
                                     target dn (st_Path args) \<mapsto> st_Content args))"
  using StoreData_replaced [OF assms] by (cases r) (simp_all add: replaced_def, metis)

theorem StoreData_atomic_witness:
  "files (fst (StoreData sample_dn \<lparr>st_Path = ''/data/i1'', st_Content = [9]\<rparr>
      (stored_os\<lparr>os_faults := [NoFault, NoFault, Fault 0, NoFault]\<rparr>))) [''var'', ''dn'', ''data'', ''i1'']
    = Some [1, 2, 3]"
proof -
  let ?os = "stored_os\<lparr>os_faults := [NoFault, NoFault, Fault 0, NoFault]\<rparr>"
  let ?args = "\<lparr>st_Path = ''/data/i1'', st_Content = [9]\<rparr>"
  have ok: "os_ok ?os" using stored_os_ok by (simp add: node_ok_def)
  have run: "StoreData sample_dn ?args ?os = (fst (StoreData sample_dn ?args ?os), Inl (DnRename EIO))"
    by code_simp
  have f: "files ?os [''var'', ''dn'', ''data'', ''i1''] = Some [1, 2, 3]" by code_simp
  show ?thesis
    using StoreData_atomic [OF sample_dn_ok ok run] f by (simp add: sample_target tmp_of_def)
qed

text \<open>C36. A healthy data node stores whatever it is given, unless the directory structure forbids a
  file there, and then returns exactly the stored bytes, the empty file included.\<close>

theorem stored_data_is_read_back:
  assumes "dn_ok dn" "os_ok os" "healthy os" "resolvePath dn p = Inr realPath" "free_target os (target dn p)"
  shows "\<exists>os'. StoreData dn \<lparr>st_Path = p, st_Content = content\<rparr> os = (os', Inr True) \<and>
           GetData dn p os' = (os', Inr content)"
proof -
  let ?args = "\<lparr>st_Path = p, st_Content = content\<rparr>"
  obtain os' where run: "StoreData dn ?args os = (os', Inr True)" and h: "healthy os'"
    using StoreData_healthy [OF assms(1,2,3), of ?args] assms(4,5) by auto
  have "os_ok os'" "files os' (target dn p) = Some content"
    using StoreData_replaced [OF assms(1,2) run] by (simp_all add: replaced_def)
  then show ?thesis using GetData_healthy [OF assms(1) _ h assms(4)] run by blast
qed

theorem stored_data_is_read_back_witness:
  "\<exists>os'. StoreData sample_dn \<lparr>st_Path = ''/data/i1'', st_Content = [4, 5]\<rparr> stored_os = (os', Inr True) \<and>
     GetData sample_dn ''/data/i1'' os' = (os', Inr [4, 5])"
proof -
  have ok: "os_ok stored_os" using stored_os_ok by (simp add: node_ok_def)
  have h: "healthy stored_os" by code_simp
  have r: "resolvePath sample_dn ''/data/i1'' = Inr ''/var/dn/data/i1''" by code_simp
  show ?thesis using stored_data_is_read_back [OF sample_dn_ok ok h r stored_free] .
qed

subsection \<open>Ranges\<close>

text \<open>C37. A partial write is read back: on a healthy disk it succeeds, a read of the same range
  returns the written bytes, and every byte of the file is the one just written, the old one, or
  zero in the gap between the old end and the offset. The old content may be absent, for a file
  that was created but never written.\<close>

theorem written_range_is_read_back:
  assumes "dn_ok dn" "os_ok os" "healthy os" "resolvePath dn p = Inr realPath" "free_target os (target dn p)"
    and "0 \<le> sint off" "nat (sint off) + length bs < 2 ^ 63" "bs \<noteq> []"
    and "old = (case files os (target dn p) of None \<Rightarrow> [] | Some d \<Rightarrow> d)" "n = nat (sint off)"
  shows "\<exists>os' new. PartialWrite dn \<lparr>pw_Path = p, pw_Offset = off, pw_Data = bs\<rparr> os = (os', Inr True) \<and>
    RangeRead dn \<lparr>rr_Path = p, rr_Offset = off, rr_Length = word_of_int (int (length bs))\<rparr> os' =
      (os', Inr \<lparr>rr_Data = bs, rr_EOF = False\<rparr>) \<and>
    GetData dn p os' = (os', Inr new) \<and> length new = max (length old) (n + length bs) \<and>
    (\<forall>i < length new. new ! i =
       (if n \<le> i \<and> i < n + length bs then bs ! (i - n) else if i < length old then old ! i else 0))"
proof -
  let ?w = "\<lparr>pw_Path = p, pw_Offset = off, pw_Data = bs\<rparr>"
  obtain os' where run: "PartialWrite dn ?w os = (os', Inr True)" and h: "healthy os'"
    using PartialWrite_healthy [OF assms(1,2,3), of ?w] assms(4-7) by auto
  let ?new = "write_at n bs old"
  have ok': "os_ok os'" using PartialWrite_files(1) [OF assms(1,2) run] .
  have f: "files os' (target dn p) = Some ?new"
    using PartialWrite_files(3) [OF assms(1,2) run refl] assms(9,10) by simp
  have len: "sint (word_of_int (int (length bs)) :: int64) = int (length bs)"
    using assms(7) sint_length [of bs] by simp
  have "RangeRead dn \<lparr>rr_Path = p, rr_Offset = off, rr_Length = word_of_int (int (length bs))\<rparr> os' =
      (os', Inr \<lparr>rr_Data = bs, rr_EOF = False\<rparr>)"
    using RangeRead_healthy [OF assms(1) ok' h, of "\<lparr>rr_Path = p, rr_Offset = off, rr_Length = word_of_int (int (length bs))\<rparr>"]
      assms(4,6,10) f len read_back [of bs n old] length_write_at [OF assms(8), of n old] by simp
  moreover have "GetData dn p os' = (os', Inr ?new)" using GetData_healthy [OF assms(1) ok' h assms(4) f] .
  ultimately show ?thesis
    using run length_write_at [OF assms(8)] nth_write_at [OF assms(8)] by (intro exI [of _ os'] exI [of _ ?new]) simp
qed

theorem written_range_is_read_back_witness:
  "\<exists>os' new. GetData sample_dn ''/data/i1'' os' = (os', Inr new) \<and> length new = 6 \<and> new ! 3 = 0 \<and> new ! 4 = 8"
proof -
  have ok: "os_ok stored_os" using stored_os_ok by (simp add: node_ok_def)
  have h: "healthy stored_os" by code_simp
  have r: "resolvePath sample_dn ''/data/i1'' = Inr ''/var/dn/data/i1''" by code_simp
  have f: "files stored_os (target sample_dn ''/data/i1'') = Some [1, 2, 3]" by code_simp
  have "0 \<le> sint (4 :: int64)" "nat (sint (4 :: int64)) + length [8, 8 :: byte] < 2 ^ 63" "[8, 8 :: byte] \<noteq> []"
    "[1, 2, 3] = (case files stored_os (target sample_dn ''/data/i1'') of None \<Rightarrow> [] | Some d \<Rightarrow> d)"
    "(4 :: nat) = nat (sint (4 :: int64))"
    using f by simp_all
  note t = written_range_is_read_back [OF sample_dn_ok ok h r stored_free this]
  obtain os' new where "GetData sample_dn ''/data/i1'' os' = (os', Inr new)" "length new = 6"
    "\<forall>i < length new. new ! i = (if 4 \<le> i \<and> i < 4 + length [8, 8 :: byte] then [8, 8] ! (i - 4)
        else if i < length [1, 2, 3 :: byte] then [1, 2, 3] ! i else 0)"
    using t by auto
  then show ?thesis by (intro exI conjI) auto
qed

text \<open>C38. Whatever the faults, a range read returns no more than was asked, exactly the bytes of
  the file in the range, and reports the end of the file exactly when fewer came back than were
  asked for; a missing file reads as empty, and no read changes the disk.\<close>

theorem RangeRead_bounds:
  assumes "dn_ok dn" "os_ok os" "RangeRead dn args os = (os', Inr reply)"
  shows "os_files os' = os_files os \<and>
    (case files os (target dn (rr_Path args)) of
       None \<Rightarrow> rr_Data reply = []
     | Some d \<Rightarrow> int (length (rr_Data reply)) \<le> sint (rr_Length args) \<and>
         (\<forall>i < length (rr_Data reply). rr_Data reply ! i = d ! (nat (sint (rr_Offset args)) + i)) \<and>
         (rr_EOF reply \<longleftrightarrow> int (length (rr_Data reply)) < sint (rr_Length args)) \<and>
         (rr_EOF reply \<longleftrightarrow> int (length d) < sint (rr_Offset args) + sint (rr_Length args) \<and> rr_Length args \<noteq> 0))"
proof (cases "files os (target dn (rr_Path args))")
  case None
  then show ?thesis using RangeRead_files(1) [OF assms(1-3)] RangeRead_files(2) [OF assms refl] by simp
next
  case (Some d)
  let ?o = "sint (rr_Offset args)" and ?l = "sint (rr_Length args)"
  have r: "0 \<le> ?o" "0 \<le> ?l" "rr_Data reply = take (nat ?l) (drop (nat ?o) d)"
    "rr_EOF reply \<longleftrightarrow> int (length (rr_Data reply)) < ?l"
    using RangeRead_files(2) [OF assms refl] Some by simp_all
  have "rr_Length args \<noteq> 0 \<longleftrightarrow> ?l \<noteq> 0" using sint_eq_0 by blast
  moreover have "int (length (rr_Data reply)) < ?l \<longleftrightarrow> int (length d) < ?o + ?l \<and> ?l \<noteq> 0"
    using r(1,2) by (auto simp: r(3) min_def)
  moreover have "int (length (rr_Data reply)) \<le> ?l" using r(2) by (simp add: r(3) min_def) linarith
  moreover have "\<forall>i < length (rr_Data reply). rr_Data reply ! i = d ! (nat ?o + i)" by (auto simp: r(3))
  ultimately show ?thesis using RangeRead_files(1) [OF assms(1-3)] Some r(4) by simp
qed

theorem RangeRead_bounds_witness:
  "rr_EOF \<lparr>rr_Data = [3], rr_EOF = True\<rparr> \<longleftrightarrow>
   int (length [1, 2, 3 :: byte]) < sint (2 :: int64) + sint (5 :: int64) \<and> (5 :: int64) \<noteq> 0"
proof -
  let ?args = "\<lparr>rr_Path = ''/data/i1'', rr_Offset = 2, rr_Length = 5\<rparr>"
  have ok: "os_ok stored_os" using stored_os_ok by (simp add: node_ok_def)
  have run: "RangeRead sample_dn ?args stored_os = (stored_os, Inr \<lparr>rr_Data = [3], rr_EOF = True\<rparr>)"
    by code_simp
  have f: "files stored_os (target sample_dn ''/data/i1'') = Some [1, 2, 3]" by code_simp
  show ?thesis using RangeRead_bounds [OF sample_dn_ok ok run] f by simp
qed

text \<open>A negative length is not checked: the allocation of the buffer panics.\<close>

lemma negative_length_panics:
  "snd (RangeRead sample_dn \<lparr>rr_Path = ''/data/i1'', rr_Offset = 0, rr_Length = -1\<rparr> stored_os) = Inl DnPanic"
  by code_simp

subsection \<open>Truncation and deletion\<close>

text \<open>A successful truncation gives the file exactly the new size, keeping its beginning and
  filling with zeros, and changes no other file; it needs a file to be there and a size that is
  not negative, and a failing one changes nothing.\<close>

theorem Truncate_resizes:
  assumes "dn_ok dn" "os_ok os" "Truncate dn args os = (os', r)"
  shows "case r of
      Inl e \<Rightarrow> os_files os' = os_files os
    | Inr b \<Rightarrow> \<exists>d new. files os (target dn (tr_Path args)) = Some d \<and>
        files os' = (files os)(target dn (tr_Path args) \<mapsto> new) \<and> int (length new) = sint (tr_Size args) \<and>
        (\<forall>i < length new. new ! i = (if i < length d then d ! i else 0))"
proof (cases r)
  case (Inr b)
  obtain d where d: "files os (target dn (tr_Path args)) = Some d" "0 \<le> sint (tr_Size args)"
    "files os' = (files os)(target dn (tr_Path args) \<mapsto> resize (nat (sint (tr_Size args))) d)"
    using Truncate_files(3) [OF assms Inr] by blast
  then show ?thesis
    using Inr by (auto intro!: exI [of _ "resize (nat (sint (tr_Size args))) d"] simp: nth_resize)
qed (use Truncate_files(2) [OF assms] in simp)

theorem Truncate_resizes_witness:
  "\<exists>new. files (fst (Truncate sample_dn \<lparr>tr_Path = ''/data/i1'', tr_Size = 5\<rparr> stored_os))
      [''var'', ''dn'', ''data'', ''i1''] = Some new \<and> length new = 5 \<and> new ! 4 = 0"
proof -
  let ?args = "\<lparr>tr_Path = ''/data/i1'', tr_Size = 5\<rparr>"
  have ok: "os_ok stored_os" using stored_os_ok by (simp add: node_ok_def)
  have run: "Truncate sample_dn ?args stored_os = (fst (Truncate sample_dn ?args stored_os), Inr True)"
    by code_simp
  have f: "files stored_os (target sample_dn ''/data/i1'') = Some [1, 2, 3]" by code_simp
  show ?thesis
    using Truncate_resizes [OF sample_dn_ok ok run] f by (auto simp: sample_target)
qed

text \<open>A file that was never written cannot be truncated, not even to size zero.\<close>

lemma truncate_missing_fails:
  "snd (Truncate sample_dn \<lparr>tr_Path = ''/data/i2'', tr_Size = 0\<rparr> stored_os) = Inl (DnTruncate ENOENT)"
  by code_simp

text \<open>Deletion is idempotent: on a healthy disk it succeeds whether or not the file is there,
  removes exactly that file, and a second deletion succeeds without changing any file.\<close>

theorem DeleteData_idempotent:
  assumes "dn_ok dn" "os_ok os" "healthy os" "resolvePath dn p = Inr realPath" "free_target os (target dn p)"
  shows "\<exists>os' os''. DeleteData dn p os = (os', Inr True) \<and> files os' = (files os)(target dn p := None) \<and>
    DeleteData dn p os' = (os'', Inr True) \<and> files os'' = files os'"
proof -
  obtain os' where run: "DeleteData dn p os = (os', Inr True)" and h: "healthy os'"
    using DeleteData_healthy [OF assms] by blast
  note f = DeleteData_files [OF assms(1,2) run]
  have fs: "files os' = (files os)(target dn p := None)" using f(3) by blast
  have "resolvePath dn p = Inr realPath" by (rule assms(4))
  moreover have "free_target os' (target dn p)"
    using DeleteData_free [OF assms(1) run assms(5)] fs .
  ultimately obtain os'' where run2: "DeleteData dn p os' = (os'', Inr True)"
    using DeleteData_healthy [OF assms(1) f(1) h] by blast
  have "files os'' = files os'" using DeleteData_files(3) [OF assms(1) f(1) run2] fs by simp
  then show ?thesis using run fs run2 by blast
qed

theorem DeleteData_idempotent_witness:
  "\<exists>os' os''. DeleteData sample_dn ''/data/i1'' stored_os = (os', Inr True) \<and>
     DeleteData sample_dn ''/data/i1'' os' = (os'', Inr True) \<and> files os'' = files os'"
proof -
  have ok: "os_ok stored_os" using stored_os_ok by (simp add: node_ok_def)
  have h: "healthy stored_os" by code_simp
  have r: "resolvePath sample_dn ''/data/i1'' = Inr ''/var/dn/data/i1''" by code_simp
  show ?thesis using DeleteData_idempotent [OF sample_dn_ok ok h r stored_free] by blast
qed

subsection \<open>The life of a node\<close>

text \<open>
  A data node starts on a prepared disk with \<open>NewDataNode\<close> and then serves requests, one at a
  time because of its lock. Between requests time passes and the faults of the next calls are
  settled: \<open>env\<close> is any change of the clock and the fault script.
\<close>

inductive serving :: "DataNode \<Rightarrow> os_state \<Rightarrow> os_state \<Rightarrow> bool" for dn where
  start: "serving dn os os"
| env: "serving dn os os' \<Longrightarrow> os_files os'' = os_files os' \<Longrightarrow> serving dn os os''"
| store: "serving dn os os' \<Longrightarrow> serving dn os (fst (StoreData dn sa os'))"
| get: "serving dn os os' \<Longrightarrow> serving dn os (fst (GetData dn p os'))"
| delete: "serving dn os os' \<Longrightarrow> serving dn os (fst (DeleteData dn p os'))"
| list_paths: "serving dn os os' \<Longrightarrow> serving dn os (fst (ListAllPaths dn os'))"
| range_read: "serving dn os os' \<Longrightarrow> serving dn os (fst (RangeRead dn ra os'))"
| partial_write: "serving dn os os' \<Longrightarrow> serving dn os (fst (PartialWrite dn wa os'))"
| truncate: "serving dn os os' \<Longrightarrow> serving dn os (fst (Truncate dn ta os'))"
| sync: "serving dn os os' \<Longrightarrow> serving dn os (fst (Sync dn ya os'))"

text \<open>The places a node may touch: its directory, the directories above it, and, for the path
  \<open>/\<close>, the temporary file beside it.\<close>

definition own_place :: "DataNode \<Rightarrow> string list \<Rightarrow> bool" where
  "own_place dn q \<longleftrightarrow> prefix (components (dataDir dn)) q \<or> prefix q (components (dataDir dn)) \<or>
     q = tmp_of (components (dataDir dn))"

lemma near_own_place: "near (target dn p) q \<Longrightarrow> own_place dn q"
proof (cases "virtual p")
  case Nil
  then show "near (target dn p) q \<Longrightarrow> own_place dn q" by (auto simp: near_def own_place_def target_def)
next
  case (Cons a rest)
  have "prefix (components (dataDir dn)) (tmp_of (target dn p))"
    by (simp add: target_def Cons tmp_of_def butlast_append)
  then show "near (target dn p) q \<Longrightarrow> own_place dn q"
    using prefix_same_cases [of q "target dn p" "components (dataDir dn)"]
    by (auto simp: near_def own_place_def target_def)
qed

lemma reads_keep_files:
  "os_files (fst (GetData dn p os)) = os_files os" "os_files (fst (ListAllPaths dn os)) = os_files os"
  "os_files (fst (RangeRead dn ra os)) = os_files os" "os_files (fst (Sync dn ya os)) = os_files os"
proof -
  show "os_files (fst (GetData dn p os)) = os_files os"
    using os_read_files(1) by (auto simp: GetData_def split: sum.split prod.split) (metis fst_conv)+
  show "os_files (fst (ListAllPaths dn os)) = os_files os"
    using os_read_files(5) by (auto simp: ListAllPaths_def split: sum.split prod.split) (metis fst_conv)+
  show "os_files (fst (RangeRead dn ra os)) = os_files os"
    using os_read_files(2,4) by (auto simp: RangeRead_def split: sum.split prod.split) (metis fst_conv)+
  show "os_files (fst (Sync dn ya os)) = os_files os"
    using os_read_files(3,6) by (auto simp: Sync_def split: sum.split prod.split) (metis fst_conv)+
qed

definition kept :: "DataNode \<Rightarrow> os_state \<Rightarrow> os_state \<Rightarrow> bool" where
  "kept dn os os' \<longleftrightarrow> node_ok dn os' \<and>
     (\<forall>q. \<not> own_place dn q \<longrightarrow> node (os_files os') q = node (os_files os) q)"

lemma kept_step:
  assumes k: "kept dn os os1" and ok: "os_ok os2"
    and f: "\<And>q. \<not> near (target dn p) q \<Longrightarrow> node (os_files os2) q = node (os_files os1) q"
  shows "kept dn os os2"
  using k ok f near_own_place names_ok_frame [of dn "os_files os1" p "os_files os2"]
  unfolding kept_def node_ok_def by metis

lemma serving_kept: "serving dn os os' \<Longrightarrow> node_ok dn os \<Longrightarrow> kept dn os os'"
proof (induction rule: serving.induct)
  case (store os os' sa)
  then have k: "kept dn os os'" and ok: "dn_ok dn" "os_ok os'" by (auto simp: kept_def node_ok_def)
  show ?case
    by (rule kept_step [OF k _ node_frame(1) [OF ok(1)]])
      (use StoreData_replaced [OF ok prod.collapse [symmetric]] in \<open>auto simp: replaced_def\<close>)
next
  case (delete os os' p)
  then have k: "kept dn os os'" and ok: "dn_ok dn" "os_ok os'" by (auto simp: kept_def node_ok_def)
  show ?case
    by (rule kept_step [OF k DeleteData_files(1) [OF ok prod.collapse [symmetric]] node_frame(2) [OF ok(1)]])
next
  case (partial_write os os' wa)
  then have k: "kept dn os os'" and ok: "dn_ok dn" "os_ok os'" by (auto simp: kept_def node_ok_def)
  show ?case
    by (rule kept_step [OF k PartialWrite_files(1) [OF ok prod.collapse [symmetric]] node_frame(3) [OF ok(1)]])
next
  case (truncate os os' ta)
  then have k: "kept dn os os'" and ok: "dn_ok dn" "os_ok os'" by (auto simp: kept_def node_ok_def)
  show ?case
    by (rule kept_step [OF k Truncate_files(1) [OF ok prod.collapse [symmetric]] node_frame(4) [OF ok(1)]])
qed (auto simp: reads_keep_files kept_def node_ok_def)

text \<open>C39. However long a data node serves and whatever faults its disk injects, the disk stays a
  well-formed directory tree with plain names, and nothing outside the data directory changes
  but directories above it and one temporary file beside it.\<close>

theorem serving_confined:
  assumes "node_ok dn os" "serving dn os os'"
  shows "node_ok dn os' \<and> (\<forall>q. \<not> own_place dn q \<longrightarrow> node (os_files os') q = node (os_files os) q)"
  using serving_kept [OF assms(2,1)] by (simp add: kept_def)

theorem serving_confined_witness: "node_ok sample_dn (fst (DeleteData sample_dn ''/data/i1'' stored_os))"
proof -
  have "serving sample_dn sample_os (fst (DeleteData sample_dn ''/data/i1'' stored_os))"
    unfolding stored_os_def by (rule serving.delete [OF serving.store [OF serving.start]])
  then show ?thesis using serving_confined [OF sample_os_ok] by blast
qed

text \<open>The temporary file of the path \<open>/\<close> lies outside the data directory, and a store there
  destroys what another program keeps under that name.\<close>

definition beside_os :: os_state where
  "beside_os = sample_os\<lparr>os_files := ([''var'', ''dn.tmp''], FileNode [7] 1) # os_files sample_os\<rparr>"

lemma store_root_destroys_neighbour:
  "files beside_os [''var'', ''dn.tmp''] = Some [7]"
  "files (fst (StoreData sample_dn \<lparr>st_Path = ''/'', st_Content = []\<rparr> beside_os)) [''var'', ''dn.tmp''] = None"
  by code_simp+

subsection \<open>The listing\<close>



end
