(* ===== verification/Entry_Heap.thy ===== *)
theory Entry_Heap
  imports Path_Names
begin

section \<open>The directory tree as a heap of entries\<close>

text \<open>
  The metadata server keeps the directory tree as \<open>*entry\<close> nodes whose \<open>children\<close> maps
  hold pointers to other nodes (\<open>internal/metadata/mds.go\<close>, type \<open>entry\<close>). The code
  mutates nodes in place, moves them by pointer in \<open>applyRename\<close> and compares pointers to
  detect cycles, so the model keeps the pointers: a heap is a store from addresses to entries
  and the next free address. Nothing is ever freed, as in Go an unreachable node simply stops
  to matter.

  \<open>heap_ok\<close> is the shape the code relies on: from the root hangs a tree. \<open>walk\<close> follows
  a list of names as the loops of the code do, and \<open>view\<close> forgets the addresses: it maps
  every path to the attributes of its entry.
\<close>

type_synonym ptr = nat

record entry =
  entry_name :: string
  isDir :: bool
  entry_size :: int64
  entry_mode :: uint32
  createdAt :: time
  modTime :: time
  entry_status :: string
  fileID :: string
  replicas :: "Replica list"
  children :: "(string, ptr) gomap"

record entry_heap =
  store :: "ptr \<rightharpoonup> entry"
  next_ptr :: ptr

subsection \<open>Reading and writing nodes\<close>

definition child :: "entry_heap \<Rightarrow> ptr \<Rightarrow> string \<Rightarrow> ptr option" where
  "child h p n = (case store h p of None \<Rightarrow> None | Some e \<Rightarrow> map_get (children e) n)"

definition is_dir :: "entry_heap \<Rightarrow> ptr \<Rightarrow> bool" where
  "is_dir h p = (case store h p of None \<Rightarrow> False | Some e \<Rightarrow> isDir e)"

text \<open>An assignment to fields of \<open>*p\<close>; \<open>&entry{...}\<close>.\<close>

definition update_entry :: "(entry \<Rightarrow> entry) \<Rightarrow> ptr \<Rightarrow> entry_heap \<Rightarrow> entry_heap" where
  "update_entry f p h = h\<lparr>store := (store h)(p := map_option f (store h p))\<rparr>"

definition alloc :: "entry \<Rightarrow> entry_heap \<Rightarrow> entry_heap \<times> ptr" where
  "alloc e h = (h\<lparr>store := (store h)(next_ptr h \<mapsto> e), next_ptr := Suc (next_ptr h)\<rparr>, next_ptr h)"

definition set_child :: "ptr \<Rightarrow> string \<Rightarrow> ptr \<Rightarrow> entry_heap \<Rightarrow> entry_heap" where
  "set_child p n q h = update_entry (\<lambda>e. e\<lparr>children := map_put n q (children e)\<rparr>) p h"

definition del_child :: "ptr \<Rightarrow> string \<Rightarrow> entry_heap \<Rightarrow> entry_heap" where
  "del_child p n h = update_entry (\<lambda>e. e\<lparr>children := map_del n (children e)\<rparr>) p h"

definition set_modTime :: "time \<Rightarrow> ptr \<Rightarrow> entry_heap \<Rightarrow> entry_heap" where
  "set_modTime now p h = update_entry (\<lambda>e. e\<lparr>modTime := now\<rparr>) p h"

text \<open>The loop of \<open>lookup\<close>, and the loop that looks for a parent directory.\<close>

fun walk :: "entry_heap \<Rightarrow> ptr \<Rightarrow> string list \<Rightarrow> ptr option" where
  "walk h current [] = Some current"
| "walk h current (part # parts) =
     (case child h current part of
        None \<Rightarrow> None
      | Some next \<Rightarrow> walk h next parts)"

fun find_dir :: "entry_heap \<Rightarrow> ptr \<Rightarrow> string list \<Rightarrow> ptr option" where
  "find_dir h current [] = Some current"
| "find_dir h current (part # parts) =
     (case child h current part of
        None \<Rightarrow> None
      | Some next \<Rightarrow> if \<not> is_dir h next then None else find_dir h next parts)"

subsection \<open>Shape\<close>

definition heap_ok :: "entry_heap \<Rightarrow> ptr \<Rightarrow> bool" where
  "heap_ok h root \<longleftrightarrow>
     is_dir h root \<and>
     (\<forall>p e. store h p = Some e \<longrightarrow>
        p < next_ptr h \<and> map_ok (children e) \<and> (\<not> isDir e \<longrightarrow> children e = [])) \<and>
     (\<forall>p n q. child h p n = Some q \<longrightarrow>
        q \<noteq> root \<and> valid_name n \<and> (\<exists>e. store h q = Some e \<and> entry_name e = n)) \<and>
     (\<forall>p n p' n' q. child h p n = Some q \<longrightarrow> child h p' n' = Some q \<longrightarrow> p = p' \<and> n = n')"

text \<open>What is visible at a path: the entry without its pointers.\<close>

definition attrs :: "entry \<Rightarrow> entry" where
  "attrs e = e\<lparr>children := []\<rparr>"

definition attrs_at :: "entry_heap \<Rightarrow> ptr \<Rightarrow> entry option" where
  "attrs_at h p = map_option attrs (store h p)"

type_synonym namespace = "string list \<rightharpoonup> entry"

definition view :: "entry_heap \<Rightarrow> ptr \<Rightarrow> namespace" where
  "view h root ps = (case walk h root ps of None \<Rightarrow> None | Some p \<Rightarrow> attrs_at h p)"

subsection \<open>The heap operations\<close>

lemma attrs_simps [simp]:
  "isDir (attrs e) = isDir e" "entry_name (attrs e) = entry_name e"
  "entry_size (attrs e) = entry_size e" "entry_mode (attrs e) = entry_mode e"
  "createdAt (attrs e) = createdAt e" "modTime (attrs e) = modTime e"
  "entry_status (attrs e) = entry_status e" "fileID (attrs e) = fileID e"
  "replicas (attrs e) = replicas e" "children (attrs e) = []" "attrs (attrs e) = attrs e"
  by (simp_all add: attrs_def)

lemma store_update_entry [heap_simps]:
  "store (update_entry f p h) q = (if q = p then map_option f (store h p) else store h q)"
  by (simp add: update_entry_def)

lemma next_update_entry [heap_simps]: "next_ptr (update_entry f p h) = next_ptr h"
  by (simp add: update_entry_def)

lemma child_update_entry [heap_simps]:
  "(\<And>e. children (f e) = children e) \<Longrightarrow> child (update_entry f p h) q n = child h q n"
  by (auto simp: child_def store_update_entry split: option.splits)

lemma is_dir_update_entry [heap_simps]:
  "(\<And>e. isDir (f e) = isDir e) \<Longrightarrow> is_dir (update_entry f p h) q = is_dir h q"
  by (auto simp: is_dir_def store_update_entry split: option.splits)

lemma attrs_at_update_entry [heap_simps]:
  "(\<And>e. attrs (f e) = f (attrs e)) \<Longrightarrow>
   attrs_at (update_entry f p h) q = (if q = p then map_option f (attrs_at h p) else attrs_at h q)"
  by (simp add: attrs_at_def store_update_entry option.map_comp o_def)

lemma child_set_child [heap_simps]:
  "child (set_child p n q h) p' n' =
     (if p' = p \<and> n' = n \<and> store h p \<noteq> None then Some q else child h p' n')"
  by (auto simp: child_def set_child_def store_update_entry map_get_put split: option.splits)

lemma child_del_child [heap_simps]:
  "child (del_child p n h) p' n' = (if p' = p \<and> n' = n then None else child h p' n')"
  by (auto simp: child_def del_child_def store_update_entry map_get_del split: option.splits)

lemma is_dir_set_child [heap_simps]: "is_dir (set_child p n q h) = is_dir h"
  by (rule ext) (simp add: set_child_def is_dir_update_entry)

lemma is_dir_del_child [heap_simps]: "is_dir (del_child p n h) = is_dir h"
  by (rule ext) (simp add: del_child_def is_dir_update_entry)

lemma is_dir_set_modTime [heap_simps]: "is_dir (set_modTime now p h) = is_dir h"
  by (rule ext) (simp add: set_modTime_def is_dir_update_entry)

lemma child_set_modTime [heap_simps]: "child (set_modTime now p h) = child h"
  by (intro ext) (simp add: set_modTime_def child_update_entry)

lemma next_set_child [heap_simps]: "next_ptr (set_child p n q h) = next_ptr h"
  by (simp add: set_child_def next_update_entry)

lemma next_del_child [heap_simps]: "next_ptr (del_child p n h) = next_ptr h"
  by (simp add: del_child_def next_update_entry)

lemma next_set_modTime [heap_simps]: "next_ptr (set_modTime now p h) = next_ptr h"
  by (simp add: set_modTime_def next_update_entry)

lemma attrs_at_set_child [heap_simps]: "attrs_at (set_child p n q h) = attrs_at h"
  by (rule ext) (simp add: attrs_at_def set_child_def store_update_entry option.map_comp o_def attrs_def [abs_def])

lemma attrs_at_del_child [heap_simps]: "attrs_at (del_child p n h) = attrs_at h"
  by (rule ext) (simp add: attrs_at_def del_child_def store_update_entry option.map_comp o_def attrs_def [abs_def])

lemma attrs_at_set_modTime [heap_simps]:
  "attrs_at (set_modTime now p h) =
     (attrs_at h)(p := map_option (\<lambda>e. e\<lparr>modTime := now\<rparr>) (attrs_at h p))"
  by (rule ext) (simp add: set_modTime_def attrs_at_update_entry attrs_def)

lemma store_None_iff_attrs: "store h p = None \<longleftrightarrow> attrs_at h p = None"
  by (simp add: attrs_at_def)

lemma is_dir_attrs_at: "is_dir h p = (case attrs_at h p of None \<Rightarrow> False | Some e \<Rightarrow> isDir e)"
  by (simp add: is_dir_def attrs_at_def split: option.splits)

lemma is_dir_store: "is_dir h p \<Longrightarrow> store h p \<noteq> None"
  by (auto simp: is_dir_def split: option.splits)

subsection \<open>Walking\<close>

lemma walk_append:
  "walk h p (xs @ ys) = (case walk h p xs of None \<Rightarrow> None | Some q \<Rightarrow> walk h q ys)"
  by (induction xs arbitrary: p) (auto split: option.splits)

lemma walk_snoc: "walk h p (xs @ [n]) = (case walk h p xs of None \<Rightarrow> None | Some q \<Rightarrow> child h q n)"
  by (simp add: walk_append split: option.splits)

lemma walk_prefix: "prefix xs ys \<Longrightarrow> walk h p ys = Some q \<Longrightarrow> \<exists>r. walk h p xs = Some r"
  by (auto simp: prefix_def walk_append split: option.splits)

lemma walk_cong: "(\<And>p n. child h p n = child h' p n) \<Longrightarrow> walk h p xs = walk h' p xs"
  by (induction xs arbitrary: p) (auto split: option.splits)

text \<open>The consequences of the shape that the proofs use.\<close>

lemma heap_ok_root: "heap_ok h root \<Longrightarrow> is_dir h root"
  by (simp add: heap_ok_def)

lemma heap_ok_child_root: "heap_ok h root \<Longrightarrow> child h p n = Some q \<Longrightarrow> q \<noteq> root"
  unfolding heap_ok_def by blast

lemma heap_ok_child_store: "heap_ok h root \<Longrightarrow> child h p n = Some q \<Longrightarrow> store h q \<noteq> None"
  unfolding heap_ok_def by blast

lemma heap_ok_child_name:
  "heap_ok h root \<Longrightarrow> child h p n = Some q \<Longrightarrow> store h q = Some e \<Longrightarrow> entry_name e = n"
  unfolding heap_ok_def by fastforce

lemma heap_ok_child_valid: "heap_ok h root \<Longrightarrow> child h p n = Some q \<Longrightarrow> valid_name n"
  unfolding heap_ok_def by blast

lemma heap_ok_unique:
  "heap_ok h root \<Longrightarrow> child h p n = Some q \<Longrightarrow> child h p' n' = Some q \<Longrightarrow> p = p' \<and> n = n'"
  unfolding heap_ok_def by blast

lemma heap_ok_bound: "heap_ok h root \<Longrightarrow> store h p = Some e \<Longrightarrow> p < next_ptr h"
  by (simp add: heap_ok_def)

lemma heap_ok_map: "heap_ok h root \<Longrightarrow> store h p = Some e \<Longrightarrow> map_ok (children e)"
  by (simp add: heap_ok_def)

lemma heap_ok_leaf: "heap_ok h root \<Longrightarrow> store h p = Some e \<Longrightarrow> \<not> isDir e \<Longrightarrow> children e = []"
  by (simp add: heap_ok_def)

lemma heap_ok_fresh: "heap_ok h root \<Longrightarrow> store h (next_ptr h) = None"
  by (meson heap_ok_bound less_irrefl not_Some_eq)

lemma heap_ok_child_dir: "heap_ok h root \<Longrightarrow> child h p n = Some q \<Longrightarrow> is_dir h p"
  by (auto simp: child_def is_dir_def dest: heap_ok_leaf split: option.splits)

text \<open>
  The reachable part is a tree: two paths from the root that meet are the same path. The last
  edge of both is the same edge, and no edge leads back to the root.
\<close>

lemma walk_inj:
  assumes ok: "heap_ok h root" and "walk h root xs = Some p" "walk h root ys = Some p"
  shows "xs = ys"
  using assms(2,3)
proof (induction xs arbitrary: ys p rule: rev_induct)
  case Nil
  then show ?case
    by (cases ys rule: rev_cases)
       (auto simp: walk_snoc dest: heap_ok_child_root [OF ok] split: option.splits)
next
  case (snoc x xs)
  then obtain a where a: "walk h root xs = Some a" "child h a x = Some p"
    by (auto simp: walk_snoc split: option.splits)
  show ?case
  proof (cases ys rule: rev_cases)
    case Nil
    with snoc.prems a heap_ok_child_root [OF ok] show ?thesis by auto
  next
    case (snoc ys' y)
    with snoc.prems obtain b where b: "walk h root ys' = Some b" "child h b y = Some p"
      by (auto simp: walk_snoc split: option.splits)
    with a heap_ok_unique [OF ok] have "a = b \<and> x = y" by blast
    with a b snoc.IH snoc show ?thesis by auto
  qed
qed

lemma walk_store: "heap_ok h root \<Longrightarrow> walk h root xs = Some p \<Longrightarrow> store h p \<noteq> None"
  by (cases xs rule: rev_cases)
     (auto simp: walk_snoc dest: heap_ok_child_store is_dir_store [OF heap_ok_root] split: option.splits)

lemma walk_names: "heap_ok h root \<Longrightarrow> walk h p xs = Some q \<Longrightarrow> list_all valid_name xs"
  by (induction xs arbitrary: p) (auto dest: heap_ok_child_valid split: option.splits)

lemma walk_parent_dir:
  "heap_ok h root \<Longrightarrow> walk h root (xs @ n # ys) = Some q \<Longrightarrow> \<exists>p. walk h root xs = Some p \<and> is_dir h p"
  by (auto simp: walk_append dest: heap_ok_child_dir split: option.splits)

lemma view_None_iff: "heap_ok h root \<Longrightarrow> view h root ps = None \<longleftrightarrow> walk h root ps = None"
  by (auto simp: view_def attrs_at_def dest: walk_store split: option.splits)

lemma view_walk: "walk h root ps = Some p \<Longrightarrow> view h root ps = attrs_at h p"
  by (simp add: view_def)

text \<open>The directory test of the parent loop only matters at the last step.\<close>

lemma find_dir_walk: "find_dir h p ps = Some q \<Longrightarrow> walk h p ps = Some q"
  by (induction ps arbitrary: p) (auto split: option.splits if_splits)

lemma find_dir_is_dir: "find_dir h p ps = Some q \<Longrightarrow> is_dir h p \<Longrightarrow> is_dir h q"
  by (induction ps arbitrary: p) (auto split: option.splits if_splits)

lemma walk_find_dir:
  "heap_ok h root \<Longrightarrow> walk h p ps = Some q \<Longrightarrow> is_dir h q \<Longrightarrow> find_dir h p ps = Some q"
proof (induction ps arbitrary: p)
  case (Cons n ps)
  then obtain c where c: "child h p n = Some c" "walk h c ps = Some q"
    by (auto split: option.splits)
  have "is_dir h c"
  proof (cases ps)
    case Nil
    with c Cons.prems show ?thesis by simp
  next
    case (Cons m ms)
    with c \<open>heap_ok h root\<close> show ?thesis by (auto dest: heap_ok_child_dir split: option.splits)
  qed
  with c Cons show ?case by simp
qed simp

definition dir_at :: "namespace \<Rightarrow> string list \<Rightarrow> bool" where
  "dir_at m ps = (case m ps of None \<Rightarrow> False | Some e \<Rightarrow> isDir e)"

lemma dir_at_view: "dir_at (view h root) ps \<longleftrightarrow> (\<exists>p. walk h root ps = Some p \<and> is_dir h p)"
  by (auto simp: dir_at_def view_def is_dir_attrs_at split: option.splits)

lemma find_dir_view:
  "heap_ok h root \<Longrightarrow>
   (case find_dir h root ps of None \<Rightarrow> \<not> dir_at (view h root) ps
    | Some p \<Rightarrow> walk h root ps = Some p \<and> dir_at (view h root) ps)"
  by (auto simp: dir_at_view intro: find_dir_walk find_dir_is_dir
      dest: walk_find_dir heap_ok_root split: option.splits)

text \<open>The loop never walks longer than there are nodes: every step reaches a new one.\<close>

lemma walk_length_bound:
  assumes ok: "heap_ok h root" and w: "walk h root ps = Some p"
  shows "length ps < next_ptr h"
proof -
  let ?f = "\<lambda>i. the (walk h root (take i ps))"
  have some: "\<exists>q. walk h root (take i ps) = Some q" for i
    using w walk_prefix take_is_prefix by metis
  have "inj_on ?f {..length ps}"
  proof (rule inj_onI)
    fix i j assume ij: "i \<in> {..length ps}" "j \<in> {..length ps}" "?f i = ?f j"
    then have "walk h root (take i ps) = walk h root (take j ps)"
      using some [of i] some [of j] by auto
    then have "take i ps = take j ps" using some [of i] walk_inj [OF ok] by metis
    then have "length (take i ps) = length (take j ps)" by simp
    with ij show "i = j" by simp
  qed
  moreover have "?f ` {..length ps} \<subseteq> {..<next_ptr h}"
  proof
    fix q assume "q \<in> ?f ` {..length ps}"
    then obtain i where "q = ?f i" by blast
    with some [of i] have "walk h root (take i ps) = Some q" by auto
    then obtain e where "store h q = Some e" using walk_store [OF ok] by blast
    then show "q \<in> {..<next_ptr h}" using heap_ok_bound [OF ok] by simp
  qed
  ultimately have "card {..length ps} \<le> card {..<next_ptr h}"
    by (metis card_image card_mono finite_lessThan)
  then show ?thesis by simp
qed

end
