(* ===== verification/Tree_Edit.thy ===== *)
theory Tree_Edit
  imports Entry_Heap
begin

section \<open>Editing the tree\<close>

text \<open>
  What a single pointer write does to the paths: unlinking an edge cuts a subtree, linking an
  edge grafts one, an update of a node changes one path only. Each comes with the preservation
  of \<open>heap_ok\<close>. The operations of the state machine are sequences of these writes.
\<close>

subsection \<open>Preservation of the shape\<close>

lemma heap_okI:
  assumes "is_dir h root"
    and "\<And>p e. store h p = Some e \<Longrightarrow> p < next_ptr h"
    and "\<And>p e. store h p = Some e \<Longrightarrow> map_ok (children e)"
    and "\<And>p e. store h p = Some e \<Longrightarrow> \<not> isDir e \<Longrightarrow> children e = []"
    and "\<And>p n. child h p n \<noteq> Some root"
    and "\<And>p n q. child h p n = Some q \<Longrightarrow> valid_name n"
    and "\<And>p n q. child h p n = Some q \<Longrightarrow> \<exists>e. store h q = Some e \<and> entry_name e = n"
    and "\<And>p n p' n' q. child h p n = Some q \<Longrightarrow> child h p' n' = Some q \<Longrightarrow> p = p' \<and> n = n'"
  shows "heap_ok h root"
  unfolding heap_ok_def using assms by blast

lemma heap_ok_child_entry:
  "heap_ok h root \<Longrightarrow> child h p n = Some q \<Longrightarrow> \<exists>e. store h q = Some e \<and> entry_name e = n"
  unfolding heap_ok_def by blast

lemma heap_ok_update_entry:
  assumes ok: "heap_ok h root"
    and f: "\<And>e. children (f e) = children e" "\<And>e. isDir (f e) = isDir e"
    and name: "\<And>e. entry_name (f e) = entry_name e"
  shows "heap_ok (update_entry f p h) root"
proof (rule heap_okI)
  fix q n r assume "child (update_entry f p h) q n = Some r"
  then have "child h q n = Some r" by (simp add: child_update_entry f)
  with heap_ok_child_entry [OF ok] show "\<exists>e. store (update_entry f p h) r = Some e \<and> entry_name e = n"
    by (fastforce simp: store_update_entry name)
qed (use ok f in \<open>auto simp: store_update_entry next_update_entry child_update_entry is_dir_update_entry
      dest: heap_ok_root heap_ok_bound heap_ok_map heap_ok_leaf heap_ok_child_root heap_ok_child_valid
        heap_ok_unique split: if_splits\<close>)

lemma heap_ok_set_modTime [keep_intros]: "heap_ok h root \<Longrightarrow> heap_ok (set_modTime now p h) root"
  by (simp add: set_modTime_def heap_ok_update_entry)

lemma heap_ok_del_child [keep_intros]:
  assumes ok: "heap_ok h root"
  shows "heap_ok (del_child p n h) root"
proof (rule heap_okI)
  fix q m r assume "child (del_child p n h) q m = Some r"
  then have "child h q m = Some r" by (simp add: child_del_child split: if_splits)
  with heap_ok_child_entry [OF ok] obtain e where "store h r = Some e" "entry_name e = m" by blast
  then show "\<exists>e. store (del_child p n h) r = Some e \<and> entry_name e = m"
    by (auto simp: del_child_def store_update_entry)
next
  fix q e assume "store (del_child p n h) q = Some e"
  then obtain e' where "store h q = Some e'" "children e = children e' \<or> children e = map_del n (children e')"
    "isDir e = isDir e'"
    by (auto simp: del_child_def store_update_entry split: if_splits)
  then show "q < next_ptr (del_child p n h)" "map_ok (children e)" "\<not> isDir e \<Longrightarrow> children e = []"
    using heap_ok_bound [OF ok] heap_ok_map [OF ok] heap_ok_leaf [OF ok]
    by (auto simp: next_del_child keep_intros)
qed (use ok in \<open>auto simp: child_del_child is_dir_del_child
      dest: heap_ok_root heap_ok_child_root heap_ok_child_valid heap_ok_unique split: if_splits\<close>)

lemma heap_ok_set_child:
  assumes ok: "heap_ok h root" and dir: "is_dir h p" and name: "valid_name n"
    and q: "store h q = Some e" "entry_name e = n" "q \<noteq> root" "\<And>p' n'. child h p' n' \<noteq> Some q"
  shows "heap_ok (set_child p n q h) root"
proof (rule heap_okI)
  fix r m s assume "child (set_child p n q h) r m = Some s"
  then have "child h r m = Some s \<or> (s = q \<and> m = n)" by (auto simp: child_set_child split: if_splits)
  then have "\<exists>e. store h s = Some e \<and> entry_name e = m"
    using heap_ok_child_entry [OF ok] q by blast
  then show "\<exists>e. store (set_child p n q h) s = Some e \<and> entry_name e = m"
    by (auto simp: set_child_def store_update_entry)
next
  fix r e' assume "store (set_child p n q h) r = Some e'"
  then obtain e0 where e0: "store h r = Some e0" "isDir e' = isDir e0"
    "children e' = (if r = p then map_put n q (children e0) else children e0)"
    by (auto simp: set_child_def store_update_entry split: if_splits)
  then show "r < next_ptr (set_child p n q h)" "map_ok (children e')"
    using heap_ok_bound [OF ok] heap_ok_map [OF ok]
    by (auto simp: next_set_child keep_intros)
  show "\<not> isDir e' \<Longrightarrow> children e' = []"
    using e0 dir heap_ok_leaf [OF ok] by (auto simp: is_dir_def split: if_splits)
qed (use ok name q is_dir_store [OF dir] in \<open>auto simp: child_set_child is_dir_set_child
      dest: heap_ok_root heap_ok_child_root heap_ok_child_valid heap_ok_unique split: if_splits\<close>)

lemma alloc_simps:
  assumes "alloc e h = (h', p)"
  shows "p = next_ptr h" "next_ptr h' = Suc (next_ptr h)" "store h' = (store h)(p \<mapsto> e)"
  using assms by (auto simp: alloc_def)

lemma alloc_child:
  assumes "heap_ok h root" "alloc e h = (h', p)" "children e = []"
  shows "child h' = child h"
proof (intro ext)
  fix q n
  show "child h' q n = child h q n"
    using heap_ok_fresh [OF assms(1)] assms alloc_simps [OF assms(2)]
    by (auto simp: child_def)
qed

lemma alloc_is_dir:
  assumes "alloc e h = (h', p)"
  shows "is_dir h' q = (if q = p then isDir e else is_dir h q)"
  using alloc_simps [OF assms] by (auto simp: is_dir_def)

lemma alloc_unreferenced:
  assumes "heap_ok h root" "alloc e h = (h', p)" "children e = []"
  shows "child h' q n \<noteq> Some p"
  using assms alloc_child [OF assms] alloc_simps [OF assms(2)] heap_ok_fresh [OF assms(1)]
    heap_ok_child_store [OF assms(1)]
  by metis

lemma alloc_not_root:
  assumes "heap_ok h root" "alloc e h = (h', p)"
  shows "p \<noteq> root"
  using assms is_dir_store [OF heap_ok_root [OF assms(1)]] heap_ok_fresh [OF assms(1)] alloc_simps [OF assms(2)]
  by auto

lemma heap_ok_alloc:
  assumes ok: "heap_ok h root" and a: "alloc e h = (h', p)" and "children e = []"
  shows "heap_ok h' root"
proof (rule heap_okI)
  fix q n r assume "child h' q n = Some r"
  then have "child h q n = Some r" using alloc_child [OF assms] by simp
  with heap_ok_child_entry [OF ok] obtain e' where "store h r = Some e'" "entry_name e' = n" by blast
  moreover have "r \<noteq> p" using calculation heap_ok_fresh [OF ok] alloc_simps [OF a] by auto
  ultimately show "\<exists>e. store h' r = Some e \<and> entry_name e = n"
    using alloc_simps [OF a] by simp
next
  fix q e' assume "store h' q = Some e'"
  then have "q = p \<and> e' = e \<or> store h q = Some e'" using alloc_simps [OF a] by (auto split: if_splits)
  then show "q < next_ptr h'" "map_ok (children e')" "\<not> isDir e' \<Longrightarrow> children e' = []"
    using alloc_simps [OF a] assms(3) heap_ok_bound [OF ok] heap_ok_map [OF ok] heap_ok_leaf [OF ok]
    by (auto simp: less_Suc_eq)
qed (use ok alloc_child [OF assms] alloc_is_dir [OF a] alloc_not_root [OF ok a] in
    \<open>auto dest: heap_ok_root heap_ok_child_root heap_ok_child_valid heap_ok_unique\<close>)

subsection \<open>Paths after an edit\<close>

lemma walk_set_modTime [heap_simps]: "walk (set_modTime now p h) = walk h"
  by (intro ext walk_cong) (simp add: child_set_modTime)

lemma walk_update_entry [heap_simps]:
  "(\<And>e. children (f e) = children e) \<Longrightarrow> walk (update_entry f p h) = walk h"
  by (intro ext walk_cong) (simp add: child_update_entry)

lemma walk_unlink:
  assumes ok: "heap_ok h root" and P: "walk h root pp = Some P"
  shows "walk (del_child P n h) root qs = (if prefix (pp @ [n]) qs then None else walk h root qs)"
proof (induction qs rule: rev_induct)
  case Nil
  then show ?case by simp
next
  case (snoc x qs)
  show ?case
  proof (cases "walk h root qs")
    case None
    then show ?thesis using snoc P by (auto simp: walk_snoc prefix_snoc_iff)
  next
    case (Some a)
    have "a = P \<longleftrightarrow> qs = pp" using Some P walk_inj [OF ok] by auto
    with Some snoc show ?thesis
      by (auto simp: walk_snoc prefix_snoc_iff child_del_child)
  qed
qed

lemma walk_graft_below:
  assumes "\<And>rs. walk h q rs \<noteq> Some P"
  shows "walk (set_child P n r h) q rs = walk h q rs"
proof (induction rs rule: rev_induct)
  case (snoc x rs)
  then show ?case
    using assms [of rs] by (auto simp: walk_snoc child_set_child split: option.splits)
qed simp

lemma walk_link_other:
  assumes ok: "heap_ok h root" and P: "walk h root pp = Some P"
  shows "\<not> prefix (pp @ [n]) qs \<Longrightarrow> walk (set_child P n q h) root qs = walk h root qs"
proof (induction qs rule: rev_induct)
  case (snoc x qs)
  then have IH: "walk (set_child P n q h) root qs = walk h root qs"
    by (simp add: prefix_snoc_iff)
  show ?case
  proof (cases "walk h root qs")
    case (Some a)
    have "a = P \<longleftrightarrow> qs = pp" using Some P walk_inj [OF ok] by auto
    with Some snoc.prems IH show ?thesis
      by (auto simp: walk_snoc child_set_child)
  qed (simp add: walk_snoc IH)
qed simp

lemma walk_link:
  assumes ok: "heap_ok h root" and P: "walk h root pp = Some P"
    and apart: "\<And>rs. walk h q rs \<noteq> Some P"
  shows "walk (set_child P n q h) root qs =
     (if prefix (pp @ [n]) qs then walk h q (drop (Suc (length pp)) qs) else walk h root qs)"
proof (cases "prefix (pp @ [n]) qs")
  case True
  then obtain rs where qs: "qs = (pp @ [n]) @ rs" by (auto simp: prefix_def)
  have "walk (set_child P n q h) root pp = Some P"
    using walk_link_other [OF ok P] P not_prefix_snoc_self by metis
  then have "walk (set_child P n q h) root (pp @ [n]) = Some q"
    using walk_store [OF ok P] by (simp add: walk_snoc child_set_child)
  then have "walk (set_child P n q h) root qs = walk (set_child P n q h) q rs"
    unfolding qs by (subst walk_append) simp
  then show ?thesis
    using True qs by (simp add: walk_graft_below [OF apart])
next
  case False
  then show ?thesis using walk_link_other [OF ok P] by simp
qed

subsection \<open>The namespace after an edit\<close>

definition prune :: "string list \<Rightarrow> namespace \<Rightarrow> namespace" where
  "prune ps m = (\<lambda>qs. if prefix ps qs then None else m qs)"

definition graft :: "string list \<Rightarrow> namespace \<Rightarrow> namespace \<Rightarrow> namespace" where
  "graft ps t m = (\<lambda>qs. if prefix ps qs then t (drop (length ps) qs) else m qs)"

definition on_path :: "string list \<Rightarrow> (entry \<Rightarrow> entry) \<Rightarrow> namespace \<Rightarrow> namespace" where
  "on_path ps f m = m(ps := map_option f (m ps))"

lemma view_del_child:
  assumes "heap_ok h root" "walk h root pp = Some P"
  shows "view (del_child P n h) root = prune (pp @ [n]) (view h root)"
  unfolding view_def attrs_at_del_child
  by (rule ext) (simp add: walk_unlink [OF assms] prune_def view_def)

lemma view_set_child:
  assumes "heap_ok h root" "walk h root pp = Some P" "\<And>rs. walk h q rs \<noteq> Some P"
  shows "view (set_child P n q h) root = graft (pp @ [n]) (view h q) (view h root)"
  unfolding view_def attrs_at_set_child
  by (rule ext) (simp add: walk_link [OF assms] graft_def view_def)

lemma view_update_entry:
  assumes ok: "heap_ok h root" and P: "walk h root pp = Some P"
    and "\<And>e. children (f e) = children e" "\<And>e. attrs (f e) = f (attrs e)"
  shows "view (update_entry f P h) root = on_path pp f (view h root)"
proof (rule ext)
  fix qs
  have "walk h root qs = Some P \<longleftrightarrow> qs = pp" using P walk_inj [OF ok] by auto
  then show "view (update_entry f P h) root qs = on_path pp f (view h root) qs"
    using P assms(3,4)
    by (auto simp: view_def on_path_def walk_update_entry attrs_at_update_entry split: option.splits)
qed

lemma view_set_modTime:
  assumes "heap_ok h root" "walk h root pp = Some P"
  shows "view (set_modTime now P h) root = on_path pp (\<lambda>e. e\<lparr>modTime := now\<rparr>) (view h root)"
  unfolding set_modTime_def by (rule view_update_entry) (use assms in \<open>auto simp: attrs_def\<close>)

lemma view_alloc:
  assumes ok: "heap_ok h root" and a: "alloc e h = (h', p)" and c: "children e = []"
  shows "view h' root = view h root"
    and "view h' p = (\<lambda>rs. if rs = [] then Some (attrs e) else None)"
proof -
  have w: "walk h' q rs = walk h q rs" for q rs
    by (rule walk_cong) (simp add: alloc_child [OF assms])
  have at: "attrs_at h' q = (if q = p then Some (attrs e) else attrs_at h q)" for q
    using alloc_simps [OF a] by (simp add: attrs_at_def)
  have "walk h root qs \<noteq> Some p" for qs
    using walk_store [OF ok] heap_ok_fresh [OF ok] alloc_simps [OF a] by metis
  then show "view h' root = view h root"
    by (intro ext) (auto simp: view_def w at split: option.splits)
  have "child h p n = None" for n
    using heap_ok_fresh [OF ok] alloc_simps [OF a] by (simp add: child_def)
  then have "walk h p rs = (if rs = [] then Some p else None)" for rs
    by (cases rs) auto
  then show "view h' p = (\<lambda>rs. if rs = [] then Some (attrs e) else None)"
    by (intro ext) (auto simp: view_def w at)
qed

lemma alloc_walk:
  assumes ok: "heap_ok h root" and a: "alloc e h = (h', p)" and c: "children e = []"
  shows "walk h' = walk h" and "walk h' p rs = (if rs = [] then Some p else None)"
proof -
  show w: "walk h' = walk h"
    by (intro ext walk_cong) (simp add: alloc_child [OF assms])
  have "child h p n = None" for n
    using heap_ok_fresh [OF ok] alloc_simps [OF a] by (simp add: child_def)
  then show "walk h' p rs = (if rs = [] then Some p else None)"
    unfolding w by (cases rs) auto
qed

text \<open>\<open>parent.children[name] = &entry{...}\<close>: one new node at the end of a path.\<close>

definition add_node :: "ptr \<Rightarrow> string \<Rightarrow> entry \<Rightarrow> entry_heap \<Rightarrow> entry_heap" where
  "add_node p n e h = (let (h, q) = alloc e h in set_child p n q h)"

lemma add_node_ok:
  assumes ok: "heap_ok h root" and P: "walk h root pp = Some P" and dir: "is_dir h P"
    and e: "children e = []" "entry_name e = n" and n: "valid_name n"
  shows "heap_ok (add_node P n e h) root"
    and "view (add_node P n e h) root =
           graft (pp @ [n]) (\<lambda>rs. if rs = [] then Some (attrs e) else None) (view h root)"
    and "walk (add_node P n e h) root pp = Some P"
    and "walk (add_node P n e h) root (pp @ [n]) = Some (next_ptr h)"
    and "is_dir (add_node P n e h) q = (if q = next_ptr h then isDir e else is_dir h q)"
proof -
  obtain h' p where a: "alloc e h = (h', p)" by (cases "alloc e h")
  then have def: "add_node P n e h = set_child P n p h'" by (simp add: add_node_def)
  note al = alloc_simps [OF a]
  have ok': "heap_ok h' root" by (rule heap_ok_alloc [OF ok a e(1)])
  have P': "walk h' root pp = Some P" using P alloc_walk [OF ok a e(1)] by simp
  have neq: "P \<noteq> p" using walk_store [OF ok P] heap_ok_fresh [OF ok] al by auto
  have apart: "walk h' p rs \<noteq> Some P" for rs
    using neq alloc_walk(2) [OF ok a e(1)] by simp
  show "heap_ok (add_node P n e h) root" unfolding def
    by (rule heap_ok_set_child [where e = e])
       (use ok' al e n dir neq alloc_is_dir [OF a] alloc_not_root [OF ok a]
          alloc_unreferenced [OF ok a e(1)] in auto)
  show "view (add_node P n e h) root =
      graft (pp @ [n]) (\<lambda>rs. if rs = [] then Some (attrs e) else None) (view h root)"
    unfolding def using view_set_child [OF ok' P' apart] view_alloc [OF ok a e(1)] by simp
  show "walk (add_node P n e h) root pp = Some P"
    unfolding def using walk_link_other [OF ok' P'] P' not_prefix_snoc_self by metis
  show "walk (add_node P n e h) root (pp @ [n]) = Some (next_ptr h)"
    unfolding def using walk_link [OF ok' P' apart] al(1) by simp
  show "is_dir (add_node P n e h) q = (if q = next_ptr h then isDir e else is_dir h q)"
    unfolding def using alloc_is_dir [OF a] al(1) by (simp add: is_dir_set_child)
qed

end
