(* ===== verification/Meta_Apply.thy ===== *)
theory Meta_Apply
  imports Tree_Edit
begin

section \<open>The metadata state machine: applying committed commands\<close>

text \<open>
  The state of a \<open>MetadataServer\<close> (\<open>internal/metadata/mds.go\<close>) and the functions of
  \<open>internal/metadata/apply.go\<close>, one definition per function, that change it when Raft
  delivers a committed command. A result pairs the state with the returned \<open>error\<close>,
  \<open>None\<close> for nil: the code could return an error after it has changed something, so the
  state is part of every result. \<open>now\<close> is what \<open>time.Now()\<close> returns in the call; every
  function reads the clock once. The mutex makes each call atomic; the logger and the handle
  of the Raft library are not part of the state.
\<close>

record commandPayload =
  p_Op :: string
  p_Path :: string
  p_Addr :: string
  p_Size :: int64
  p_Replicas :: "Replica list"
  p_IsDir :: bool
  p_CreateMode :: CreateMode
  p_FileID :: string
  p_DstPath :: string
  p_NewSize :: int64

definition empty_payload :: commandPayload where
  "empty_payload = \<lparr>p_Op = '''', p_Path = '''', p_Addr = '''', p_Size = 0, p_Replicas = [],
     p_IsDir = False, p_CreateMode = CreateIfNotExist, p_FileID = '''', p_DstPath = '''',
     p_NewSize = 0\<rparr>"

definition OpHeartbeat :: string where "OpHeartbeat = ''heartbeat''"
definition OpRemoveDataNode :: string where "OpRemoveDataNode = ''remove_dn''"
definition OpMkdir :: string where "OpMkdir = ''mkdir''"
definition OpCreateFile :: string where "OpCreateFile = ''create_file''"
definition OpCompleteFile :: string where "OpCompleteFile = ''complete_file''"
definition OpDelete :: string where "OpDelete = ''delete''"
definition OpRename :: string where "OpRename = ''rename''"
definition OpUpdateSize :: string where "OpUpdateSize = ''update_size''"

lemmas op_defs = OpHeartbeat_def OpRemoveDataNode_def OpMkdir_def OpCreateFile_def
  OpCompleteFile_def OpDelete_def OpRename_def OpUpdateSize_def

record MetadataServer =
  mds_heap :: entry_heap
  mds_root :: ptr
  dataNodes :: "string list"
  lastHeartbeat :: "(string, time) gomap"
  replicaCount :: int

type_synonym result = "MetadataServer \<times> fs_error option"

definition dir_entry :: "string \<Rightarrow> time \<Rightarrow> time \<Rightarrow> entry" where
  "dir_entry nm created modified =
     \<lparr>entry_name = nm, isDir = True, entry_size = 0, entry_mode = 493, createdAt = created,
      modTime = modified, entry_status = '''', fileID = '''', replicas = [], children = []\<rparr>"

text \<open>The state that \<open>NewMetadataServer\<close> starts from.\<close>

definition NewMetadataServer :: "time \<Rightarrow> time \<Rightarrow> MetadataServer" where
  "NewMetadataServer now1 now2 =
     \<lparr>mds_heap = \<lparr>store = [0 \<mapsto> dir_entry ''/'' now1 now2], next_ptr = 1\<rparr>, mds_root = 0,
      dataNodes = [], lastHeartbeat = [], replicaCount = 3\<rparr>"

definition lookup :: "MetadataServer \<Rightarrow> string \<Rightarrow> ptr option" where
  "lookup mds path = walk (mds_heap mds) (mds_root mds) (splitPath path)"

subsection \<open>Data nodes\<close>

definition applyHeartbeat :: "time \<Rightarrow> commandPayload \<Rightarrow> MetadataServer \<Rightarrow> result" where
  "applyHeartbeat now p mds =
     (let found = List.member (dataNodes mds) (p_Addr p);
          mds = (if \<not> found then mds\<lparr>dataNodes := dataNodes mds @ [p_Addr p]\<rparr> else mds)
      in (mds\<lparr>lastHeartbeat := map_put (p_Addr p) now (lastHeartbeat mds)\<rparr>, None))"

definition applyRemoveDataNode :: "commandPayload \<Rightarrow> MetadataServer \<Rightarrow> result" where
  "applyRemoveDataNode p mds =
     (mds\<lparr>dataNodes := remove1 (p_Addr p) (dataNodes mds),
          lastHeartbeat := map_del (p_Addr p) (lastHeartbeat mds)\<rparr>, None)"

subsection \<open>Directories and files\<close>

fun mkdir_loop :: "string \<Rightarrow> time \<Rightarrow> nat \<Rightarrow> string list \<Rightarrow> ptr \<Rightarrow> entry_heap \<Rightarrow> entry_heap \<times> fs_error option" where
  "mkdir_loop path now i [] current h = (h, None)"
| "mkdir_loop path now i (part # parts) current h =
     (case child h current part of
        None \<Rightarrow>
          (let (h, new) = alloc (dir_entry part now now) h;
               h = set_child current part new h;
               h = set_modTime now current h
           in mkdir_loop path now (Suc i) parts new h)
      | Some c \<Rightarrow>
          if \<not> is_dir h c then (h, Some (ErrNotADirectory path i part))
          else mkdir_loop path now (Suc i) parts c h)"

definition applyMkdir :: "time \<Rightarrow> commandPayload \<Rightarrow> MetadataServer \<Rightarrow> result" where
  "applyMkdir now p mds =
     (let parts = splitPath (p_Path p);
          (h, err) = mkdir_loop (p_Path p) now 0 parts (mds_root mds) (mds_heap mds)
      in (mds\<lparr>mds_heap := h\<rparr>, err))"

definition file_entry :: "string \<Rightarrow> int64 \<Rightarrow> time \<Rightarrow> time \<Rightarrow> string \<Rightarrow> Replica list \<Rightarrow> entry" where
  "file_entry nm sz created now fid reps =
     \<lparr>entry_name = nm, isDir = False, entry_size = sz, entry_mode = 420, createdAt = created,
      modTime = now, entry_status = StatusPending, fileID = fid, replicas = reps, children = []\<rparr>"

definition applyCreateFile :: "time \<Rightarrow> commandPayload \<Rightarrow> MetadataServer \<Rightarrow> result" where
  "applyCreateFile now p mds =
     (let parts = splitPath (p_Path p); h = mds_heap mds in
      if parts = [] then (mds, Some (ErrInvalidPath (p_Path p)))
      else
        (let dirParts = butlast parts; fileName = last parts in
         case find_dir h (mds_root mds) dirParts of
           None \<Rightarrow> (mds, Some (ErrParentNotFound (p_Path p)))
         | Some current \<Rightarrow>
             (let existing = (case child h current fileName of None \<Rightarrow> None | Some c \<Rightarrow> store h c) in
              case existing of
                Some e \<Rightarrow>
                  if isDir e then (mds, Some (ErrIsDirectoryCreate (p_Path p)))
                  else if p_CreateMode p \<noteq> OverwriteIfExists then (mds, Some (ErrFileExists (p_Path p)))
                  else (mds\<lparr>mds_heap := set_modTime now current
                          (add_node current fileName
                             (file_entry fileName (p_Size p) (createdAt e) now (fileID e) (p_Replicas p)) h)\<rparr>, None)
              | None \<Rightarrow>
                  (mds\<lparr>mds_heap := set_modTime now current
                          (add_node current fileName
                             (file_entry fileName (p_Size p) now now (p_FileID p) (p_Replicas p)) h)\<rparr>, None))))"

definition applyCompleteFile :: "time \<Rightarrow> commandPayload \<Rightarrow> MetadataServer \<Rightarrow> result" where
  "applyCompleteFile now p mds =
     (case lookup mds (p_Path p) of
        None \<Rightarrow> (mds, Some (ErrPathNotFound (p_Path p)))
      | Some e \<Rightarrow>
          if is_dir (mds_heap mds) e then (mds, Some (ErrIsDirectoryComplete (p_Path p)))
          else (mds\<lparr>mds_heap := update_entry
                  (\<lambda>e. e\<lparr>entry_status := StatusComplete, modTime := now\<rparr>) e (mds_heap mds)\<rparr>, None))"

definition applyDelete :: "time \<Rightarrow> commandPayload \<Rightarrow> MetadataServer \<Rightarrow> result" where
  "applyDelete now p mds =
     (let parts = splitPath (p_Path p); h = mds_heap mds in
      if parts = [] then (mds, Some ErrDeleteRoot)
      else
        (let dirParts = butlast parts; fileName = last parts in
         case find_dir h (mds_root mds) dirParts of
           None \<Rightarrow> (mds, Some (ErrPathNotFound (p_Path p)))
         | Some current \<Rightarrow>
             if child h current fileName = None then (mds, Some (ErrPathNotFound (p_Path p)))
             else (mds\<lparr>mds_heap := set_modTime now current (del_child current fileName h)\<rparr>, None)))"

text \<open>
  The walk along the destination's parents that looks for the moved directory: the last node
  reached, and whether the loop stopped on the source.
\<close>

fun ancestor_loop :: "entry_heap \<Rightarrow> ptr \<Rightarrow> ptr \<Rightarrow> string list \<Rightarrow> ptr \<times> bool" where
  "ancestor_loop h srcEntry ancestor [] = (ancestor, False)"
| "ancestor_loop h srcEntry ancestor (part # parts) =
     (if ancestor = srcEntry then (ancestor, True)
      else case child h ancestor part of
             None \<Rightarrow> (ancestor, False)
           | Some c \<Rightarrow> if \<not> is_dir h c then (ancestor, False) else ancestor_loop h srcEntry c parts)"

definition in_own_subtree :: "entry_heap \<Rightarrow> ptr \<Rightarrow> ptr \<Rightarrow> string list \<Rightarrow> bool" where
  "in_own_subtree h root srcEntry dstDirParts =
     (is_dir h srcEntry \<and>
      (let (ancestor, found) = ancestor_loop h srcEntry root dstDirParts in found \<or> ancestor = srcEntry))"

definition move_entry :: "time \<Rightarrow> ptr \<Rightarrow> string \<Rightarrow> ptr \<Rightarrow> ptr \<Rightarrow> string \<Rightarrow> entry_heap \<Rightarrow> entry_heap" where
  "move_entry now srcParent srcFileName srcEntry dstParent dstFileName h =
     (let h = (if child h dstParent dstFileName \<noteq> None then del_child dstParent dstFileName h else h);
          h = del_child srcParent srcFileName h;
          h = update_entry (\<lambda>e. e\<lparr>entry_name := dstFileName\<rparr>) srcEntry h;
          h = set_child dstParent dstFileName srcEntry h;
          h = set_modTime now srcParent h;
          h = set_modTime now dstParent h
      in set_modTime now srcEntry h)"

definition applyRename :: "time \<Rightarrow> commandPayload \<Rightarrow> MetadataServer \<Rightarrow> result" where
  "applyRename now p mds =
     (let srcParts = splitPath (p_Path p); dstParts = splitPath (p_DstPath p);
          h = mds_heap mds; root = mds_root mds in
      if srcParts = [] \<or> dstParts = [] then (mds, Some (ErrInvalidRename (p_Path p) (p_DstPath p)))
      else
        (let srcFileName = last srcParts; dstFileName = last dstParts;
             srcDirParts = butlast srcParts; dstDirParts = butlast dstParts in
         case find_dir h root srcDirParts of
           None \<Rightarrow> (mds, Some (ErrSourceNotFound (p_Path p)))
         | Some srcParent \<Rightarrow>
         (case child h srcParent srcFileName of
           None \<Rightarrow> (mds, Some (ErrSourceNotFound (p_Path p)))
         | Some srcEntry \<Rightarrow>
             if in_own_subtree h root srcEntry dstDirParts
             then (mds, Some (ErrOwnSubtree (p_Path p) (p_DstPath p)))
             else
         (case find_dir h root dstDirParts of
           None \<Rightarrow> (mds, Some (ErrDstParentNotFound (p_DstPath p)))
         | Some dstParent \<Rightarrow>
             (case child h dstParent dstFileName of
                Some dstEntry \<Rightarrow>
                  if is_dir h dstEntry then (mds, Some (ErrDstIsDirectory (p_DstPath p)))
                  else (mds\<lparr>mds_heap := move_entry now srcParent srcFileName srcEntry dstParent dstFileName h\<rparr>, None)
              | None \<Rightarrow>
                  (mds\<lparr>mds_heap := move_entry now srcParent srcFileName srcEntry dstParent dstFileName h\<rparr>, None))))))"

definition applyUpdateSize :: "time \<Rightarrow> commandPayload \<Rightarrow> MetadataServer \<Rightarrow> result" where
  "applyUpdateSize now p mds =
     (case lookup mds (p_Path p) of
        None \<Rightarrow> (mds, Some (ErrPathNotFound (p_Path p)))
      | Some e \<Rightarrow>
          if is_dir (mds_heap mds) e then (mds, Some (ErrIsDirectoryUpdateSize (p_Path p)))
          else (mds\<lparr>mds_heap := update_entry
                  (\<lambda>e. e\<lparr>entry_size := p_NewSize p, modTime := now\<rparr>) e (mds_heap mds)\<rparr>, None))"

text \<open>The dispatch of \<open>Apply\<close> (\<open>state_machine.go\<close>), on a decoded payload.\<close>

definition apply_payload :: "time \<Rightarrow> string \<Rightarrow> commandPayload \<Rightarrow> MetadataServer \<Rightarrow> result" where
  "apply_payload now op p mds =
     (if op = OpHeartbeat then applyHeartbeat now p mds
      else if op = OpRemoveDataNode then applyRemoveDataNode p mds
      else if op = OpMkdir then applyMkdir now p mds
      else if op = OpCreateFile then applyCreateFile now p mds
      else if op = OpCompleteFile then applyCompleteFile now p mds
      else if op = OpDelete then applyDelete now p mds
      else if op = OpRename then applyRename now p mds
      else if op = OpUpdateSize then applyUpdateSize now p mds
      else (mds, Some (ErrUnknownOp op)))"

abbreviation mds_ok :: "MetadataServer \<Rightarrow> bool" where
  "mds_ok mds \<equiv> heap_ok (mds_heap mds) (mds_root mds)"

abbreviation mds_view :: "MetadataServer \<Rightarrow> namespace" where
  "mds_view mds \<equiv> view (mds_heap mds) (mds_root mds)"

lemma NewMetadataServer_ok: "mds_ok (NewMetadataServer now1 now2)"
  by (rule heap_okI)
     (auto simp: NewMetadataServer_def is_dir_def child_def dir_entry_def split: if_splits option.splits)

end
