(* ===== verification/Namespace_Spec.thy ===== *)
theory Namespace_Spec
  imports Meta_Apply
begin

section \<open>The abstract namespace and the refinement\<close>

text \<open>
  The contract of the state machine, without pointers: a \<open>namespace\<close> maps a path, a list of
  names, to the attributes of the entry there. Each operation is a function on namespaces with
  the errors it reports. The refinement lemmas say that the code on the heap computes exactly
  these functions, errors included, and keeps the heap a tree.
\<close>

definition touch :: "time \<Rightarrow> string list \<Rightarrow> namespace \<Rightarrow> namespace" where
  "touch now ps m = on_path ps (\<lambda>e. e\<lparr>modTime := now\<rparr>) m"

fun spec_mkdir_loop ::
  "string \<Rightarrow> time \<Rightarrow> nat \<Rightarrow> string list \<Rightarrow> string list \<Rightarrow> namespace \<Rightarrow> namespace \<times> fs_error option" where
  "spec_mkdir_loop path now i at [] m = (m, None)"
| "spec_mkdir_loop path now i at (part # parts) m =
     (case m (at @ [part]) of
        None \<Rightarrow> spec_mkdir_loop path now (Suc i) (at @ [part]) parts
                  (touch now at (m(at @ [part] \<mapsto> dir_entry part now now)))
      | Some e \<Rightarrow>
          if \<not> isDir e then (m, Some (ErrNotADirectory path i part))
          else spec_mkdir_loop path now (Suc i) (at @ [part]) parts m)"

definition spec_mkdir :: "time \<Rightarrow> commandPayload \<Rightarrow> namespace \<Rightarrow> namespace \<times> fs_error option" where
  "spec_mkdir now p m = spec_mkdir_loop (p_Path p) now 0 [] (splitPath (p_Path p)) m"

definition spec_create :: "time \<Rightarrow> commandPayload \<Rightarrow> namespace \<Rightarrow> namespace \<times> fs_error option" where
  "spec_create now p m =
     (let ps = splitPath (p_Path p) in
      if ps = [] then (m, Some (ErrInvalidPath (p_Path p)))
      else if \<not> dir_at m (butlast ps) then (m, Some (ErrParentNotFound (p_Path p)))
      else case m ps of
             None \<Rightarrow> (touch now (butlast ps)
               (m(ps \<mapsto> file_entry (last ps) (p_Size p) now now (p_FileID p) (p_Replicas p))), None)
           | Some e \<Rightarrow>
               if isDir e then (m, Some (ErrIsDirectoryCreate (p_Path p)))
               else if p_CreateMode p \<noteq> OverwriteIfExists then (m, Some (ErrFileExists (p_Path p)))
               else (touch now (butlast ps)
                 (m(ps \<mapsto> file_entry (last ps) (p_Size p) (createdAt e) now (fileID e) (p_Replicas p))), None))"

definition spec_complete :: "time \<Rightarrow> commandPayload \<Rightarrow> namespace \<Rightarrow> namespace \<times> fs_error option" where
  "spec_complete now p m =
     (let ps = splitPath (p_Path p) in
      case m ps of
        None \<Rightarrow> (m, Some (ErrPathNotFound (p_Path p)))
      | Some e \<Rightarrow>
          if isDir e then (m, Some (ErrIsDirectoryComplete (p_Path p)))
          else (m(ps \<mapsto> e\<lparr>entry_status := StatusComplete, modTime := now\<rparr>), None))"

definition spec_delete :: "time \<Rightarrow> commandPayload \<Rightarrow> namespace \<Rightarrow> namespace \<times> fs_error option" where
  "spec_delete now p m =
     (let ps = splitPath (p_Path p) in
      if ps = [] then (m, Some ErrDeleteRoot)
      else if m ps = None then (m, Some (ErrPathNotFound (p_Path p)))
      else (touch now (butlast ps) (prune ps m), None))"

definition moved :: "string list \<Rightarrow> string list \<Rightarrow> namespace \<Rightarrow> namespace" where
  "moved src dst m =
     graft dst (on_path [] (\<lambda>e. e\<lparr>entry_name := last dst\<rparr>) (\<lambda>rs. m (src @ rs)))
       (prune src (prune dst m))"

definition spec_rename :: "time \<Rightarrow> commandPayload \<Rightarrow> namespace \<Rightarrow> namespace \<times> fs_error option" where
  "spec_rename now p m =
     (let src = splitPath (p_Path p); dst = splitPath (p_DstPath p) in
      if src = [] \<or> dst = [] then (m, Some (ErrInvalidRename (p_Path p) (p_DstPath p)))
      else if m src = None then (m, Some (ErrSourceNotFound (p_Path p)))
      else if dir_at m src \<and> prefix src (butlast dst)
        then (m, Some (ErrOwnSubtree (p_Path p) (p_DstPath p)))
      else if \<not> dir_at m (butlast dst) then (m, Some (ErrDstParentNotFound (p_DstPath p)))
      else if dir_at m dst then (m, Some (ErrDstIsDirectory (p_DstPath p)))
      else (touch now dst (touch now (butlast dst) (touch now (butlast src) (moved src dst m))), None))"

definition spec_update_size :: "time \<Rightarrow> commandPayload \<Rightarrow> namespace \<Rightarrow> namespace \<times> fs_error option" where
  "spec_update_size now p m =
     (let ps = splitPath (p_Path p) in
      case m ps of
        None \<Rightarrow> (m, Some (ErrPathNotFound (p_Path p)))
      | Some e \<Rightarrow>
          if isDir e then (m, Some (ErrIsDirectoryUpdateSize (p_Path p)))
          else (m(ps \<mapsto> e\<lparr>entry_size := p_NewSize p, modTime := now\<rparr>), None))"

subsection \<open>Namespaces of trees\<close>

lemma parent_step:
  assumes "heap_ok h root" "find_dir h root dp = Some P"
  shows "walk h root dp = Some P" "is_dir h P" "walk h root (dp @ [n]) = child h P n"
    "view h root (dp @ [n]) = (case child h P n of None \<Rightarrow> None | Some c \<Rightarrow> attrs_at h c)"
  using find_dir_walk [OF assms(2)] find_dir_is_dir [OF assms(2)] heap_ok_root [OF assms(1)]
  by (auto simp: walk_snoc view_def)

lemma dir_at_parent: "heap_ok h root \<Longrightarrow> view h root (dp @ [n]) \<noteq> None \<Longrightarrow> dir_at (view h root) dp"
  using walk_parent_dir [of h root dp n "[]"]
  by (auto simp: dir_at_view view_def split: option.splits)

lemma view_below: "heap_ok h root \<Longrightarrow> \<not> dir_at (view h root) ps \<Longrightarrow> view h root (ps @ k # rs) = None"
  using walk_parent_dir [of h root ps k rs]
  by (auto simp: dir_at_view view_def split: option.splits)

lemma graft_single:
  assumes "\<And>k rs. m (ps @ k # rs) = None"
  shows "graft ps (\<lambda>rs. if rs = [] then Some e else None) m = m(ps \<mapsto> e)"
proof (rule ext)
  fix qs
  show "graft ps (\<lambda>rs. if rs = [] then Some e else None) m qs = (m(ps \<mapsto> e)) qs"
  proof (cases "prefix ps qs")
    case True
    then obtain rs where "qs = ps @ rs" by (auto simp: prefix_def)
    then show ?thesis using assms by (cases rs) (auto simp: graft_def)
  qed (auto simp: graft_def)
qed

lemma prune_None:
  assumes "\<And>rs. m (ps @ rs) = None"
  shows "prune ps m = m"
  using assms by (auto simp: prune_def prefix_def fun_eq_iff)

lemma add_file_refines:
  assumes ok: "heap_ok h root" and P: "walk h root dp = Some P" "is_dir h P"
    and nd: "\<not> dir_at (view h root) (dp @ [n])" and n: "valid_name n"
    and e: "children e = []" "entry_name e = n"
  shows "heap_ok (set_modTime now P (add_node P n e h)) root"
    and "view (set_modTime now P (add_node P n e h)) root = touch now dp ((view h root)(dp @ [n] \<mapsto> e))"
proof -
  note add = add_node_ok [OF ok P e n]
  show "heap_ok (set_modTime now P (add_node P n e h)) root"
    by (rule heap_ok_set_modTime [OF add(1)])
  have at: "attrs e = e" using e by (simp add: attrs_def)
  have "view (add_node P n e h) root = (view h root)(dp @ [n] \<mapsto> e)"
    using add(2) unfolding at by (rule trans) (intro graft_single view_below [OF ok nd])
  then show "view (set_modTime now P (add_node P n e h)) root =
      touch now dp ((view h root)(dp @ [n] \<mapsto> e))"
    using view_set_modTime [OF add(1,3)] by (simp add: touch_def)
qed

subsection \<open>Directories\<close>

lemma mkdir_loop_refines:
  assumes "heap_ok h root" "walk h root at = Some cur" "is_dir h cur" "list_all valid_name parts"
    and "mkdir_loop path now i parts cur h = (h', err)"
  shows "heap_ok h' root \<and> (view h' root, err) = spec_mkdir_loop path now i at parts (view h root)"
  using assms
proof (induction parts arbitrary: i at cur h)
  case Nil
  then show ?case by simp
next
  case (Cons part parts)
  note ok = Cons.prems(1) and cur = Cons.prems(2,3)
  have vn: "valid_name part" using Cons.prems(4) by simp
  have step: "view h root (at @ [part]) = (case child h cur part of None \<Rightarrow> None | Some c \<Rightarrow> attrs_at h c)"
    using cur(1) by (simp add: view_def walk_snoc)
  show ?case
  proof (cases "child h cur part")
    case None
    let ?e = "dir_entry part now now"
    let ?h = "set_modTime now cur (add_node cur part ?e h)"
    have e: "children ?e = []" "entry_name ?e = part" "isDir ?e" by (simp_all add: dir_entry_def)
    note add = add_node_ok [OF ok cur e(1,2) vn]
    have nd: "\<not> dir_at (view h root) (at @ [part])" using None step by (simp add: dir_at_def)
    note new = add_file_refines [OF ok cur nd vn e(1,2), of now]
    have "mkdir_loop path now i (part # parts) cur h =
        mkdir_loop path now (Suc i) parts (next_ptr h) ?h"
      using None by (simp add: add_node_def alloc_def Let_def)
    moreover have "walk ?h root (at @ [part]) = Some (next_ptr h)" "is_dir ?h (next_ptr h)"
      using add(4,5) e vn by (simp_all add: walk_set_modTime is_dir_set_modTime)
    moreover have "view h root (at @ [part]) = None" using None step by simp
    ultimately show ?thesis
      using Cons.IH [of ?h "at @ [part]" "next_ptr h" "Suc i"] Cons.prems new by simp
  next
    case (Some c)
    then obtain e where e: "store h c = Some e" using heap_ok_child_store [OF ok Some] by blast
    then have at: "view h root (at @ [part]) = Some (attrs e)" and d: "is_dir h c = isDir e"
      using step Some by (simp_all add: attrs_at_def is_dir_def)
    show ?thesis
    proof (cases "isDir e")
      case True
      have "walk h root (at @ [part]) = Some c" using Some cur by (simp add: walk_snoc)
      then show ?thesis
        using Cons.IH [of h "at @ [part]" c "Suc i"] Cons.prems Some at d True by simp
    next
      case False
      then show ?thesis using Cons.prems Some at d by auto
    qed
  qed
qed

lemma applyMkdir_refines:
  assumes ok: "mds_ok mds" and run: "applyMkdir now p mds = (mds', err)"
  shows "mds_ok mds' \<and> (mds_view mds', err) = spec_mkdir now p (mds_view mds)
    \<and> mds' = mds\<lparr>mds_heap := mds_heap mds'\<rparr>"
proof -
  obtain h' where loop: "mkdir_loop (p_Path p) now 0 (splitPath (p_Path p)) (mds_root mds) (mds_heap mds) = (h', err)"
    and mds': "mds' = mds\<lparr>mds_heap := h'\<rparr>"
    using run by (auto simp: applyMkdir_def Let_def split: prod.splits)
  have "heap_ok h' (mds_root mds) \<and>
      (view h' (mds_root mds), err) = spec_mkdir_loop (p_Path p) now 0 [] (splitPath (p_Path p)) (mds_view mds)"
    by (rule mkdir_loop_refines [OF ok _ _ _ loop])
       (simp_all add: heap_ok_root [OF ok] splitPath_list_all)
  then show ?thesis by (simp add: mds' spec_mkdir_def)
qed

subsection \<open>Files\<close>

lemma applyCreateFile_refines:
  assumes ok: "mds_ok mds" and run: "applyCreateFile now p mds = (mds', err)"
  shows "mds_ok mds' \<and> (mds_view mds', err) = spec_create now p (mds_view mds)
    \<and> mds' = mds\<lparr>mds_heap := mds_heap mds'\<rparr>"
proof (cases "splitPath (p_Path p) = []")
  case True
  with assms show ?thesis by (auto simp: applyCreateFile_def spec_create_def)
next
  case ne: False
  let ?h = "mds_heap mds" and ?root = "mds_root mds"
  obtain dp n where ps: "splitPath (p_Path p) = dp @ [n]" using ne by (rule snoc_cases)
  have vn: "valid_name n" using splitPath_valid [of n "p_Path p"] ps by simp
  note fd = find_dir_view [OF ok, of dp]
  show ?thesis
  proof (cases "find_dir ?h ?root dp")
    case None
    with run fd ps ok show ?thesis by (auto simp: applyCreateFile_def spec_create_def)
  next
    case (Some P)
    note st = parent_step(1,2) [OF ok Some] parent_step(3,4) [OF ok Some, of n]
    have dir: "dir_at (mds_view mds) dp" using fd Some by simp
    show ?thesis
    proof (cases "child ?h P n")
      case None
      then have v: "mds_view mds (dp @ [n]) = None" using st by simp
      then have nd: "\<not> dir_at (mds_view mds) (dp @ [n])" by (simp add: dir_at_def)
      note add = add_file_refines [OF ok st(1,2) nd vn]
      show ?thesis
        using run ps Some None v dir
        by (auto simp: applyCreateFile_def spec_create_def file_entry_def intro!: add)
    next
      case (Some c)
      then obtain e where e: "store ?h c = Some e" using heap_ok_child_store [OF ok] by blast
      then have v: "mds_view mds (dp @ [n]) = Some (attrs e)" using st Some by (simp add: attrs_at_def)
      show ?thesis
      proof (cases "isDir e \<or> p_CreateMode p \<noteq> OverwriteIfExists")
        case True
        then show ?thesis
          using run ps \<open>find_dir ?h ?root dp = Some P\<close> Some e v dir ok
          by (auto simp: applyCreateFile_def spec_create_def split: if_splits)
      next
        case False
        then have nd: "\<not> dir_at (mds_view mds) (dp @ [n])" using v by (simp add: dir_at_def)
        note add = add_file_refines [OF ok st(1,2) nd vn]
        show ?thesis
          using run ps \<open>find_dir ?h ?root dp = Some P\<close> Some e v dir False
          by (auto simp: applyCreateFile_def spec_create_def file_entry_def intro!: add)
      qed
    qed
  qed
qed

lemma lookup_view:
  assumes ok: "mds_ok mds"
  shows "(case lookup mds path of
            None \<Rightarrow> mds_view mds (splitPath path) = None
          | Some q \<Rightarrow> walk (mds_heap mds) (mds_root mds) (splitPath path) = Some q \<and>
             (\<exists>e. store (mds_heap mds) q = Some e \<and> mds_view mds (splitPath path) = Some (attrs e)))"
  using walk_store [OF ok, of "splitPath path"]
  by (auto simp: lookup_def view_def attrs_at_def split: option.splits)

lemma update_file_refines:
  assumes ok: "mds_ok mds" and w: "walk (mds_heap mds) (mds_root mds) ps = Some q"
    and v: "mds_view mds ps = Some (attrs e)"
    and f: "\<And>e. children (f e) = children e" "\<And>e. isDir (f e) = isDir e"
      "\<And>e. entry_name (f e) = entry_name e" "\<And>e. attrs (f e) = f (attrs e)"
  shows "heap_ok (update_entry f q (mds_heap mds)) (mds_root mds)"
    and "view (update_entry f q (mds_heap mds)) (mds_root mds) = (mds_view mds)(ps \<mapsto> f (attrs e))"
proof -
  show "heap_ok (update_entry f q (mds_heap mds)) (mds_root mds)"
    by (rule heap_ok_update_entry [OF ok]) (simp_all add: f)
  have "view (update_entry f q (mds_heap mds)) (mds_root mds) = on_path ps f (mds_view mds)"
    by (rule view_update_entry [OF ok w]) (simp_all add: f)
  then show "view (update_entry f q (mds_heap mds)) (mds_root mds) = (mds_view mds)(ps \<mapsto> f (attrs e))"
    by (simp add: on_path_def v)
qed

lemma applyCompleteFile_refines:
  assumes ok: "mds_ok mds" and run: "applyCompleteFile now p mds = (mds', err)"
  shows "mds_ok mds' \<and> (mds_view mds', err) = spec_complete now p (mds_view mds)
    \<and> mds' = mds\<lparr>mds_heap := mds_heap mds'\<rparr>"
proof (cases "lookup mds (p_Path p)")
  case None
  with run lookup_view [OF ok, of "p_Path p"] ok show ?thesis
    by (auto simp: applyCompleteFile_def spec_complete_def)
next
  case (Some q)
  with lookup_view [OF ok, of "p_Path p"] obtain e where
    e: "walk (mds_heap mds) (mds_root mds) (splitPath (p_Path p)) = Some q" "store (mds_heap mds) q = Some e"
      "mds_view mds (splitPath (p_Path p)) = Some (attrs e)" by auto
  let ?f = "\<lambda>e. e\<lparr>entry_status := StatusComplete, modTime := now\<rparr>"
  have up: "heap_ok (update_entry ?f q (mds_heap mds)) (mds_root mds)"
    "view (update_entry ?f q (mds_heap mds)) (mds_root mds) =
      (mds_view mds)(splitPath (p_Path p) \<mapsto> ?f (attrs e))"
    by (rule update_file_refines [OF ok e(1,3)]; simp add: attrs_def)+
  show ?thesis
    using run Some e ok
    by (auto simp: applyCompleteFile_def spec_complete_def is_dir_def up
        split: if_splits)
qed

lemma applyUpdateSize_refines:
  assumes ok: "mds_ok mds" and run: "applyUpdateSize now p mds = (mds', err)"
  shows "mds_ok mds' \<and> (mds_view mds', err) = spec_update_size now p (mds_view mds)
    \<and> mds' = mds\<lparr>mds_heap := mds_heap mds'\<rparr>"
proof (cases "lookup mds (p_Path p)")
  case None
  with run lookup_view [OF ok, of "p_Path p"] ok show ?thesis
    by (auto simp: applyUpdateSize_def spec_update_size_def)
next
  case (Some q)
  with lookup_view [OF ok, of "p_Path p"] obtain e where
    e: "walk (mds_heap mds) (mds_root mds) (splitPath (p_Path p)) = Some q" "store (mds_heap mds) q = Some e"
      "mds_view mds (splitPath (p_Path p)) = Some (attrs e)" by auto
  let ?f = "\<lambda>e. e\<lparr>entry_size := p_NewSize p, modTime := now\<rparr>"
  have up: "heap_ok (update_entry ?f q (mds_heap mds)) (mds_root mds)"
    "view (update_entry ?f q (mds_heap mds)) (mds_root mds) =
      (mds_view mds)(splitPath (p_Path p) \<mapsto> ?f (attrs e))"
    by (rule update_file_refines [OF ok e(1,3)]; simp add: attrs_def)+
  show ?thesis
    using run Some e ok
    by (auto simp: applyUpdateSize_def spec_update_size_def is_dir_def up
        split: if_splits)
qed

lemma applyDelete_refines:
  assumes ok: "mds_ok mds" and run: "applyDelete now p mds = (mds', err)"
  shows "mds_ok mds' \<and> (mds_view mds', err) = spec_delete now p (mds_view mds)
    \<and> mds' = mds\<lparr>mds_heap := mds_heap mds'\<rparr>"
proof (cases "splitPath (p_Path p) = []")
  case True
  with assms show ?thesis by (auto simp: applyDelete_def spec_delete_def)
next
  case ne: False
  let ?h = "mds_heap mds" and ?root = "mds_root mds"
  obtain dp n where ps: "splitPath (p_Path p) = dp @ [n]" using ne by (rule snoc_cases)
  note fd = find_dir_view [OF ok, of dp]
  show ?thesis
  proof (cases "find_dir ?h ?root dp")
    case None
    with fd have "\<not> dir_at (mds_view mds) dp" by simp
    then have "mds_view mds (dp @ [n]) = None" using dir_at_parent [OF ok, of dp n] by blast
    with run None ps ok show ?thesis by (auto simp: applyDelete_def spec_delete_def)
  next
    case (Some P)
    note st = parent_step(1,2) [OF ok Some] parent_step(3,4) [OF ok Some, of n]
    show ?thesis
    proof (cases "child ?h P n")
      case None
      with st run ps Some ok show ?thesis by (auto simp: applyDelete_def spec_delete_def)
    next
      case c: (Some c)
      let ?h' = "set_modTime now P (del_child P n ?h)"
      have ok1: "heap_ok (del_child P n ?h) ?root" by (rule heap_ok_del_child [OF ok])
      have w1: "walk (del_child P n ?h) ?root dp = Some P"
        using walk_unlink [OF ok st(1)] st(1) not_prefix_snoc_self by metis
      have "view ?h' ?root = touch now dp (prune (dp @ [n]) (mds_view mds))"
        using view_set_modTime [OF ok1 w1] view_del_child [OF ok st(1)] by (simp add: touch_def)
      moreover have "mds_view mds (dp @ [n]) \<noteq> None"
        using c st heap_ok_child_store [OF ok c] by (auto simp: attrs_at_def)
      ultimately show ?thesis
        using run ps Some c heap_ok_set_modTime [OF ok1]
        by (auto simp: applyDelete_def spec_delete_def)
    qed
  qed
qed

end
