(* ===== verification/Rename_Move.thy ===== *)
theory Rename_Move
  imports Namespace_Spec
begin

section \<open>Rename: moving a node by pointer\<close>

text \<open>
  \<open>applyRename\<close> unlinks the source entry and links the same pointer under its new parent. The
  check that the destination does not lie inside a moved directory is what keeps the moved
  subtree reachable; it compares pointers along the destination's parents, and is shown to
  decide the prefix order of the two paths. \<open>applyRename\<close> then refines \<open>spec_rename\<close>.
\<close>

subsection \<open>The check for the directory's own subtree\<close>

lemma ancestor_loop_sound:
  "ancestor_loop h E a parts = (anc, found) \<Longrightarrow> found \<or> anc = E \<Longrightarrow>
   \<exists>xs. prefix xs parts \<and> walk h a xs = Some E"
proof (induction parts arbitrary: a)
  case Nil
  then show ?case by (auto intro: exI [of _ "[]"])
next
  case (Cons part parts)
  show ?case
  proof (cases "a = E")
    case True
    then show ?thesis by (auto intro: exI [of _ "[]"])
  next
    case False
    with Cons.prems obtain c where "child h a part = Some c" "ancestor_loop h E c parts = (anc, found)"
      by (auto split: option.splits if_splits)
    with Cons.IH Cons.prems(2) obtain xs where "prefix xs parts" "walk h c xs = Some E" by blast
    with \<open>child h a part = Some c\<close> show ?thesis by (auto intro!: exI [of _ "part # xs"])
  qed
qed

lemma ancestor_loop_complete:
  assumes "heap_ok h root" "is_dir h E" "walk h a xs = Some E" "prefix xs parts"
    and "ancestor_loop h E a parts = (anc, found)"
  shows "found \<or> anc = E"
  using assms(3-5)
proof (induction parts arbitrary: a xs)
  case Nil
  then show ?case by auto
next
  case (Cons part parts)
  show ?case
  proof (cases "a = E")
    case True
    with Cons.prems show ?thesis by simp
  next
    case False
    with Cons.prems obtain xs' where xs: "xs = part # xs'" "prefix xs' parts"
      by (cases xs) auto
    with Cons.prems obtain c where c: "child h a part = Some c" "walk h c xs' = Some E"
      by (auto split: option.splits)
    then have "find_dir h c xs' = Some E" "is_dir h c"
      using walk_find_dir [OF assms(1) c(2) assms(2)] assms(1,2)
      by (cases xs'; auto dest: heap_ok_child_dir split: option.splits)+
    with Cons.IH [OF c(2) xs(2)] Cons.prems(3) c(1) False show ?thesis by simp
  qed
qed

lemma in_own_subtree_iff:
  assumes ok: "heap_ok h root" and E: "walk h root src = Some E"
  shows "in_own_subtree h root E dp \<longleftrightarrow> is_dir h E \<and> prefix src dp"
proof -
  obtain anc found where l: "ancestor_loop h E root dp = (anc, found)" by (cases "ancestor_loop h E root dp")
  have "found \<or> anc = E \<longleftrightarrow> prefix src dp" if d: "is_dir h E"
  proof
    assume "found \<or> anc = E"
    then obtain xs where "prefix xs dp" "walk h root xs = Some E" using ancestor_loop_sound [OF l] by blast
    then show "prefix src dp" using walk_inj [OF ok E] by auto
  next
    assume "prefix src dp"
    then show "found \<or> anc = E" by (rule ancestor_loop_complete [OF ok d E _ l])
  qed
  then show ?thesis using l by (auto simp: in_own_subtree_def)
qed

subsection \<open>The move\<close>

lemma heap_ok_rename_detached:
  assumes ok: "heap_ok h root" and free: "\<And>p n. child h p n \<noteq> Some E"
  shows "heap_ok (update_entry (\<lambda>e. e\<lparr>entry_name := dn\<rparr>) E h) root"
proof (rule heap_okI)
  fix q n r assume "child (update_entry (\<lambda>e. e\<lparr>entry_name := dn\<rparr>) E h) q n = Some r"
  then have c: "child h q n = Some r" by (simp add: child_update_entry)
  then have "r \<noteq> E" using free by auto
  with heap_ok_child_entry [OF ok c]
  show "\<exists>e. store (update_entry (\<lambda>e. e\<lparr>entry_name := dn\<rparr>) E h) r = Some e \<and> entry_name e = n"
    by (simp add: store_update_entry)
qed (use ok in \<open>auto simp: store_update_entry next_update_entry child_update_entry is_dir_update_entry
      dest: heap_ok_root heap_ok_bound heap_ok_map heap_ok_leaf heap_ok_child_root heap_ok_child_valid
        heap_ok_unique split: if_splits\<close>)

lemma walk_cut_below:
  assumes "\<And>rs. walk h q rs \<noteq> Some P"
  shows "walk (del_child P n h) q rs = walk h q rs"
proof (induction rs rule: rev_induct)
  case (snoc x rs)
  then show ?case
    using assms [of rs] by (auto simp: walk_snoc child_del_child split: option.splits)
qed simp

lemma del_child_if:
  assumes ok: "heap_ok h root" and DP: "walk h root dp = Some DP"
    and h1: "h1 = (if child h DP dn \<noteq> None then del_child DP dn h else h)"
  shows "heap_ok h1 root"
    and "child h1 p m = (if p = DP \<and> m = dn then None else child h p m)"
    and "walk h1 root qs = (if prefix (dp @ [dn]) qs then None else walk h root qs)"
    and "attrs_at h1 = attrs_at h"
proof -
  have c: "child h1 p m = child (del_child DP dn h) p m" for p m
    unfolding h1 by (auto simp: child_del_child)
  show "heap_ok h1 root" unfolding h1 using ok by (simp add: heap_ok_del_child)
  show "child h1 p m = (if p = DP \<and> m = dn then None else child h p m)"
    by (simp add: c child_del_child)
  show "walk h1 root qs = (if prefix (dp @ [dn]) qs then None else walk h root qs)"
    using walk_cong [of h1 "del_child DP dn h"] c walk_unlink [OF ok DP] by simp
  show "attrs_at h1 = attrs_at h" unfolding h1 by (simp add: attrs_at_del_child)
qed

lemma move_entry_refines:
  fixes h root now
  assumes ok: "heap_ok h root" and SP: "walk h root sp = Some SP" and E: "child h SP sn = Some E"
    and DP: "walk h root dp = Some DP" "is_dir h DP" and vn: "valid_name dn"
    and apart: "\<not> prefix (sp @ [sn]) dp" and nd: "\<not> dir_at (view h root) (dp @ [dn])"
  defines "h' \<equiv> move_entry now SP sn E DP dn h"
  shows "heap_ok h' root"
    and "view h' root = touch now (dp @ [dn]) (touch now dp (touch now sp
           (moved (sp @ [sn]) (dp @ [dn]) (view h root))))"
proof -
  let ?src = "sp @ [sn]" and ?dst = "dp @ [dn]"
  let ?name = "\<lambda>e. e\<lparr>entry_name := dn\<rparr>"
  have wE: "walk h root ?src = Some E" using SP E by (simp add: walk_snoc)
  have Epaths: "walk h root (?src @ rs) = walk h E rs" for rs
    using wE by (subst walk_append) simp
  have SPdir: "is_dir h SP" using heap_ok_child_dir [OF ok E] .
  have dst_sp: "\<not> prefix ?dst sp"
  proof
    assume "prefix ?dst sp"
    then obtain rs where sp: "sp = ?dst @ rs" by (auto simp: prefix_def)
    show False
    proof (cases rs)
      case Nil
      with sp SP SPdir nd show ?thesis by (auto simp: dir_at_view)
    next
      case (Cons k ks)
      have "view h root sp \<noteq> None" using SP view_None_iff [OF ok] by simp
      with view_below [OF ok nd, of k ks] sp Cons show ?thesis by simp
    qed
  qed
  have notDP: "walk h E rs \<noteq> Some DP" for rs
    using Epaths [of rs] walk_inj [OF ok _ DP(1)] apart by (metis prefix_def)
  have notSP: "walk h E rs \<noteq> Some SP" for rs
    using Epaths [of rs] walk_inj [OF ok _ SP, of "?src @ rs"] by auto
  have selfE: "walk h E rs = Some E \<longleftrightarrow> rs = []" for rs
    using Epaths [of rs] walk_inj [OF ok _ wE, of "?src @ rs"] by auto
  define h1 where h1: "h1 = (if child h DP dn \<noteq> None then del_child DP dn h else h)"
  note c1 = del_child_if [OF ok DP(1) h1]
  have w1: "walk h1 root sp = Some SP" "walk h1 root dp = Some DP"
    using c1(3) dst_sp SP DP not_prefix_snoc_self by metis+
  have w1E: "walk h1 E rs = walk h E rs" for rs
    unfolding h1 using walk_cut_below [OF notDP] by simp
  define h2 where h2: "h2 = del_child SP sn h1"
  have ok2: "heap_ok h2 root" unfolding h2 by (rule heap_ok_del_child [OF c1(1)])
  have w2: "walk h2 root sp = Some SP" "walk h2 root dp = Some DP"
    unfolding h2 using walk_unlink [OF c1(1) w1(1)] w1 apart not_prefix_snoc_self by metis+
  have w2E: "walk h2 E rs = walk h E rs" for rs
    unfolding h2 using walk_cut_below [of h1 E SP] notSP w1E by simp
  have free: "child h2 p n \<noteq> Some E" for p n
    unfolding h2 using c1(2) heap_ok_unique [OF ok _ E, of p n] by (auto simp: child_del_child)
  have v2: "view h2 root = prune ?src (prune ?dst (view h root))"
  proof -
    have "view h1 root = prune ?dst (view h root)"
      unfolding view_def c1(4) by (rule ext) (simp add: c1(3) prune_def view_def)
    then show ?thesis unfolding h2 using view_del_child [OF c1(1) w1(1)] by simp
  qed
  have at2: "attrs_at h2 = attrs_at h" unfolding h2 by (simp add: attrs_at_del_child c1(4))
  have dirs2: "is_dir h2 = is_dir h" by (intro ext) (simp add: is_dir_attrs_at at2)
  define h3 where h3: "h3 = update_entry ?name E h2"
  have ok3: "heap_ok h3 root" unfolding h3 by (rule heap_ok_rename_detached [OF ok2 free])
  have wlk3: "walk h3 = walk h2" unfolding h3 by (rule walk_update_entry) simp
  have at3: "attrs_at h3 q = (if q = E then map_option ?name (attrs_at h E) else attrs_at h q)" for q
    unfolding h3 at2 [symmetric] by (rule attrs_at_update_entry) (simp add: attrs_def)
  have notE: "walk h2 root qs \<noteq> Some E" for qs
    using free heap_ok_child_root [OF ok E]
    by (cases qs rule: rev_cases) (auto simp: walk_snoc split: option.splits)
  have v3: "view h3 root = view h2 root"
    unfolding view_def wlk3 using notE by (intro ext) (auto simp: at3 at2 split: option.splits)
  have v3E: "view h3 E = on_path [] ?name (\<lambda>rs. view h root (?src @ rs))"
    unfolding view_def wlk3 w2E Epaths using selfE
    by (intro ext) (auto simp: at3 on_path_def split: option.splits)
  have apart3: "walk h3 E rs \<noteq> Some DP" for rs using notDP w2E wlk3 by simp
  define h4 where h4: "h4 = set_child DP dn E h3"
  obtain e where e: "store h2 E = Some e" using heap_ok_child_store [OF ok E] at2
    by (metis not_Some_eq store_None_iff_attrs)
  have ok4: "heap_ok h4 root"
    unfolding h4
  proof (rule heap_ok_set_child [OF ok3 _ vn])
    show "is_dir h3 DP" unfolding h3 using DP dirs2 by (simp add: is_dir_update_entry)
    show "store h3 E = Some (?name e)" unfolding h3 using e by (simp add: store_update_entry)
    show "E \<noteq> root" using heap_ok_child_root [OF ok E] .
    show "child h3 p' n' \<noteq> Some E" for p' n' unfolding h3 using free by (simp add: child_update_entry)
  qed simp
  note w3 = w2 [folded wlk3]
  have v4: "view h4 root = moved ?src ?dst (view h root)"
    unfolding h4 view_set_child [OF ok3 w3(2) apart3] v3E v3 v2 moved_def by simp
  have w4: "walk h4 root sp = Some SP" "walk h4 root dp = Some DP" "walk h4 root ?dst = Some E"
    unfolding h4 walk_link [OF ok3 w3(2) apart3]
    using w3 dst_sp not_prefix_snoc_self [of dp dn] by simp_all
  define h5 where h5: "h5 = set_modTime now SP h4"
  define h6 where h6: "h6 = set_modTime now DP h5"
  have ok5: "heap_ok h5 root" and ok6: "heap_ok h6 root"
    unfolding h6 h5 using ok4 by (simp_all add: heap_ok_set_modTime)
  have h': "h' = set_modTime now E h6"
    unfolding h'_def move_entry_def h6 h5 h4 h3 h2 h1 by (simp add: Let_def)
  show "heap_ok h' root" unfolding h' by (rule heap_ok_set_modTime [OF ok6])
  have "walk h5 root dp = Some DP" "walk h6 root ?dst = Some E"
    unfolding h6 h5 using w4 by (simp_all add: walk_set_modTime)
  then show "view h' root = touch now ?dst (touch now dp (touch now sp (moved ?src ?dst (view h root))))"
    unfolding h' touch_def using view_set_modTime [OF ok4 w4(1)] view_set_modTime [OF ok5] view_set_modTime [OF ok6] v4
    by (simp add: h5 h6)
qed

subsection \<open>The refinement of \<open>applyRename\<close>\<close>

lemma applyRename_refines:
  assumes ok: "mds_ok mds" and run: "applyRename now p mds = (mds', err)"
  shows "mds_ok mds' \<and> (mds_view mds', err) = spec_rename now p (mds_view mds)
    \<and> mds' = mds\<lparr>mds_heap := mds_heap mds'\<rparr>"
proof (cases "splitPath (p_Path p) = [] \<or> splitPath (p_DstPath p) = []")
  case True
  with assms show ?thesis by (auto simp: applyRename_def spec_rename_def)
next
  case ne: False
  let ?h = "mds_heap mds" and ?root = "mds_root mds"
  obtain sp sn where src: "splitPath (p_Path p) = sp @ [sn]" using ne by (auto elim: snoc_cases)
  obtain dp dn where dst: "splitPath (p_DstPath p) = dp @ [dn]" using ne by (auto elim: snoc_cases)
  have vn: "valid_name dn" using splitPath_valid [of dn "p_DstPath p"] dst by simp
  note defs = applyRename_def spec_rename_def src dst Let_def
  show ?thesis
  proof (cases "find_dir ?h ?root sp")
    case None
    with find_dir_view [OF ok, of sp] have "\<not> dir_at (mds_view mds) sp" by simp
    then have "mds_view mds (sp @ [sn]) = None" using dir_at_parent [OF ok, of sp sn] by blast
    with run None ok show ?thesis by (auto simp: defs)
  next
    case (Some SP)
    note s = parent_step(1,2) [OF ok Some] parent_step(3,4) [OF ok Some, of sn]
    show ?thesis
    proof (cases "child ?h SP sn")
      case None
      with run Some s ok show ?thesis by (auto simp: defs)
    next
      case E: (Some E)
      have wE: "walk ?h ?root (sp @ [sn]) = Some E" using s E by simp
      have vE: "mds_view mds (sp @ [sn]) \<noteq> None" using view_None_iff [OF ok] wE by simp
      have dE: "dir_at (mds_view mds) (sp @ [sn]) \<longleftrightarrow> is_dir ?h E" using wE by (simp add: dir_at_view)
      note sub = in_own_subtree_iff [OF ok wE, of dp]
      show ?thesis
      proof (cases "in_own_subtree ?h ?root E dp")
        case True
        with run Some E sub vE dE ok show ?thesis by (auto simp: defs)
      next
        case nsub: False
        show ?thesis
        proof (cases "find_dir ?h ?root dp")
          case None
          with find_dir_view [OF ok, of dp] have "\<not> dir_at (mds_view mds) dp" by simp
          with run None Some E nsub sub vE dE ok show ?thesis by (auto simp: defs)
        next
          case D: (Some DP)
          note d = parent_step(1,2) [OF ok D] parent_step(3,4) [OF ok D, of dn]
          have ddp: "dir_at (mds_view mds) dp" using find_dir_view [OF ok, of dp] D by simp
          have apart: "\<not> prefix (sp @ [sn]) dp"
          proof
            assume pre: "prefix (sp @ [sn]) dp"
            then obtain rs where rs: "dp = (sp @ [sn]) @ rs" by (auto simp: prefix_def)
            have "is_dir ?h E"
            proof (cases rs)
              case Nil
              with rs d wE show ?thesis by simp
            next
              case (Cons k ks)
              with rs d walk_parent_dir [OF ok, of "sp @ [sn]" k ks] wE show ?thesis by auto
            qed
            with pre sub nsub show False by simp
          qed
          have dd: "dir_at (mds_view mds) (dp @ [dn]) \<longleftrightarrow>
              (case child ?h DP dn of None \<Rightarrow> False | Some c \<Rightarrow> is_dir ?h c)"
            using d(3) by (auto simp: dir_at_view split: option.splits)
          show ?thesis
          proof (cases "dir_at (mds_view mds) (dp @ [dn])")
            case True
            with dd run Some E D nsub sub vE dE ddp ok show ?thesis
              by (auto simp: defs split: option.splits)
          next
            case nd: False
            note mv = move_entry_refines [OF ok s(1) E d(1,2) vn apart nd, of now]
            from nd dd run Some E D nsub
            have "mds' = mds\<lparr>mds_heap := move_entry now SP sn E DP dn ?h\<rparr> \<and> err = None"
              by (auto simp: defs split: option.splits)
            then show ?thesis using mv sub nsub nd vE dE ddp by (auto simp: defs)
          qed
        qed
      qed
    qed
  qed
qed

end
