(* ===== verification/Utf8_Strings.thy ===== *)
theory Utf8_Strings
  imports Path_Names
begin

section \<open>UTF-8\<close>

text \<open>
  A Go string is a sequence of bytes, a JSON string is text: \<open>encoding/json\<close> replaces bytes that are
  not UTF-8 by U+FFFD when it writes a string and when it reads one. \<open>ToValidUTF8\<close> does that,
  \<open>utf8_ok\<close> are the strings it leaves alone. Reading twice is reading once, and the components of
  a path that is UTF-8 are UTF-8.
\<close>

fun coerce_utf8 :: "nat list \<Rightarrow> nat list" where
  "coerce_utf8 [] = []"
| "coerce_utf8 (b # bs) =
     (if b < 128 then b # coerce_utf8 bs
      else (case rune_tail b bs of
              None \<Rightarrow> [239, 191, 189] @ coerce_utf8 bs
            | Some (r, k) \<Rightarrow> (b # take k bs) @ coerce_utf8 (drop k bs)))"

definition ToValidUTF8 :: "string \<Rightarrow> string" where
  "ToValidUTF8 s = map char_of (coerce_utf8 (map of_char s))"

definition utf8_ok :: "string \<Rightarrow> bool" where
  "utf8_ok s \<longleftrightarrow> ToValidUTF8 s = s"

definition is_ascii :: "char \<Rightarrow> bool" where
  "is_ascii c \<longleftrightarrow> (of_char c :: nat) < 128"

lemma ToValidUTF8_Nil [simp]: "ToValidUTF8 '''' = ''''"
  by (simp add: ToValidUTF8_def)

lemma utf8_ok_ascii: "list_all is_ascii s \<Longrightarrow> utf8_ok s"
  by (induction s) (auto simp: utf8_ok_def ToValidUTF8_def is_ascii_def)

text \<open>For evaluation: a string of ASCII characters is as it is.\<close>

lemma is_ascii_code [code]: "is_ascii (Char b0 b1 b2 b3 b4 b5 b6 b7) \<longleftrightarrow> \<not> b7"
  by (cases b0; cases b1; cases b2; cases b3; cases b4; cases b5; cases b6; cases b7)
     (simp_all add: is_ascii_def of_char_Char)

lemma ToValidUTF8_code [code]:
  "ToValidUTF8 s = (if list_all is_ascii s then s else map char_of (coerce_utf8 (map of_char s)))"
  using utf8_ok_ascii [of s] by (simp add: ToValidUTF8_def utf8_ok_def)

lemma utf8_ok_Nil [simp]: "utf8_ok ''''"
  by (simp add: utf8_ok_def)

subsection \<open>Runes are read from the front\<close>

lemma rune_tail_take:
  "rune_tail b bs = Some (r, k) \<Longrightarrow> k \<le> length bs \<and> rune_tail b (take k bs @ xs) = Some (r, k)"
  by (cases "(b, bs)" rule: rune_tail.cases; cases xs rule: remdups_adj.cases)
     (auto split: if_splits)

lemma rune_tail_ascii: "c < 128 \<Longrightarrow> rune_tail b (xs @ c # ys) = rune_tail b xs"
  by (cases "(b, xs)" rule: rune_tail.cases; cases ys rule: remdups_adj.cases) (auto simp: cont_byte_def)

lemma rune_tail_high: "rune_tail b bs = Some (r, k) \<Longrightarrow> \<forall>x \<in> set (take k bs). 128 \<le> x"
  by (cases "(b, bs)" rule: rune_tail.cases) (auto simp: cont_byte_def split: if_splits)

lemma coerce_idem: "coerce_utf8 (coerce_utf8 bs) = coerce_utf8 bs"
proof (induction bs rule: coerce_utf8.induct)
  case (2 b bs)
  show ?case
  proof (cases "b < 128")
    case False
    show ?thesis
    proof (cases "rune_tail b bs")
      case None
      have "rune_tail 239 (191 # 189 # coerce_utf8 bs) = Some (65533, 2)"
        by (cases "coerce_utf8 bs") (simp_all add: cont_byte_def)
      then show ?thesis using "2.IH"(2) [OF False None] False None by (simp add: numeral_2_eq_2)
    next
      case (Some p)
      obtain r k where p: "p = (r, k)" by fastforce
      note t = rune_tail_take [OF Some [unfolded p], of "coerce_utf8 (drop k bs)"]
      show ?thesis using "2.IH"(3) [OF False Some p [symmetric]] False Some p t by simp
    qed
  qed (use "2.IH"(1) in simp)
qed simp

lemma coerce_length: "length bs \<le> length (coerce_utf8 bs)"
proof (induction bs rule: coerce_utf8.induct)
  case (2 b bs)
  then show ?case by (auto split: option.split) (use 2 in \<open>fastforce dest: rune_tail_take\<close>)
qed simp

lemma coerce_ascii: "c < 128 \<Longrightarrow> coerce_utf8 (xs @ c # ys) = coerce_utf8 xs @ c # coerce_utf8 ys"
proof (induction xs rule: coerce_utf8.induct)
  case (2 b bs)
  show ?case
  proof (cases "b < 128")
    case False
    show ?thesis
    proof (cases "rune_tail b bs")
      case (Some p)
      obtain r k where p: "p = (r, k)" by fastforce
      have "k \<le> length bs" using rune_tail_take [OF Some [unfolded p]] by blast
      then show ?thesis using "2.IH"(3) [OF False Some p [symmetric] "2.prems"] False Some p rune_tail_ascii [OF "2.prems"] by simp
    qed (use "2.IH"(2) "2.prems" False rune_tail_ascii in simp)
  qed (use "2.IH"(1) "2.prems" in simp)
qed simp

subsection \<open>Strings\<close>

lemma coerce_bytes: "\<forall>b \<in> set bs. b < 256 \<Longrightarrow> \<forall>b \<in> set (coerce_utf8 bs). b < 256"
proof (induction bs rule: coerce_utf8.induct)
  case (2 b bs)
  show ?case
  proof (cases "b < 128")
    case False
    show ?thesis
    proof (cases "rune_tail b bs")
      case (Some p)
      obtain r k where p: "p = (r, k)" by fastforce
      have "\<forall>b \<in> set (drop k bs). b < 256" "\<forall>b \<in> set (take k bs). b < 256"
        using "2.prems" by (auto dest: in_set_takeD in_set_dropD)
      then show ?thesis using "2.IH"(3) [OF False Some p [symmetric]] "2.prems" False Some p by auto
    qed (use "2.IH"(2) "2.prems" False in simp)
  qed (use "2.IH"(1) "2.prems" in simp)
qed simp

lemma of_ToValidUTF8: "map of_char (ToValidUTF8 s) = coerce_utf8 (map of_char s)"
proof -
  have "\<forall>b \<in> set (coerce_utf8 (map of_char s)). b < 256"
    by (rule coerce_bytes) auto
  then show ?thesis by (simp add: ToValidUTF8_def map_idI)
qed

lemma utf8_ToValidUTF8 [simp]: "utf8_ok (ToValidUTF8 s)"
  unfolding utf8_ok_def by (subst ToValidUTF8_def) (simp add: of_ToValidUTF8 coerce_idem, simp add: ToValidUTF8_def)

lemma ToValidUTF8_idem [simp]: "ToValidUTF8 (ToValidUTF8 s) = ToValidUTF8 s"
  using utf8_ToValidUTF8 [of s] by (simp only: utf8_ok_def)

lemma ToValidUTF8_append:
  "is_ascii c \<Longrightarrow> ToValidUTF8 (s @ c # t) = ToValidUTF8 s @ c # ToValidUTF8 t"
  by (simp add: ToValidUTF8_def coerce_ascii is_ascii_def)

lemma ToValidUTF8_length: "length s \<le> length (ToValidUTF8 s)"
  using coerce_length [of "map of_char s"] by (simp add: ToValidUTF8_def)

lemma utf8_ok_append: "is_ascii c \<Longrightarrow> utf8_ok (s @ c # t) \<longleftrightarrow> utf8_ok s \<and> utf8_ok t"
proof -
  assume c: "is_ascii c"
  have "length (ToValidUTF8 s) = length s" if "ToValidUTF8 s @ c # ToValidUTF8 t = s @ c # t"
    using arg_cong [OF that, of length] ToValidUTF8_length [of s] ToValidUTF8_length [of t] by simp
  then show ?thesis unfolding utf8_ok_def ToValidUTF8_append [OF c] by auto
qed

subsection \<open>Paths\<close>

lemma utf8_ok_Split:
  assumes "is_ascii sep"
  shows "utf8_ok s \<Longrightarrow> n \<in> set (Split s sep) \<Longrightarrow> utf8_ok n"
proof (induction "length s" arbitrary: s rule: less_induct)
  case less
  show ?case
  proof (cases "sep \<in> set s")
    case True
    then obtain a b where s: "s = a @ sep # b" "sep \<notin> set a" by (metis split_list_first)
    then have "n = a \<or> n \<in> set (Split b sep)" using less.prems(2) Split_plain [OF s(2)] by (auto simp: Split_append_sep)
    then show ?thesis using less.hyps [of b] less.prems(1) utf8_ok_append [OF assms] s by auto
  qed (use less.prems Split_plain in fastforce)
qed

lemma utf8_ok_splitPath: "utf8_ok path \<Longrightarrow> list_all utf8_ok (splitPath path)"
proof -
  have "is_ascii slash" by (simp add: is_ascii_def)
  then show "utf8_ok path \<Longrightarrow> list_all utf8_ok (splitPath path)"
    using utf8_ok_Split by (auto simp: splitPath_eq_components components_def list_all_iff)
qed

end
