(* ===== verification/Wire_Json.thy ===== *)
theory Wire_Json
  imports Meta_Apply Utf8_Strings "HOL-Library.Monad_Syntax"
begin

section \<open>Commands on the wire: the JSON of a Raft log entry\<close>

text \<open>
  \<open>submitCommand\<close> marshals a \<open>commandPayload\<close> into the data of a log entry and \<open>Apply\<close>
  unmarshals it on every replica. The model works on the JSON value, not on its text: objects
  keep their fields in order, \<open>omitempty\<close> fields with a zero value are left out, a missing or
  null field decodes to the zero value, and a field of the wrong kind or an integer out of range
  is an error. Bytes of a string that are not UTF-8 become U+FFFD when it is written and when it
  is read.
  \<open>None\<close> as data stands for bytes that are not JSON.
\<close>

datatype json =
    JNull
  | JBool bool
  | JNum int
  | JStr string
  | JArr "json list"
  | JObj "(string \<times> json) list"

subsection \<open>Marshalling a command\<close>

abbreviation jstr :: "string \<Rightarrow> json" where
  "jstr s \<equiv> JStr (ToValidUTF8 s)"

definition omitempty :: "bool \<Rightarrow> string \<Rightarrow> json \<Rightarrow> (string \<times> json) list" where
  "omitempty present k v = (if present then [(k, v)] else [])"

definition marshal_replica :: "Replica \<Rightarrow> json" where
  "marshal_replica r = JObj [(''addr'', jstr (Addr r)), (''remote_path'', jstr (RemotePath r))]"

definition mode_num :: "CreateMode \<Rightarrow> int" where
  "mode_num m = (case m of CreateIfNotExist \<Rightarrow> 0 | OverwriteIfExists \<Rightarrow> 1)"

definition Marshal_payload :: "commandPayload \<Rightarrow> json" where
  "Marshal_payload p = JObj
     ([(''op'', jstr (p_Op p))]
      @ omitempty (p_Path p \<noteq> '''') ''path'' (jstr (p_Path p))
      @ omitempty (p_Addr p \<noteq> '''') ''addr'' (jstr (p_Addr p))
      @ omitempty (p_Size p \<noteq> 0) ''size'' (JNum (sint (p_Size p)))
      @ omitempty (p_Replicas p \<noteq> []) ''replicas'' (JArr (map marshal_replica (p_Replicas p)))
      @ omitempty (p_IsDir p) ''is_dir'' (JBool (p_IsDir p))
      @ omitempty (p_CreateMode p \<noteq> CreateIfNotExist) ''create_mode'' (JNum (mode_num (p_CreateMode p)))
      @ omitempty (p_FileID p \<noteq> '''') ''file_id'' (jstr (p_FileID p))
      @ omitempty (p_DstPath p \<noteq> '''') ''dst_path'' (jstr (p_DstPath p))
      @ omitempty (p_NewSize p \<noteq> 0) ''new_size'' (JNum (sint (p_NewSize p))))"

subsection \<open>Unmarshalling a command\<close>

text \<open>The last field of a name wins; an absent or null field leaves the zero value.\<close>

definition get_field :: "(json \<Rightarrow> 'a option) \<Rightarrow> 'a \<Rightarrow> string \<Rightarrow> (string \<times> json) list \<Rightarrow> 'a option" where
  "get_field dec zero k fs =
     (case map_of (rev fs) k of
        None \<Rightarrow> Some zero
      | Some j \<Rightarrow> if j = JNull then Some zero else dec j)"

fun dec_str :: "json \<Rightarrow> string option" where
  "dec_str (JStr s) = Some (ToValidUTF8 s)"
| "dec_str _ = None"

fun dec_bool :: "json \<Rightarrow> bool option" where
  "dec_bool (JBool b) = Some b"
| "dec_bool _ = None"

fun dec_int64 :: "json \<Rightarrow> int64 option" where
  "dec_int64 (JNum i) = (if - (2 ^ 63) \<le> i \<and> i < 2 ^ 63 then Some (word_of_int i) else None)"
| "dec_int64 _ = None"

fun dec_mode :: "json \<Rightarrow> CreateMode option" where
  "dec_mode (JNum i) =
     (if 0 \<le> i \<and> i < 2 ^ 32 then Some (if i = 1 then OverwriteIfExists else CreateIfNotExist) else None)"
| "dec_mode _ = None"

fun dec_replica :: "json \<Rightarrow> Replica option" where
  "dec_replica (JObj fs) = do {
     a \<leftarrow> get_field dec_str '''' ''addr'' fs;
     r \<leftarrow> get_field dec_str '''' ''remote_path'' fs;
     Some \<lparr>Addr = a, RemotePath = r\<rparr> }"
| "dec_replica JNull = Some \<lparr>Addr = '''', RemotePath = ''''\<rparr>"
| "dec_replica _ = None"

fun dec_replicas :: "json \<Rightarrow> Replica list option" where
  "dec_replicas (JArr js) = those (map dec_replica js)"
| "dec_replicas _ = None"

fun Unmarshal_payload :: "json option \<Rightarrow> commandPayload option" where
  "Unmarshal_payload (Some (JObj fs)) = do {
     op \<leftarrow> get_field dec_str '''' ''op'' fs;
     path \<leftarrow> get_field dec_str '''' ''path'' fs;
     addr \<leftarrow> get_field dec_str '''' ''addr'' fs;
     sz \<leftarrow> get_field dec_int64 0 ''size'' fs;
     reps \<leftarrow> get_field dec_replicas [] ''replicas'' fs;
     dir \<leftarrow> get_field dec_bool False ''is_dir'' fs;
     md \<leftarrow> get_field dec_mode CreateIfNotExist ''create_mode'' fs;
     fid \<leftarrow> get_field dec_str '''' ''file_id'' fs;
     dst \<leftarrow> get_field dec_str '''' ''dst_path'' fs;
     nsz \<leftarrow> get_field dec_int64 0 ''new_size'' fs;
     Some \<lparr>p_Op = op, p_Path = path, p_Addr = addr, p_Size = sz, p_Replicas = reps, p_IsDir = dir,
       p_CreateMode = md, p_FileID = fid, p_DstPath = dst, p_NewSize = nsz\<rparr> }"
| "Unmarshal_payload (Some JNull) = Some empty_payload"
| "Unmarshal_payload _ = None"

text \<open>\<open>Apply\<close>: decode, then dispatch on the operation of the log entry.\<close>

definition Apply :: "time \<Rightarrow> string \<Rightarrow> json option \<Rightarrow> MetadataServer \<Rightarrow> result" where
  "Apply now op data mds =
     (case Unmarshal_payload data of
        None \<Rightarrow> (mds, Some ErrUnmarshal)
      | Some payload \<Rightarrow> apply_payload now op payload mds)"

subsection \<open>What arrives is what was sent\<close>

definition wire_replica :: "Replica \<Rightarrow> Replica" where
  "wire_replica r = \<lparr>Addr = ToValidUTF8 (Addr r), RemotePath = ToValidUTF8 (RemotePath r)\<rparr>"

definition wire :: "commandPayload \<Rightarrow> commandPayload" where
  "wire p = p\<lparr>p_Op := ToValidUTF8 (p_Op p), p_Path := ToValidUTF8 (p_Path p),
     p_Addr := ToValidUTF8 (p_Addr p), p_Replicas := map wire_replica (p_Replicas p),
     p_FileID := ToValidUTF8 (p_FileID p), p_DstPath := ToValidUTF8 (p_DstPath p)\<rparr>"

definition replica_utf8 :: "Replica \<Rightarrow> bool" where
  "replica_utf8 r \<longleftrightarrow> utf8_ok (Addr r) \<and> utf8_ok (RemotePath r)"

definition payload_utf8 :: "commandPayload \<Rightarrow> bool" where
  "payload_utf8 p \<longleftrightarrow> utf8_ok (p_Op p) \<and> utf8_ok (p_Path p) \<and> utf8_ok (p_Addr p)
     \<and> list_all replica_utf8 (p_Replicas p) \<and> utf8_ok (p_FileID p) \<and> utf8_ok (p_DstPath p)"

lemma wire_payload_utf8: "payload_utf8 p \<Longrightarrow> wire p = p"
proof -
  assume u: "payload_utf8 p"
  then have "map wire_replica (p_Replicas p) = p_Replicas p"
    by (intro map_idI) (auto simp: payload_utf8_def replica_utf8_def list_all_iff wire_replica_def utf8_ok_def)
  with u show ?thesis by (simp add: wire_def payload_utf8_def utf8_ok_def)
qed

lemma dec_int64_sint: "dec_int64 (JNum (sint w)) = Some w"
  using sint_range_size [of w] by (simp add: word_size)

lemma dec_mode_num: "dec_mode (JNum (mode_num m)) = Some m"
  by (cases m) (simp_all add: mode_num_def)

lemma dec_replica_marshal: "dec_replica (marshal_replica r) = Some (wire_replica r)"
  by (simp add: marshal_replica_def get_field_def wire_replica_def)

lemma those_map_Some: "those (map (\<lambda>x. Some (f x)) xs) = Some (map f xs)"
  by (induction xs) auto

lemma dec_replicas_marshal: "dec_replicas (JArr (map marshal_replica rs)) = Some (map wire_replica rs)"
  by (simp add: o_def dec_replica_marshal those_map_Some)

lemma map_of_omitempty [simp]:
  "map_of (omitempty b k v) x = (if b \<and> x = k then Some v else None)"
  by (simp add: omitempty_def)

lemma rev_omitempty [simp]: "rev (omitempty b k v) = omitempty b k v"
  by (simp add: omitempty_def)

lemma get_marshalled:
  fixes p
  defines "fs \<equiv> (case Marshal_payload p of JObj fs \<Rightarrow> fs)"
  shows "get_field dec_str '''' ''op'' fs = Some (ToValidUTF8 (p_Op p))"
    and "get_field dec_str '''' ''path'' fs = Some (ToValidUTF8 (p_Path p))"
    and "get_field dec_str '''' ''addr'' fs = Some (ToValidUTF8 (p_Addr p))"
    and "get_field dec_int64 0 ''size'' fs = Some (p_Size p)"
    and "get_field dec_replicas [] ''replicas'' fs = Some (map wire_replica (p_Replicas p))"
    and "get_field dec_bool False ''is_dir'' fs = Some (p_IsDir p)"
    and "get_field dec_mode CreateIfNotExist ''create_mode'' fs = Some (p_CreateMode p)"
    and "get_field dec_str '''' ''file_id'' fs = Some (ToValidUTF8 (p_FileID p))"
    and "get_field dec_str '''' ''dst_path'' fs = Some (ToValidUTF8 (p_DstPath p))"
    and "get_field dec_int64 0 ''new_size'' fs = Some (p_NewSize p)"
  by (simp_all add: fs_def Marshal_payload_def get_field_def map_add_def dec_int64_sint dec_mode_num
      dec_replicas_marshal del: dec_int64.simps dec_mode.simps dec_replicas.simps)

lemma Unmarshal_Marshal: "Unmarshal_payload (Some (Marshal_payload p)) = Some (wire p)"
proof -
  obtain fs where fs: "Marshal_payload p = JObj fs" by (simp add: Marshal_payload_def)
  note g = get_marshalled [of p, unfolded fs json.case]
  show ?thesis unfolding fs by (simp add: g wire_def)
qed

text \<open>What a replica reads is UTF-8, whatever the bytes were.\<close>

lemma get_str_utf8: "get_field dec_str '''' k fs = Some s \<Longrightarrow> utf8_ok s"
  by (auto simp: get_field_def split: option.splits if_splits elim!: dec_str.elims)

lemma dec_replica_utf8: "dec_replica j = Some r \<Longrightarrow> replica_utf8 r"
  by (cases j rule: dec_replica.cases) (auto simp: replica_utf8_def bind_eq_Some_conv dest: get_str_utf8)

lemma those_Some_all: "those xs = Some ys \<Longrightarrow> (\<And>x y. Some y \<in> set xs \<Longrightarrow> P y) \<Longrightarrow> list_all P ys"
  by (induction xs arbitrary: ys) (auto split: option.splits)

lemma get_replicas_utf8:
  assumes "get_field dec_replicas [] k fs = Some rs"
  shows "list_all replica_utf8 rs"
proof -
  have "dec_replicas j = Some rs \<Longrightarrow> list_all replica_utf8 rs" for j
    by (cases j rule: dec_replicas.cases) (auto elim!: those_Some_all intro: dec_replica_utf8 [OF sym])
  then show ?thesis using assms by (auto simp: get_field_def split: option.splits if_splits)
qed

lemma Unmarshal_utf8: "Unmarshal_payload data = Some p \<Longrightarrow> payload_utf8 p"
  by (cases data rule: Unmarshal_payload.cases)
     (auto simp: payload_utf8_def empty_payload_def bind_eq_Some_conv dest: get_str_utf8 get_replicas_utf8)

text \<open>C30. Every command whose strings are UTF-8 survives the log: unmarshalling the marshalled
  payload gives back the same payload, with the omitted empty fields restored.\<close>

theorem payload_roundtrip:
  assumes "payload_utf8 p"
  shows "Unmarshal_payload (Some (Marshal_payload p)) = Some p"
  by (simp only: Unmarshal_Marshal wire_payload_utf8 [OF assms])

text \<open>The command that creates \<open>/a\<close> with one replica.\<close>

definition sample_create :: commandPayload where
  "sample_create = empty_payload\<lparr>p_Op := OpCreateFile, p_Path := ''/a'', p_Size := 5,
     p_Replicas := [\<lparr>Addr = ''n1'', RemotePath = ''/data/f1''\<rparr>], p_FileID := ''f1''\<rparr>"

lemma sample_create_utf8: "payload_utf8 sample_create"
  by (simp add: payload_utf8_def sample_create_def empty_payload_def OpCreateFile_def replica_utf8_def
      utf8_ok_ascii is_ascii_def)

theorem payload_roundtrip_witness:
  "Unmarshal_payload (Some (Marshal_payload sample_create)) = Some sample_create"
  by (rule payload_roundtrip [OF sample_create_utf8])

end
