(* ===== verification/State_Machine.thy ===== *)
theory State_Machine
  imports Rename_Move Wire_Json
begin

section \<open>The replicated state machine\<close>

text \<open>
  Raft sees the metadata server through goraft's \<open>StateMachine\<close> interface: \<open>Apply\<close>,
  \<open>Snapshot\<close>, \<open>Restore\<close> (\<open>internal/metadata/state_machine.go\<close>). The locale
  \<open>replicated_machine\<close> is the contract of \<open>Apply\<close>: on states that satisfy the invariant
  it acts as a function of the abstract state and of the part of the command that all replicas
  share. What replication needs follows inside the locale, and holds for the server through the
  two interpretations: with the clock readings as part of the command, and without times.
\<close>

fun run_log :: "('c \<Rightarrow> 's \<Rightarrow> 's \<times> 'e) \<Rightarrow> 'c list \<Rightarrow> 's \<Rightarrow> 's" where
  "run_log app [] s = s"
| "run_log app (c # cs) s = run_log app cs (fst (app c s))"

lemma run_log_append: "run_log app (xs @ ys) s = run_log app ys (run_log app xs s)"
  by (induction xs arbitrary: s) auto

locale replicated_machine =
  fixes inv :: "'s \<Rightarrow> bool"
    and abs :: "'s \<Rightarrow> 'a"
    and app :: "'c \<Rightarrow> 's \<Rightarrow> 's \<times> 'e"
    and key :: "'c \<Rightarrow> 'k"
    and spec :: "'k \<Rightarrow> 'a \<Rightarrow> 'a \<times> 'e"
  assumes app_refines: "inv s \<Longrightarrow> app c s = (s', e) \<Longrightarrow> inv s' \<and> (abs s', e) = spec (key c) (abs s)"
begin

lemma run_inv: "inv s \<Longrightarrow> inv (run_log app cs s)"
  by (induction cs arbitrary: s) (auto dest: app_refines [OF _ surjective_pairing])

lemma run_abs: "inv s \<Longrightarrow> abs (run_log app cs s) = run_log spec (map key cs) (abs s)"
proof (induction cs arbitrary: s)
  case (Cons c cs)
  from app_refines [OF Cons.prems surjective_pairing, of c]
  have "inv (fst (app c s))" "abs (fst (app c s)) = fst (spec (key c) (abs s))"
    by (metis, metis fst_conv)
  then show ?case using Cons.IH by simp
qed simp

lemma replicas_agree:
  "inv s \<Longrightarrow> inv t \<Longrightarrow> abs s = abs t \<Longrightarrow> map key cs = map key ds \<Longrightarrow>
   abs (run_log app cs s) = abs (run_log app ds t)"
  by (simp add: run_abs)

lemma results_agree:
  "inv s \<Longrightarrow> inv t \<Longrightarrow> abs s = abs t \<Longrightarrow> key c = key d \<Longrightarrow> snd (app c s) = snd (app d t)"
  using app_refines [OF _ surjective_pairing, of s c] app_refines [OF _ surjective_pairing, of t d]
  by (metis snd_conv)

end

subsection \<open>The abstract state of the server\<close>

record fs_state =
  fs_ns :: namespace
  fs_nodes :: "string list"
  fs_beats :: "string \<rightharpoonup> time"

definition abs_state :: "MetadataServer \<Rightarrow> fs_state" where
  "abs_state mds = \<lparr>fs_ns = mds_view mds, fs_nodes = dataNodes mds,
     fs_beats = map_get (lastHeartbeat mds)\<rparr>"

definition on_ns :: "(namespace \<Rightarrow> namespace \<times> fs_error option) \<Rightarrow> fs_state \<Rightarrow> fs_state \<times> fs_error option" where
  "on_ns f st = (let (m, err) = f (fs_ns st) in (st\<lparr>fs_ns := m\<rparr>, err))"

definition spec_apply :: "time \<Rightarrow> string \<Rightarrow> commandPayload \<Rightarrow> fs_state \<Rightarrow> fs_state \<times> fs_error option" where
  "spec_apply now op p st =
     (if op = OpHeartbeat then
        (st\<lparr>fs_nodes := (if p_Addr p \<in> set (fs_nodes st) then fs_nodes st else fs_nodes st @ [p_Addr p]),
            fs_beats := (fs_beats st)(p_Addr p \<mapsto> now)\<rparr>, None)
      else if op = OpRemoveDataNode then
        (st\<lparr>fs_nodes := remove1 (p_Addr p) (fs_nodes st), fs_beats := (fs_beats st)(p_Addr p := None)\<rparr>, None)
      else if op = OpMkdir then on_ns (spec_mkdir now p) st
      else if op = OpCreateFile then on_ns (spec_create now p) st
      else if op = OpCompleteFile then on_ns (spec_complete now p) st
      else if op = OpDelete then on_ns (spec_delete now p) st
      else if op = OpRename then on_ns (spec_rename now p) st
      else if op = OpUpdateSize then on_ns (spec_update_size now p) st
      else (st, Some (ErrUnknownOp op)))"

text \<open>
  The invariant of the server: the heap is a tree, no data node is registered twice, and the
  registered nodes are the ones with a recorded heartbeat.
\<close>

definition mds_inv :: "MetadataServer \<Rightarrow> bool" where
  "mds_inv mds \<longleftrightarrow> mds_ok mds \<and> distinct (dataNodes mds) \<and> map_ok (lastHeartbeat mds)
     \<and> set (dataNodes mds) = dom (map_get (lastHeartbeat mds))"

lemma NewMetadataServer_inv: "mds_inv (NewMetadataServer now1 now2)"
  using NewMetadataServer_ok by (simp add: mds_inv_def NewMetadataServer_def)

lemma tree_op_refines:
  assumes inv: "mds_inv mds"
    and r: "mds_ok mds' \<and> (mds_view mds', err) = f (mds_view mds) \<and> mds' = mds\<lparr>mds_heap := mds_heap mds'\<rparr>"
  shows "mds_inv mds' \<and> (abs_state mds', err) = on_ns f (abs_state mds)"
proof -
  from r have ok: "mds_ok mds'" and f: "f (mds_view mds) = (mds_view mds', err)"
    and eq: "mds' = mds\<lparr>mds_heap := mds_heap mds'\<rparr>" by simp_all
  from eq have same: "dataNodes mds' = dataNodes mds" "lastHeartbeat mds' = lastHeartbeat mds"
    by (metis MetadataServer.select_convs(3) MetadataServer.surjective MetadataServer.update_convs(1),
        metis MetadataServer.select_convs(4) MetadataServer.surjective MetadataServer.update_convs(1))
  with inv ok have "mds_inv mds'" by (simp add: mds_inv_def)
  moreover have "on_ns f (abs_state mds) = (abs_state mds', err)"
    using f same by (simp add: on_ns_def abs_state_def)
  ultimately show ?thesis by simp
qed

lemma applyHeartbeat_refines:
  assumes inv: "mds_inv mds" and run: "applyHeartbeat now p mds = (mds', err)"
  shows "mds_inv mds' \<and> (abs_state mds', err) = spec_apply now OpHeartbeat p (abs_state mds)"
proof (cases "p_Addr p \<in> set (dataNodes mds)")
  case True
  with run have "mds' = mds\<lparr>lastHeartbeat := map_put (p_Addr p) now (lastHeartbeat mds)\<rparr>" "err = None"
    by (simp_all add: applyHeartbeat_def)
  moreover have "insert (p_Addr p) (dom (map_get (lastHeartbeat mds))) = dom (map_get (lastHeartbeat mds))"
    using True inv by (simp add: mds_inv_def insert_absorb)
  ultimately show ?thesis
    using True inv by (simp add: spec_apply_def abs_state_def mds_inv_def map_get_put keep_intros)
next
  case False
  with run have "mds' = mds\<lparr>dataNodes := dataNodes mds @ [p_Addr p],
      lastHeartbeat := map_put (p_Addr p) now (lastHeartbeat mds)\<rparr>" "err = None"
    by (simp_all add: applyHeartbeat_def)
  then show ?thesis
    using False inv by (simp add: spec_apply_def abs_state_def mds_inv_def map_get_put keep_intros)
qed


lemma applyRemoveDataNode_refines:
  assumes inv: "mds_inv mds" and run: "applyRemoveDataNode p mds = (mds', err)"
  shows "mds_inv mds' \<and> (abs_state mds', err) = spec_apply now OpRemoveDataNode p (abs_state mds)"
proof -
  from run have "mds' = mds\<lparr>dataNodes := remove1 (p_Addr p) (dataNodes mds),
      lastHeartbeat := map_del (p_Addr p) (lastHeartbeat mds)\<rparr>" "err = None"
    by (simp_all add: applyRemoveDataNode_def)
  moreover have "OpRemoveDataNode \<noteq> OpHeartbeat" by (simp add: op_defs)
  ultimately show ?thesis
    using inv by (simp add: spec_apply_def abs_state_def mds_inv_def map_get_del keep_intros)
qed

lemma apply_payload_refines:
  assumes inv: "mds_inv mds" and run: "apply_payload now op p mds = (mds', err)"
  shows "mds_inv mds' \<and> (abs_state mds', err) = spec_apply now op p (abs_state mds)"
proof -
  have ok: "mds_ok mds" using inv by (simp add: mds_inv_def)
  note tree = tree_op_refines [OF inv]
  consider "op = OpHeartbeat" | "op = OpRemoveDataNode" | "op = OpMkdir" | "op = OpCreateFile"
    | "op = OpCompleteFile" | "op = OpDelete" | "op = OpRename" | "op = OpUpdateSize"
    | "op \<notin> {OpHeartbeat, OpRemoveDataNode, OpMkdir, OpCreateFile, OpCompleteFile, OpDelete, OpRename, OpUpdateSize}"
    by blast
  then show ?thesis
  proof cases
    case 1
    with run applyHeartbeat_refines [OF inv] show ?thesis by (simp add: apply_payload_def)
  next
    case 2
    with run have "applyRemoveDataNode p mds = (mds', err)" by (simp add: apply_payload_def op_defs)
    with applyRemoveDataNode_refines [OF inv] 2 show ?thesis by simp
  next
    case 3
    with run have "applyMkdir now p mds = (mds', err)" by (simp add: apply_payload_def op_defs)
    from tree [where f = "spec_mkdir now p", OF applyMkdir_refines [OF ok this]] 3
    show ?thesis by (simp add: spec_apply_def op_defs)
  next
    case 4
    with run have "applyCreateFile now p mds = (mds', err)" by (simp add: apply_payload_def op_defs)
    from tree [where f = "spec_create now p", OF applyCreateFile_refines [OF ok this]] 4
    show ?thesis by (simp add: spec_apply_def op_defs)
  next
    case 5
    with run have "applyCompleteFile now p mds = (mds', err)" by (simp add: apply_payload_def op_defs)
    from tree [where f = "spec_complete now p", OF applyCompleteFile_refines [OF ok this]] 5
    show ?thesis by (simp add: spec_apply_def op_defs)
  next
    case 6
    with run have "applyDelete now p mds = (mds', err)" by (simp add: apply_payload_def op_defs)
    from tree [where f = "spec_delete now p", OF applyDelete_refines [OF ok this]] 6
    show ?thesis by (simp add: spec_apply_def op_defs)
  next
    case 7
    with run have "applyRename now p mds = (mds', err)" by (simp add: apply_payload_def op_defs)
    from tree [where f = "spec_rename now p", OF applyRename_refines [OF ok this]] 7
    show ?thesis by (simp add: spec_apply_def op_defs)
  next
    case 8
    with run have "applyUpdateSize now p mds = (mds', err)" by (simp add: apply_payload_def op_defs)
    from tree [where f = "spec_update_size now p", OF applyUpdateSize_refines [OF ok this]] 8
    show ?thesis by (simp add: spec_apply_def op_defs)
  next
    case 9
    with run inv show ?thesis by (auto simp: apply_payload_def spec_apply_def)
  qed
qed

subsection \<open>The server as a replicated machine\<close>

text \<open>A log entry and the clock reading of the replica that applies it.\<close>

type_synonym log_entry = "string \<times> json option"

definition apply_at :: "time \<times> log_entry \<Rightarrow> MetadataServer \<Rightarrow> result" where
  "apply_at c mds = (case c of (now, op, data) \<Rightarrow> Apply now op data mds)"

definition spec_at :: "time \<times> log_entry \<Rightarrow> fs_state \<Rightarrow> fs_state \<times> fs_error option" where
  "spec_at c st =
     (case c of (now, op, data) \<Rightarrow>
        (case Unmarshal_payload data of
           None \<Rightarrow> (st, Some ErrUnmarshal)
         | Some p \<Rightarrow> spec_apply now op p st))"

lemma apply_at_refines:
  "mds_inv mds \<Longrightarrow> apply_at c mds = (mds', err) \<Longrightarrow>
   mds_inv mds' \<and> (abs_state mds', err) = spec_at c (abs_state mds)"
  by (auto simp: apply_at_def spec_at_def Apply_def dest: apply_payload_refines
      split: prod.splits option.splits)

interpretation timed: replicated_machine mds_inv abs_state apply_at id spec_at
  by unfold_locales (simp add: apply_at_refines)

subsection \<open>Forgetting the clock\<close>

definition untimed_entry :: "entry \<Rightarrow> entry" where
  "untimed_entry e = e\<lparr>createdAt := 0, modTime := 0\<rparr>"

definition untimed_ns :: "namespace \<Rightarrow> namespace" where
  "untimed_ns m = (\<lambda>ps. map_option untimed_entry (m ps))"

definition untimed :: "fs_state \<Rightarrow> fs_state" where
  "untimed st = \<lparr>fs_ns = untimed_ns (fs_ns st), fs_nodes = fs_nodes st,
     fs_beats = map_option (\<lambda>t. 0) \<circ> fs_beats st\<rparr>"

lemma untimed_ns_apply: "untimed_ns m ps = map_option untimed_entry (m ps)"
  by (simp add: untimed_ns_def)

lemma untimed_entry_simps [simp]:
  "isDir (untimed_entry e) = isDir e" "fileID (untimed_entry e) = fileID e"
  "untimed_entry (e\<lparr>modTime := t\<rparr>) = untimed_entry e"
  "untimed_entry (untimed_entry e) = untimed_entry e"
  "untimed_entry (dir_entry n t u) = dir_entry n 0 0"
  "untimed_entry (file_entry n s t u f r) = file_entry n s 0 0 f r"
  "(untimed_entry e)\<lparr>modTime := 0\<rparr> = untimed_entry e"
  "untimed_entry (e\<lparr>entry_name := n\<rparr>) = (untimed_entry e)\<lparr>entry_name := n\<rparr>"
  by (simp_all add: untimed_entry_def dir_entry_def file_entry_def)

lemma untimed_upd: "untimed_ns (m(ps \<mapsto> e)) = (untimed_ns m)(ps \<mapsto> untimed_entry e)"
  by (rule ext) (simp add: untimed_ns_def)

lemma untimed_touch [simp]: "untimed_ns (touch now ps m) = untimed_ns m"
  by (rule ext) (simp add: untimed_ns_def touch_def on_path_def option.map_comp o_def)

lemma touch_untimed [simp]: "touch 0 ps (untimed_ns m) = untimed_ns m"
  by (rule ext) (simp add: untimed_ns_def touch_def on_path_def option.map_comp o_def)

lemma dir_at_untimed [simp]: "dir_at (untimed_ns m) ps = dir_at m ps"
  by (simp add: dir_at_def untimed_ns_def split: option.splits)

lemma untimed_prune: "untimed_ns (prune ps m) = prune ps (untimed_ns m)"
  by (rule ext) (simp add: untimed_ns_def prune_def)

lemma untimed_moved: "untimed_ns (moved src dst m) = moved src dst (untimed_ns m)"
  by (rule ext)
     (simp add: moved_def untimed_ns_def graft_def prune_def on_path_def option.map_comp o_def)

definition timeless :: "(namespace \<times> fs_error option) \<Rightarrow> (namespace \<times> fs_error option)" where
  "timeless r = (untimed_ns (fst r), snd r)"

lemma untimed_mkdir_loop:
  "timeless (spec_mkdir_loop path now i at parts m) = timeless (spec_mkdir_loop path 0 i at parts (untimed_ns m))"
proof (induction path now i at parts m rule: spec_mkdir_loop.induct)
  case (1 path now i at m)
  show ?case by (auto simp: timeless_def untimed_ns_def option.map_comp o_def)
next
  case (2 path now i at part parts m)
  show ?case
  proof (cases "m (at @ [part])")
    case None
    have "touch 0 at ((untimed_ns m)(at @ [part] \<mapsto> dir_entry part 0 0))
        = (untimed_ns m)(at @ [part] \<mapsto> dir_entry part 0 0)"
      using touch_untimed [of at "m(at @ [part] \<mapsto> dir_entry part now now)"]
      by (simp only: untimed_upd untimed_entry_simps)
    moreover have "timeless (spec_mkdir_loop path now (Suc i) (at @ [part]) parts
          (touch now at (m(at @ [part] \<mapsto> dir_entry part now now)))) =
        timeless (spec_mkdir_loop path 0 (Suc i) (at @ [part]) parts
          ((untimed_ns m)(at @ [part] \<mapsto> dir_entry part 0 0)))"
      using "2.IH"(1) [OF None] by (simp only: untimed_touch untimed_upd untimed_entry_simps)
    moreover have "untimed_ns m (at @ [part]) = None" using None by (simp add: untimed_ns_def)
    ultimately show ?thesis using None by simp
  next
    case (Some e)
    then show ?thesis
      using "2.IH"(2)
      by (auto simp: untimed_ns_apply [of m "at @ [part]"] timeless_def) (auto simp: untimed_ns_def option.map_comp o_def)
  qed
qed

lemma untimed_mkdir: "timeless (spec_mkdir now p m) = timeless (spec_mkdir 0 p (untimed_ns m))"
  unfolding spec_mkdir_def by (rule untimed_mkdir_loop)

lemma timeless_pair [simp]: "timeless (m, e) = (untimed_ns m, e)"
  by (simp add: timeless_def)

lemma untimed_ns_idem [simp]: "untimed_ns (untimed_ns m) = untimed_ns m"
  by (rule ext) (simp add: untimed_ns_def option.map_comp o_def)

lemma untimed_create: "timeless (spec_create now p m) = timeless (spec_create 0 p (untimed_ns m))"
  by (cases "m (splitPath (p_Path p))")
     (simp_all add: spec_create_def Let_def untimed_upd untimed_ns_apply [of m "splitPath (p_Path p)"])

lemma untimed_complete: "timeless (spec_complete now p m) = timeless (spec_complete 0 p (untimed_ns m))"
  by (cases "m (splitPath (p_Path p))")
     (simp_all add: spec_complete_def untimed_upd untimed_ns_apply [of m "splitPath (p_Path p)"]
       untimed_entry_def)

lemma untimed_update_size:
  "timeless (spec_update_size now p m) = timeless (spec_update_size 0 p (untimed_ns m))"
  by (cases "m (splitPath (p_Path p))")
     (simp_all add: spec_update_size_def untimed_upd untimed_ns_apply [of m "splitPath (p_Path p)"]
       untimed_entry_def)

lemma untimed_delete: "timeless (spec_delete now p m) = timeless (spec_delete 0 p (untimed_ns m))"
  by (simp add: spec_delete_def Let_def untimed_prune untimed_ns_apply [of m "splitPath (p_Path p)"])

lemma untimed_rename: "timeless (spec_rename now p m) = timeless (spec_rename 0 p (untimed_ns m))"
  by (simp add: spec_rename_def Let_def untimed_moved untimed_ns_apply [of m "splitPath (p_Path p)"])

lemma timeless_on_ns:
  assumes "timeless (f (fs_ns st)) = timeless (g (untimed_ns (fs_ns st)))"
  shows "(case on_ns f st of (st', e) \<Rightarrow> (untimed st', e)) =
    (case on_ns g (untimed st) of (st', e) \<Rightarrow> (untimed st', e))"
  using assms
  by (auto simp: on_ns_def timeless_def untimed_def option.map_comp o_def Let_def split: prod.splits)

definition spec_untimed :: "log_entry \<Rightarrow> fs_state \<Rightarrow> fs_state \<times> fs_error option" where
  "spec_untimed c st = (case spec_at (0, c) st of (st', e) \<Rightarrow> (untimed st', e))"

lemma untimed_idem [simp]: "untimed (untimed st) = untimed st"
  by (simp add: untimed_def o_def option.map_comp)

lemma untimed_spec_apply:
  "(case spec_apply now op p st of (st', e) \<Rightarrow> (untimed st', e)) =
   (case spec_apply 0 op p (untimed st) of (st', e) \<Rightarrow> (untimed st', e))"
  using timeless_on_ns [where f = "spec_mkdir now p" and g = "spec_mkdir 0 p", OF untimed_mkdir]
    timeless_on_ns [where f = "spec_create now p" and g = "spec_create 0 p", OF untimed_create]
   
    timeless_on_ns [where f = "spec_complete now p" and g = "spec_complete 0 p", OF untimed_complete]
    timeless_on_ns [where f = "spec_delete now p" and g = "spec_delete 0 p", OF untimed_delete]
   
    timeless_on_ns [where f = "spec_rename now p" and g = "spec_rename 0 p", OF untimed_rename]
    timeless_on_ns [where f = "spec_update_size now p" and g = "spec_update_size 0 p", OF untimed_update_size]
   
  by (simp add: spec_apply_def) (auto simp: untimed_def fun_eq_iff option.map_comp o_def)

lemma untimed_spec_at:
  "(case spec_at (now, c) st of (st', e) \<Rightarrow> (untimed st', e)) = spec_untimed c (untimed st)"
  using untimed_spec_apply
  by (cases c) (auto simp: spec_untimed_def spec_at_def split: option.splits)

lemma apply_at_untimed:
  assumes "mds_inv mds" "apply_at c mds = (mds', err)"
  shows "mds_inv mds' \<and> (untimed (abs_state mds'), err) = spec_untimed (snd c) (untimed (abs_state mds))"
  using apply_at_refines [OF assms] untimed_spec_at [of "fst c" "snd c" "abs_state mds"]
  by (auto split: prod.splits)

interpretation untimed: replicated_machine mds_inv "\<lambda>mds. untimed (abs_state mds)" apply_at snd spec_untimed
  by unfold_locales (simp add: apply_at_untimed)

end
