(* ===== verification/Meta_Snapshot.thy ===== *)
theory Meta_Snapshot
  imports State_Machine
begin

section \<open>Snapshots\<close>

text \<open>
  The structs that \<open>Snapshot\<close> and \<open>Restore\<close> (\<open>internal/metadata/state_machine.go\<close>) exchange, with
  the serialised tree of \<open>internal/metadata/mds.go\<close>; their JSON is \<open>Snapshot_Json\<close>. \<open>toSnapshot\<close>
  copies the pointer structure into a tree of values by recursion over the nodes; the model gives
  the recursion as fuel the number of addresses, and shows that this is enough on every tree.
  \<open>toEntry\<close> allocates the tree again. An absent and an empty \<open>Children\<close> map restore to the same map.
  \<open>NilSnapshot\<close> is the nil pointer that a JSON null among the children decodes to: \<open>toEntry\<close> panics
  when it comes to one, which \<open>Restore\<close> takes from \<open>has_nil\<close>.
\<close>

datatype entrySnapshot = NilSnapshot | EntrySnapshot
  (sn_Name: string) (sn_IsDir: bool) (sn_Size: int64) (sn_Mode: uint32) (sn_CreatedAt: time)
  (sn_ModTime: time) (sn_Status: string) (sn_FileID: string) (sn_Replicas: "Replica list")
  (sn_Children: "(string \<times> entrySnapshot) list")

record metaSnapshot =
  ms_Root :: "entrySnapshot option"
  ms_DataNodes :: "string list"
  ms_LastHeartbeat :: "(string, time) gomap option"

text \<open>The copy of one node, given the copies of its children.\<close>

definition snapshot_of :: "entry \<Rightarrow> (string \<times> entrySnapshot) list \<Rightarrow> entrySnapshot" where
  "snapshot_of e cs = EntrySnapshot (entry_name e) (isDir e) (entry_size e) (entry_mode e)
     (createdAt e) (modTime e) (entry_status e) (fileID e) (replicas e) cs"

fun toSnapshot :: "nat \<Rightarrow> entry_heap \<Rightarrow> ptr \<Rightarrow> entrySnapshot option" where
  "toSnapshot 0 h p = None"
| "toSnapshot (Suc fuel) h p =
     (case store h p of
        None \<Rightarrow> None
      | Some e \<Rightarrow>
          if isDir e then
            map_option (snapshot_of e)
              (fold_opt (\<lambda>(name, c) cs. map_option (\<lambda>s. map_put name s cs) (toSnapshot fuel h c))
                 (children e) [])
          else Some (snapshot_of e []))"

definition entry_of :: "entrySnapshot \<Rightarrow> entry" where
  "entry_of s = \<lparr>entry_name = sn_Name s, isDir = sn_IsDir s, entry_size = sn_Size s,
     entry_mode = sn_Mode s, createdAt = sn_CreatedAt s, modTime = sn_ModTime s,
     entry_status = sn_Status s, fileID = sn_FileID s, replicas = sn_Replicas s, children = []\<rparr>"

fun toEntry :: "entrySnapshot \<Rightarrow> entry_heap \<Rightarrow> entry_heap \<times> ptr"
  and toEntry_children :: "(string \<times> entrySnapshot) list \<Rightarrow> ptr \<Rightarrow> entry_heap \<Rightarrow> entry_heap" where
  "toEntry (EntrySnapshot nm dir sz md ct mt st fid reps cs) h =
     (let (h, p) = alloc (entry_of (EntrySnapshot nm dir sz md ct mt st fid reps cs)) h
      in if dir then (toEntry_children cs p h, p) else (h, p))"
| "toEntry NilSnapshot h = (h, next_ptr h)"
| "toEntry_children [] p h = h"
| "toEntry_children ((name, s) # cs) p h =
     (let (h, q) = toEntry s h in toEntry_children cs p (set_child p name q h))"

fun has_nil :: "entrySnapshot \<Rightarrow> bool" where
  "has_nil NilSnapshot = True"
| "has_nil (EntrySnapshot nm dir sz md ct mt st fid reps cs) = (dir \<and> list_ex (\<lambda>(n, c). has_nil c) cs)"

text \<open>The zero value of \<open>time.Time\<close>, 1 January of year 1.\<close>

definition zero_time :: time where
  "zero_time = - 62135596800000000000"

definition snapshot_struct :: "MetadataServer \<Rightarrow> metaSnapshot option" where
  "snapshot_struct mds =
     map_option (\<lambda>r. \<lparr>ms_Root = Some r, ms_DataNodes = dataNodes mds,
         ms_LastHeartbeat = Some (lastHeartbeat mds)\<rparr>)
       (toSnapshot (next_ptr (mds_heap mds)) (mds_heap mds) (mds_root mds))"

definition restore_root :: "metaSnapshot \<Rightarrow> entry_heap \<Rightarrow> entry_heap \<times> ptr" where
  "restore_root snap h =
     (case ms_Root snap of
        None \<Rightarrow> alloc (dir_entry ''/'' zero_time zero_time) h
      | Some s \<Rightarrow> toEntry s h)"

subsection \<open>Reading a snapshot\<close>

fun snap_find :: "entrySnapshot \<Rightarrow> string list \<Rightarrow> entrySnapshot option" where
  "snap_find s [] = Some s"
| "snap_find s (n # ns) =
     (case map_of (sn_Children s) n of None \<Rightarrow> None | Some c \<Rightarrow> snap_find c ns)"

definition snap_view :: "entrySnapshot \<Rightarrow> namespace" where
  "snap_view s ps = map_option entry_of (snap_find s ps)"

lemma snap_view_Nil [simp]: "snap_view s [] = Some (entry_of s)"
  by (simp add: snap_view_def)

lemma snap_view_Cons:
  "snap_view s (n # ns) = (case map_of (sn_Children s) n of None \<Rightarrow> None | Some c \<Rightarrow> snap_view c ns)"
  by (simp add: snap_view_def split: option.splits)

fun wf_snap :: "entrySnapshot \<Rightarrow> bool" where
  "wf_snap NilSnapshot \<longleftrightarrow> False"
| "wf_snap (EntrySnapshot nm dir sz md ct mt st fid reps cs) \<longleftrightarrow>
     map_ok cs \<and> (\<not> dir \<longrightarrow> cs = []) \<and>
     list_all (\<lambda>(n, c). valid_name n \<and> sn_Name c = n \<and> wf_snap c) cs"

lemma entry_of_snapshot [simp]: "entry_of (snapshot_of e cs) = attrs e"
  by (simp add: entry_of_def snapshot_of_def attrs_def)

lemma snapshot_of_simps [simp]:
  "sn_Children (snapshot_of e cs) = cs" "sn_IsDir (snapshot_of e cs) = isDir e"
  "sn_Name (snapshot_of e cs) = entry_name e"
  by (simp_all add: snapshot_of_def)

text \<open>The loop over the children of a node copies the map pointwise.\<close>

lemma copy_loop:
  assumes "fold_opt (\<lambda>(name, c) cs. map_option (\<lambda>s. map_put name s cs) (g c)) m acc = Some cs"
    and "map_ok m" "map_ok acc" "fst ` set m \<inter> fst ` set acc = {}"
  shows "map_ok cs \<and> (\<forall>n. map_of cs n =
      (case map_of m n of None \<Rightarrow> map_of acc n | Some c \<Rightarrow> g c))
    \<and> (\<forall>c \<in> snd ` set m. g c \<noteq> None)"
  using assms
proof (induction m arbitrary: acc)
  case (Cons x m)
  obtain n c where x: "x = (n, c)" by (cases x)
  with Cons.prems obtain s where s: "g c = Some s"
    and rest: "fold_opt (\<lambda>(name, c) cs. map_option (\<lambda>s. map_put name s cs) (g c)) m (map_put n s acc) = Some cs"
    by (auto split: option.splits)
  have "fst ` set m \<inter> fst ` set (map_put n s acc) = {}"
    using Cons.prems x by (auto simp: keys_put)
  with Cons.IH [OF rest] Cons.prems x
  have IH: "map_ok cs" "\<And>k. map_of cs k = (case map_of m k of None \<Rightarrow> map_of (map_put n s acc) k | Some c \<Rightarrow> g c)"
    "\<forall>c \<in> snd ` set m. g c \<noteq> None"
    by (simp_all add: map_ok_put)
  have "map_of m n = None" using Cons.prems x by (simp add: map_of_eq_None_iff)
  with IH x s show ?case by (simp add: map_get_put split: option.split)
qed simp

lemma view_Cons: "view h p (n # ns) = (case child h p n of None \<Rightarrow> None | Some c \<Rightarrow> view h c ns)"
  by (simp add: view_def split: option.splits)

lemma toSnapshot_view:
  assumes ok: "heap_ok h root"
  shows "toSnapshot fuel h p = Some s \<Longrightarrow>
    (\<exists>e. store h p = Some e \<and> sn_Name s = entry_name e) \<and> wf_snap s \<and> snap_view s = view h p"
proof (induction fuel arbitrary: p s)
  case (Suc fuel)
  from Suc.prems obtain e where e: "store h p = Some e" by (auto split: option.splits)
  then have c: "child h p n = map_of (children e) n" for n by (simp add: child_def)
  show ?case
  proof (cases "isDir e")
    case False
    then have s: "s = snapshot_of e []" using Suc.prems e by simp
    have "snap_view s ps = view h p ps" for ps
      using e c heap_ok_leaf [OF ok e False] s
      by (cases ps) (auto simp: snap_view_Cons view_Cons view_def attrs_at_def)
    then show ?thesis using e s False by (auto simp: snapshot_of_def)
  next
    case True
    then obtain cs where s: "s = snapshot_of e cs"
      and f: "fold_opt (\<lambda>(name, c) cs. map_option (\<lambda>s. map_put name s cs) (toSnapshot fuel h c))
                (children e) [] = Some cs"
      using Suc.prems e by auto
    from copy_loop [OF f heap_ok_map [OF ok e]]
    have cs: "map_ok cs" "\<And>n. map_of cs n = (case child h p n of None \<Rightarrow> None | Some c \<Rightarrow> toSnapshot fuel h c)"
      by (auto simp: c split: option.splits)
    have "valid_name n \<and> sn_Name t = n \<and> wf_snap t" if "(n, t) \<in> set cs" for n t
    proof -
      have "map_of cs n = Some t" using that cs(1) by simp
      with cs(2) obtain q where q: "child h p n = Some q" "toSnapshot fuel h q = Some t"
        by (auto split: option.splits)
      with Suc.IH [OF q(2)] heap_ok_child_name [OF ok q(1)] heap_ok_child_valid [OF ok q(1)]
      show ?thesis by auto
    qed
    then have "wf_snap s" using cs(1) True s by (auto simp: snapshot_of_def list_all_iff)
    moreover have "snap_view s ps = view h p ps" for ps
    proof (cases ps)
      case Nil
      then show ?thesis using e s by (simp add: view_def attrs_at_def)
    next
      case (Cons n ns)
      have some: "map_of cs n \<noteq> None" if "child h p n = Some q" for q
      proof -
        have "q \<in> snd ` set (children e)"
          using that c by (metis image_eqI map_of_SomeD snd_conv)
        then have "toSnapshot fuel h q \<noteq> None"
          using copy_loop [OF f heap_ok_map [OF ok e]] by auto
        then show ?thesis using cs(2) that by simp
      qed
      then show ?thesis
        using Cons s cs(2) [of n] Suc.IH
        by (auto simp: snap_view_Cons view_Cons split: option.splits)
    qed
    ultimately show ?thesis using e s by auto
  qed
qed simp

lemma toSnapshot_enough:
  assumes ok: "heap_ok h root"
  shows "walk h root ps = Some p \<Longrightarrow> next_ptr h \<le> fuel + length ps \<Longrightarrow> \<exists>s. toSnapshot fuel h p = Some s"
proof (induction fuel arbitrary: ps p)
  case 0
  with walk_length_bound [OF ok] show ?case by fastforce
next
  case (Suc fuel)
  obtain e where e: "store h p = Some e" using walk_store [OF ok Suc.prems(1)] by blast
  have "\<exists>cs'. (\<lambda>(name, c) cs. map_option (\<lambda>s. map_put name s cs) (toSnapshot fuel h c)) x cs = Some cs'"
    if "x \<in> set (children e)" for x cs
  proof -
    obtain n c where x: "x = (n, c)" by (cases x)
    with that heap_ok_map [OF ok e] have "child h p n = Some c" using e by (simp add: child_def)
    then have "walk h root (ps @ [n]) = Some c" using Suc.prems(1) by (simp add: walk_snoc)
    with Suc.IH [of "ps @ [n]" c] Suc.prems(2) x show ?thesis by auto
  qed
  from fold_opt_total [of "children e", OF this] e show ?case by (auto split: if_splits)
qed

subsection \<open>Restoring a snapshot\<close>

lemma heap_ok_new_root:
  "heap_ok h r \<Longrightarrow> is_dir h p \<Longrightarrow> (\<And>x n. child h x n \<noteq> Some p) \<Longrightarrow> heap_ok h p"
  unfolding heap_ok_def by blast

lemma no_walk_into:
  assumes "heap_ok h P" "q \<noteq> P"
  shows "walk h q rs \<noteq> Some P"
  using assms heap_ok_child_root [OF assms(1)]
  by (cases rs rule: rev_cases) (auto simp: walk_snoc split: option.splits)

text \<open>Linking a fresh, unreferenced node under a root leaves every other root alone.\<close>

lemma link_fresh:
  assumes P: "heap_ok h P" and q: "store h q = Some e" "entry_name e = n" "valid_name n"
    and fresh: "\<And>x m. child h x m \<noteq> Some q" "q \<noteq> P"
  shows "heap_ok (set_child P n q h) P"
    and "view (set_child P n q h) P = graft [n] (view h q) (view h P)"
    and "heap_ok h r \<Longrightarrow> r \<noteq> P \<Longrightarrow> r \<noteq> q \<Longrightarrow>
      heap_ok (set_child P n q h) r \<and> view (set_child P n q h) r = view h r"
proof -
  note dir = heap_ok_root [OF P]
  show "heap_ok (set_child P n q h) P"
    by (rule heap_ok_set_child [OF P dir q(3,1,2) fresh(2,1)])
  show "view (set_child P n q h) P = graft [n] (view h q) (view h P)"
    using view_set_child [OF P, of "[]" P q n] no_walk_into [OF P fresh(2)] by simp
  assume r: "heap_ok h r" "r \<noteq> P" "r \<noteq> q"
  have "view (set_child P n q h) r = view h r"
    unfolding view_def attrs_at_set_child
    using walk_graft_below [OF no_walk_into [OF P r(2)]] by (intro ext) simp
  then show "heap_ok (set_child P n q h) r \<and> view (set_child P n q h) r = view h r"
    using heap_ok_set_child [OF r(1) dir q(3,1,2) _ fresh(1)] r(3) by auto
qed

lemma view_root_attrs: "view h p [] = attrs_at h p"
  by (simp add: view_def)

lemma toEntry_ok:
  "wf_snap s \<Longrightarrow> heap_ok h r0 \<Longrightarrow> toEntry s h = (h', p) \<Longrightarrow>
     p = next_ptr h \<and> (\<exists>e. store h' p = Some e \<and> entry_name e = sn_Name s) \<and>
     (\<forall>x n. child h' x n \<noteq> Some p) \<and> view h' p = snap_view s \<and>
     (\<forall>r. heap_ok h r \<longrightarrow> heap_ok h' r \<and> view h' r = view h r)"
  "map_ok cs \<Longrightarrow> list_all (\<lambda>(n, c). valid_name n \<and> sn_Name c = n \<and> wf_snap c) cs \<Longrightarrow>
   heap_ok h p \<Longrightarrow>
     heap_ok (toEntry_children cs p h) p \<and>
     view (toEntry_children cs p h) p =
       (\<lambda>ps. case ps of [] \<Rightarrow> view h p []
          | n # ns \<Rightarrow> (case map_of cs n of None \<Rightarrow> view h p ps | Some s \<Rightarrow> snap_view s ns)) \<and>
     (\<forall>r. heap_ok h r \<longrightarrow> r \<noteq> p \<longrightarrow>
        heap_ok (toEntry_children cs p h) r \<and> view (toEntry_children cs p h) r = view h r)"
proof (induction s h and cs p h arbitrary: h' p r0 and rule: toEntry_toEntry_children.induct)
  case (1 nm dir sz md ct mt st fid reps cs h)
  let ?s = "EntrySnapshot nm dir sz md ct mt st fid reps cs"
  let ?e = "entry_of ?s"
  obtain h1 q where a: "alloc ?e h = (h1, q)" by (cases "alloc ?e h")
  have e: "children ?e = []" "isDir ?e = dir" "entry_name ?e = nm" "attrs ?e = ?e"
    by (simp_all add: entry_of_def attrs_def)
  note al = alloc_simps [OF a]
  have p: "p = q" using "1.prems"(3) a by (auto simp: Let_def split: if_splits)
  have keep: "heap_ok h1 r \<and> view h1 r = view h r" if "heap_ok h r" for r
    using heap_ok_alloc [OF that a e(1)] view_alloc(1) [OF that a e(1)] by simp
  have v1: "view h1 q = (\<lambda>rs. if rs = [] then Some ?e else None)"
    using view_alloc(2) [OF "1.prems"(2) a e(1)] unfolding e(4) .
  have free: "child h1 x n \<noteq> Some q" for x n by (rule alloc_unreferenced [OF "1.prems"(2) a e(1)])
  show ?case
  proof (cases dir)
    case False
    then have "h' = h1" "cs = []" using "1.prems" a by auto
    then have "snap_view ?s = view h1 q"
      unfolding v1 by (intro ext) (auto simp: snap_view_Cons neq_Nil_conv)
    then show ?thesis
      using \<open>h' = h1\<close> keep free al e(3) p by auto
  next
    case True
    have q: "heap_ok h1 q"
      using heap_ok_new_root [OF conjunct1 [OF keep [OF "1.prems"(2)]] _ free] True e alloc_is_dir [OF a, of q] by simp
    have h': "h' = toEntry_children cs q h1" using "1.prems"(3) a True by auto
    have wf: "map_ok cs" "list_all (\<lambda>(n, c). valid_name n \<and> sn_Name c = n \<and> wf_snap c) cs"
      using "1.prems"(1) by simp_all
    note B = "1.IH" [OF refl a [symmetric] True wf q, folded h']
    have "view h' q = snap_view ?s"
    proof (rule ext)
      fix ps
      show "view h' q ps = snap_view ?s ps"
        using B v1 by (cases ps) (simp_all add: snap_view_Cons split: option.splits)
    qed
    moreover have "attrs_at h' q = Some ?e"
      using B v1 by (simp add: view_root_attrs [symmetric])
    then obtain z where "store h' q = Some z" "attrs z = ?e" by (auto simp: attrs_at_def)
    then have "\<exists>e. store h' q = Some e \<and> entry_name e = sn_Name ?s"
      using e(3) attrs_simps(2) [of z] by auto
    moreover have "child h' x n \<noteq> Some q" for x n
      using B heap_ok_child_root by blast
    moreover have "heap_ok h' r \<and> view h' r = view h r" if "heap_ok h r" for r
    proof -
      have "r \<noteq> q" using is_dir_store [OF heap_ok_root [OF that]] heap_ok_fresh [OF that] al(1) by auto
      then show ?thesis using B keep [OF that] by auto
    qed
    ultimately show ?thesis using p al(1) by simp
  qed
next
  case (3 p h)
  then show ?case by (auto simp: fun_eq_iff split: list.split)
next
  case (4 name s cs p h)
  obtain h1 q where t: "toEntry s h = (h1, q)" by (cases "toEntry s h")
  have wf: "wf_snap s" "valid_name name" "sn_Name s = name" and cs: "map_ok cs" "map_of cs name = None"
    "list_all (\<lambda>(n, c). valid_name n \<and> sn_Name c = n \<and> wf_snap c) cs"
    using "4.prems" by (auto simp: map_of_eq_None_iff)
  note A = "4.IH"(1) [OF wf(1) "4.prems"(3) t]
  then obtain e where e: "store h1 q = Some e" "entry_name e = name" using wf(3) by blast
  have new: "r \<noteq> q" if "heap_ok h r" for r
    using is_dir_store [OF heap_ok_root [OF that]] heap_ok_fresh [OF that] A by auto
  have p1: "heap_ok h1 p" "view h1 p = view h p" using A "4.prems"(3) by auto
  have free: "child h1 x m \<noteq> Some q" for x m using A by blast
  note L = link_fresh [OF p1(1) e wf(2) free new [OF "4.prems"(3), symmetric]]
  let ?h2 = "set_child p name q h1"
  note B = "4.IH"(2) [OF refl t [symmetric] cs(1,3) L(1)]
  have def: "toEntry_children ((name, s) # cs) p h = toEntry_children cs p ?h2" using t by simp
  have v: "view ?h2 p ps = (case ps of [] \<Rightarrow> view h p []
      | n # ns \<Rightarrow> if n = name then snap_view s ns else view h p ps)" for ps
    using L(2) A p1(2) by (cases ps) (auto simp: graft_def)
  have "heap_ok ?h2 r \<and> view ?h2 r = view h r" if "heap_ok h r" "r \<noteq> p" for r
    using L(3) [OF _ that(2) new [OF that(1)]] A that by auto
  then show ?case
    unfolding def using B cs(2) by (auto simp: v fun_eq_iff split: list.splits option.splits)
qed simp

text \<open>The copy of a tree always exists.\<close>

lemma snapshot_struct_total: "mds_inv mds \<Longrightarrow> \<exists>snap. snapshot_struct mds = Some snap"
  using toSnapshot_enough [of "mds_heap mds" "mds_root mds" "[]"]
  by (fastforce simp: snapshot_struct_def mds_inv_def)

lemma wf_snap_no_nil: "wf_snap s \<Longrightarrow> \<not> has_nil s"
  by (induction s rule: has_nil.induct) (auto simp: list_all_iff list_ex_iff)

end
