(* ===== verification/Go_Time.thy ===== *)
theory Go_Time
  imports Go_Strings "HOL-Library.Monad_Syntax"
begin

section \<open>Time stamps on the wire\<close>

text \<open>
  \<open>time.Time\<close> as \<open>encoding/json\<close> writes and reads it, the text of RFC 3339 with nanoseconds. A time
  is the number of nanoseconds since 1970 in UTC; the text shows it in the zone that the time carries,
  and \<open>zone t\<close> is the offset of that zone in whole minutes. \<open>MarshalJSON\<close> fails when the year in that zone has not
  four digits.
\<close>

subsection \<open>The calendar\<close>

definition leap_year :: "nat \<Rightarrow> bool" where
  "leap_year y \<longleftrightarrow> 4 dvd y \<and> (\<not> 100 dvd y \<or> 400 dvd y)"

definition year_days :: "nat \<Rightarrow> nat" where
  "year_days y = (if leap_year y then 366 else 365)"

definition month_days :: "nat \<Rightarrow> nat list" where
  "month_days y = [31, if leap_year y then 29 else 28, 31, 30, 31, 30, 31, 31, 30, 31, 30, 31]"

text \<open>The days from the first day of year 0 to the first day of a year, and back: the year of a
  day and the days into it, the month of a day of a year and the days into it.\<close>

definition days_before :: "nat \<Rightarrow> nat" where
  "days_before y = 365 * y + (y + 3) div 4 + (y + 399) div 400 - (y + 99) div 100"

function year_of :: "nat \<Rightarrow> nat \<Rightarrow> nat \<times> nat" where
  "year_of y d = (if d < year_days y then (y, d) else year_of (Suc y) (d - year_days y))"
  by pat_completeness auto
termination
  by (relation "measure snd") (auto simp: year_days_def)

declare year_of.simps [simp del]

fun month_of :: "nat list \<Rightarrow> nat \<Rightarrow> nat \<Rightarrow> nat \<times> nat" where
  "month_of [] m d = (m, d)"
| "month_of (l # ls) m d = (if d < l then (m, d) else month_of ls (Suc m) (d - l))"

lemma ceil_Suc: "0 < n \<Longrightarrow> (Suc y + (n - 1)) div n = (y + (n - 1)) div n + (if n dvd y then 1 else 0 :: nat)"
proof -
  assume n: "0 < n"
  then have "Suc (y + (n - 1)) mod n = 0 \<longleftrightarrow> n dvd y" by (simp add: mod_eq_0_iff_dvd)
  then show ?thesis by (simp add: div_Suc)
qed

lemma days_before_Suc: "days_before (Suc y) = days_before y + year_days y"
proof -
  have "400 dvd y \<Longrightarrow> 100 dvd y" "100 dvd y \<Longrightarrow> 4 dvd y" by (rule dvd_trans [of _ "400 :: nat"], simp_all)
      (rule dvd_trans [of _ "100 :: nat"], simp_all)
  moreover have "(y + 99) div 100 \<le> y" using div_le_mono [of "y + 99" "100 * y" 100] by (cases "y = 0") simp_all
  moreover have "(Suc y + 3) div 4 = (y + 3) div 4 + (if 4 dvd y then 1 else 0)"
    "(Suc y + 99) div 100 = (y + 99) div 100 + (if 100 dvd y then 1 else 0)"
    "(Suc y + 399) div 400 = (y + 399) div 400 + (if 400 dvd y then 1 else 0)"
    using ceil_Suc [of 4 y] ceil_Suc [of 100 y] ceil_Suc [of 400 y] by simp_all
  ultimately show ?thesis
    unfolding days_before_def year_days_def leap_year_def
    by (cases "4 dvd y"; cases "100 dvd y"; cases "400 dvd y") (simp_all add: ac_simps)
qed

lemma days_before_0: "days_before 0 = 0"
  by (simp add: days_before_def)

lemma days_before_mono: "y \<le> z \<Longrightarrow> days_before y \<le> days_before z"
  by (rule lift_Suc_mono_le [of days_before]) (simp_all add: days_before_Suc)

lemma year_of_days: "year_of y d = (z, r) \<Longrightarrow> r < year_days z \<and> days_before y + d = days_before z + r"
proof (induction y d rule: year_of.induct)
  case (1 y d)
  show ?case
  proof (cases "d < year_days y")
    case True
    then show ?thesis using "1.prems" by (simp add: year_of.simps [of y d])
  next
    case False
    then have "year_of (Suc y) (d - year_days y) = (z, r)" using "1.prems" by (simp add: year_of.simps [of y d])
    from "1.IH" [OF False this] False show ?thesis by (simp add: days_before_Suc)
  qed
qed

lemma sum_month_days: "sum_list (month_days y) = year_days y"
  by (simp add: month_days_def year_days_def)

lemma month_of_days:
  "d < sum_list ls \<Longrightarrow> month_of ls m d = (m', r) \<Longrightarrow>
   \<exists>k. m' = m + k \<and> k < length ls \<and> r < ls ! k \<and> sum_list (take k ls) + r = d"
proof (induction ls arbitrary: m d)
  case (Cons l ls)
  show ?case
  proof (cases "d < l")
    case False
    then have "d - l < sum_list ls" "month_of ls (Suc m) (d - l) = (m', r)" using Cons.prems by simp_all
    from Cons.IH [OF this] obtain k where "m' = Suc m + k" "k < length ls" "r < ls ! k" "sum_list (take k ls) + r = d - l"
      by blast
    then show ?thesis using False by (intro exI [of _ "Suc k"]) simp
  qed (use Cons.prems in \<open>auto intro!: exI [of _ 0]\<close>)
qed simp

subsection \<open>Digits\<close>

definition is_digit :: "char \<Rightarrow> bool" where
  "is_digit c \<longleftrightarrow> 48 \<le> (of_char c :: nat) \<and> (of_char c :: nat) \<le> 57"

definition digits_num :: "string \<Rightarrow> nat" where
  "digits_num s = foldl (\<lambda>a c. 10 * a + (of_char c - 48)) 0 s"

text \<open>The last \<open>n\<close> decimal digits of a number.\<close>

fun pad :: "nat \<Rightarrow> nat \<Rightarrow> string" where
  "pad 0 k = ''''"
| "pad (Suc n) k = pad n (k div 10) @ [digit_char (k mod 10)]"

lemma of_digit_nat: "d < 10 \<Longrightarrow> (of_char (digit_char d) :: nat) = 48 + d"
  by (simp add: digit_char_def)

lemma digit_char_digit: "d < 10 \<Longrightarrow> is_digit (digit_char d)"
  by (simp add: is_digit_def of_digit_nat)

lemma digits_num_snoc: "digits_num (s @ [c]) = 10 * digits_num s + (of_char c - 48)"
  by (simp add: digits_num_def)

lemma length_pad [simp]: "length (pad n k) = n"
  by (induction n arbitrary: k) simp_all

lemma pad_digits: "list_all is_digit (pad n k)"
  by (induction n arbitrary: k) (simp_all add: digit_char_digit)

lemma digits_num_pad: "k < 10 ^ n \<Longrightarrow> digits_num (pad n k) = k"
  by (induction n arbitrary: k) (simp_all add: digits_num_snoc of_digit_nat, simp add: digits_num_def)

definition digits :: "nat \<Rightarrow> string \<Rightarrow> (nat \<times> string) option" where
  "digits n s =
     (if length s < n \<or> \<not> list_all is_digit (take n s) then None
      else Some (digits_num (take n s), drop n s))"

definition lit :: "char \<Rightarrow> string \<Rightarrow> string option" where
  "lit c s = (case s of [] \<Rightarrow> None | x # r \<Rightarrow> if x = c then Some r else None)"

lemma digits_pad [simp]: "k < 10 ^ n \<Longrightarrow> digits n (pad n k @ s) = Some (k, s)"
  by (simp add: digits_def pad_digits digits_num_pad)

lemma lit_Cons [simp]: "lit c (c # s) = Some s"
  by (simp add: lit_def)

subsection \<open>Fractions and zones\<close>

definition strip_zeros :: "string \<Rightarrow> string" where
  "strip_zeros s = rev (dropWhile (\<lambda>c. c = CHR ''0'') (rev s))"

definition frac_text :: "nat \<Rightarrow> string" where
  "frac_text ns = (if ns = 0 then '''' else CHR ''.'' # strip_zeros (pad 9 ns))"

definition zone_text :: "int \<Rightarrow> string" where
  "zone_text off =
     (if off = 0 then ''Z''
      else (if off < 0 then CHR ''-'' else CHR ''+'') # pad 2 (nat \<bar>off\<bar> div 60) @ CHR '':'' # pad 2 (nat \<bar>off\<bar> mod 60))"

text \<open>Digits after the ninth are dropped.\<close>

definition parse_frac :: "string \<Rightarrow> nat \<times> string" where
  "parse_frac s =
     (case s of
        [] \<Rightarrow> (0, s)
      | c # r \<Rightarrow>
          if c = CHR ''.'' \<and> takeWhile is_digit r \<noteq> ''''
          then (digits_num (take 9 (takeWhile is_digit r @ replicate 9 CHR ''0'')), dropWhile is_digit r)
          else (0, s))"

definition parse_zone :: "string \<Rightarrow> int option" where
  "parse_zone s =
     (case s of
        [] \<Rightarrow> None
      | c # r \<Rightarrow>
          if c = CHR ''Z'' then (if r = '''' then Some 0 else None)
          else if c \<noteq> CHR ''+'' \<and> c \<noteq> CHR ''-'' then None
          else do {
            (h, r) \<leftarrow> digits 2 r;
            r \<leftarrow> lit CHR '':'' r;
            (m, r) \<leftarrow> digits 2 r;
            if r = '''' \<and> h < 24 \<and> m < 60
            then Some ((if c = CHR ''-'' then -1 else 1) * int (60 * h + m)) else None })"

lemma strip_zeros_pad: "\<exists>k. s = strip_zeros s @ replicate k CHR ''0''"
proof -
  have "rev s = takeWhile (\<lambda>c. c = CHR ''0'') (rev s) @ dropWhile (\<lambda>c. c = CHR ''0'') (rev s)" by simp
  moreover have "takeWhile (\<lambda>c. c = CHR ''0'') (rev s) = replicate (length (takeWhile (\<lambda>c. c = CHR ''0'') (rev s))) CHR ''0''"
    by (intro replicate_eqI) (auto dest: set_takeWhileD)
  ultimately show ?thesis
    by (intro exI [of _ "length (takeWhile (\<lambda>c. c = CHR ''0'') (rev s))"]) (metis rev_append rev_replicate rev_rev_ident strip_zeros_def)
qed

lemma digits_num_zeros: "digits_num (replicate n CHR ''0'') = 0"
  by (induction n) (simp_all add: digits_num_def)

lemma zone_start: "\<exists>c r. zone_text off = c # r \<and> \<not> is_digit c \<and> c \<noteq> CHR ''.''"
  by (auto simp: zone_text_def is_digit_def)

lemma parse_frac_text:
  assumes "ns < 10 ^ 9" "s = c # r" "\<not> is_digit c" "c \<noteq> CHR ''.''"
  shows "parse_frac (frac_text ns @ s) = (ns, s)"
proof (cases "ns = 0")
  case True
  then show ?thesis using assms by (simp add: frac_text_def parse_frac_def)
next
  case False
  let ?d = "strip_zeros (pad 9 ns)"
  obtain k where k: "pad 9 ns = ?d @ replicate k CHR ''0''" using strip_zeros_pad by blast
  have all: "list_all is_digit ?d" using pad_digits [of 9 ns] k by (metis list_all_append)
  then have tw: "takeWhile is_digit (?d @ s) = ?d" "dropWhile is_digit (?d @ s) = s"
    using assms(2,3) by (simp_all add: takeWhile_append dropWhile_append list_all_iff)
  have "?d \<noteq> ''''"
  proof
    assume "?d = ''''"
    then have "digits_num (pad 9 ns) = 0" using k digits_num_zeros by simp
    then show False using digits_num_pad [OF assms(1)] False by simp
  qed
  moreover have "take 9 (?d @ replicate 9 CHR ''0'') = pad 9 ns"
  proof -
    have l: "length ?d + k = 9" using arg_cong [OF k, of length] by simp
    then have "take 9 (?d @ replicate 9 CHR ''0'') = ?d @ replicate (9 - length ?d) CHR ''0''" by simp
    also have "9 - length ?d = k" using l by simp
    also have "?d @ replicate k CHR ''0'' = pad 9 ns" by (rule k [symmetric])
    finally show ?thesis .
  qed
  ultimately show ?thesis
    using False tw digits_num_pad [OF assms(1)] by (simp add: frac_text_def parse_frac_def)
qed

lemma parse_zone_text:
  assumes "\<bar>off\<bar> < 24 * 60"
  shows "parse_zone (zone_text off) = Some off"
proof -
  have b: "nat \<bar>off\<bar> div 60 < 24" "nat \<bar>off\<bar> mod 60 < 60" using assms by auto
  then have p: "digits 2 (pad 2 (nat \<bar>off\<bar> div 60) @ s) = Some (nat \<bar>off\<bar> div 60, s)"
    "digits 2 (pad 2 (nat \<bar>off\<bar> mod 60)) = Some (nat \<bar>off\<bar> mod 60, '''')" for s
    using digits_pad [of _ 2 "''''"] by simp_all
  have "int (60 * (nat \<bar>off\<bar> div 60) + nat \<bar>off\<bar> mod 60) = \<bar>off\<bar>" by (simp only: mult_div_mod_eq)
  then show ?thesis using b p by (auto simp: zone_text_def parse_zone_def simp del: of_nat_add of_nat_mult)
qed

subsection \<open>RFC 3339\<close>

definition day_nanos :: int where
  "day_nanos = 86400 * 10 ^ 9"

text \<open>The first day of 1970, counted from the first day of year 0.\<close>

definition epoch_day :: nat where
  "epoch_day = 719528"

definition clock_text :: "nat \<Rightarrow> string" where
  "clock_text secs = pad 2 (secs div 3600) @ CHR '':'' # pad 2 (secs div 60 mod 60) @ CHR '':'' # pad 2 (secs mod 60)"

definition date_text :: "nat \<Rightarrow> nat \<Rightarrow> nat \<Rightarrow> string" where
  "date_text y m d = pad 4 y @ CHR ''-'' # pad 2 m @ CHR ''-'' # pad 2 d"

definition format_time :: "(time \<Rightarrow> int) \<Rightarrow> time \<Rightarrow> string option" where
  "format_time zone t =
     (let loc = t + zone t * 60 * 10 ^ 9;
          day = loc div day_nanos + int epoch_day;
          rest = nat (loc mod day_nanos)
      in if day < 0 then None
         else case year_of 0 (nat day) of (y, yd) \<Rightarrow>
           if 9999 < y then None
           else case month_of (month_days y) 1 yd of (m, d) \<Rightarrow>
             Some (date_text y m (d + 1) @ CHR ''T'' # clock_text (rest div 10 ^ 9) @ frac_text (rest mod 10 ^ 9) @ zone_text (zone t)))"

definition parse_time :: "string \<Rightarrow> time option" where
  "parse_time s = do {
     (y, s) \<leftarrow> digits 4 s; s \<leftarrow> lit CHR ''-'' s;
     (m, s) \<leftarrow> digits 2 s; s \<leftarrow> lit CHR ''-'' s;
     (d, s) \<leftarrow> digits 2 s; s \<leftarrow> lit CHR ''T'' s;
     (h, s) \<leftarrow> digits 2 s; s \<leftarrow> lit CHR '':'' s;
     (mi, s) \<leftarrow> digits 2 s; s \<leftarrow> lit CHR '':'' s;
     (sec, s) \<leftarrow> digits 2 s;
     let (ns, s) = parse_frac s;
     off \<leftarrow> parse_zone s;
     if 1 \<le> m \<and> m \<le> 12 \<and> 1 \<le> d \<and> d \<le> month_days y ! (m - 1) \<and> h < 24 \<and> mi < 60 \<and> sec < 60
     then Some ((int (days_before y + sum_list (take (m - 1) (month_days y)) + (d - 1)) - int epoch_day) * day_nanos
            + int ((h * 3600 + mi * 60 + sec) * 10 ^ 9 + ns) - off * 60 * 10 ^ 9)
     else None }"

text \<open>The times that can be written.\<close>

definition wire_time :: "(time \<Rightarrow> int) \<Rightarrow> time \<Rightarrow> bool" where
  "wire_time zone t \<longleftrightarrow>
     - int epoch_day * day_nanos \<le> t + zone t * 60 * 10 ^ 9 \<and>
     t + zone t * 60 * 10 ^ 9 < (int (days_before 10000) - int epoch_day) * day_nanos"

lemma le_div_nanos: "0 < D \<Longrightarrow> c \<le> l div D \<longleftrightarrow> c * D \<le> (l :: int)"
proof -
  assume "0 < D"
  moreover have "(l + (- c) * D) div D = - c + l div D" using \<open>0 < D\<close> by (intro div_mult_self1) simp
  ultimately show ?thesis using pos_imp_zdiv_nonneg_iff [of D "l + (- c) * D"] by simp
qed

lemma format_time_Some: "format_time zone t \<noteq> None \<longleftrightarrow> wire_time zone t"
proof -
  let ?l = "t + zone t * 60 * 10 ^ 9"
  let ?day = "?l div day_nanos + int epoch_day"
  have pos: "0 < day_nanos" by (simp add: day_nanos_def)
  obtain y r where y: "year_of 0 (nat ?day) = (y, r)" by fastforce
  from year_of_days [OF this] have d: "nat ?day = days_before y + r" "r < year_days y" by (simp_all add: days_before_0)
  have "days_before 10000 \<le> nat ?day" if "9999 < y" using days_before_mono [of 10000 y] that d by simp
  moreover have "nat ?day < days_before 10000" if "\<not> 9999 < y"
    using days_before_mono [of "Suc y" 10000] that d unfolding days_before_Suc by simp
  moreover have "?day < 0 \<longleftrightarrow> ?l < - int epoch_day * day_nanos"
    using le_div_nanos [OF pos, of "- int epoch_day" ?l] by auto
  moreover have "int (days_before 10000) \<le> ?day \<longleftrightarrow> (int (days_before 10000) - int epoch_day) * day_nanos \<le> ?l"
    using le_div_nanos [OF pos, of "int (days_before 10000) - int epoch_day" ?l] by auto
  moreover have "format_time zone t \<noteq> None \<longleftrightarrow> \<not> ?day < 0 \<and> \<not> 9999 < y"
    unfolding format_time_def Let_def y by (simp split: prod.split)
  ultimately show ?thesis unfolding wire_time_def by linarith
qed

lemma parse_text:
  assumes "y < 10000" "1 \<le> m" "m \<le> 12" "d < month_days y ! (m - 1)" "month_days y ! (m - 1) < 99"
    and "h < 24" "mi < 60" "se < 60" "ns < 10 ^ 9" "\<bar>off\<bar> < 24 * 60"
  shows "parse_time (date_text y m (d + 1) @ CHR ''T'' # (pad 2 h @ CHR '':'' # pad 2 mi @ CHR '':'' # pad 2 se) @
      frac_text ns @ zone_text off) =
    Some ((int (days_before y + sum_list (take (m - 1) (month_days y)) + d) - int epoch_day) * day_nanos
      + int ((h * 3600 + mi * 60 + se) * 10 ^ 9 + ns) - off * 60 * 10 ^ 9)"
proof -
  obtain c r where z: "zone_text off = c # r" "\<not> is_digit c" "c \<noteq> CHR ''.''" using zone_start by blast
  have "parse_frac (frac_text ns @ zone_text off) = (ns, zone_text off)" by (rule parse_frac_text [OF assms(9) z])
  then show ?thesis
    using assms(1-8) parse_zone_text [OF assms(10)] by (simp add: parse_time_def date_text_def)
qed

lemma clock_sum: "s div 3600 * 3600 + s div 60 mod 60 * 60 + s mod 60 = (s :: nat)"
proof -
  have "s div 3600 = s div 60 div 60" by (simp add: div_mult2_eq [symmetric])
  then show ?thesis using div_mult_mod_eq [of "s div 60" 60] div_mult_mod_eq [of s 60] by linarith
qed

text \<open>What is written is read back.\<close>

lemma parse_format_time:
  assumes "format_time zone t = Some s" "\<bar>zone t\<bar> < 24 * 60"
  shows "parse_time s = Some t"
proof -
  let ?l = "t + zone t * 60 * 10 ^ 9"
  let ?day = "?l div day_nanos + int epoch_day" and ?rest = "nat (?l mod day_nanos)"
  let ?sec = "?rest div 10 ^ 9" and ?ns = "?rest mod 10 ^ 9"
  have pos: "0 < day_nanos" by (simp add: day_nanos_def)
  obtain y yd where y: "year_of 0 (nat ?day) = (y, yd)" by fastforce
  obtain m d where m: "month_of (month_days y) 1 yd = (m, d)" by fastforce
  have day: "0 \<le> ?day" "y < 10000" and s: "s = date_text y m (d + 1) @ CHR ''T'' # clock_text ?sec @ frac_text ?ns @ zone_text (zone t)"
    using assms(1) y m by (auto simp: format_time_def Let_def split: if_splits)
  have yd: "nat ?day = days_before y + yd" "yd < sum_list (month_days y)"
    using year_of_days [OF y] by (simp_all add: days_before_0 sum_month_days)
  obtain k where k: "m = 1 + k" "k < 12" "d < month_days y ! k" "sum_list (take k (month_days y)) + d = yd"
    using month_of_days [OF yd(2) m] by (auto simp: month_days_def)
  have md31: "month_days y ! k \<le> 31" using k(2) by (auto simp: month_days_def less_Suc_eq numeral_eq_Suc)
  have rest: "int ?rest = ?l mod day_nanos" "?rest < 86400 * 10 ^ 9"
    using pos pos_mod_bound [OF pos, of ?l] by (auto simp: day_nanos_def nat_less_iff)
  have sec: "?sec < 86400" using rest(2) by (simp add: less_mult_imp_div_less)
  then have clock: "?sec div 3600 < 24" "?sec div 60 mod 60 < 60" "?sec mod 60 < 60" by (simp_all add: less_mult_imp_div_less)
  have sum: "?sec div 3600 * 3600 + ?sec div 60 mod 60 * 60 + ?sec mod 60 = ?sec" by (rule clock_sum)
  have "1 \<le> m" "m \<le> 12" "d < month_days y ! (m - 1)" "month_days y ! (m - 1) < 99" using k md31 by simp_all
  note parse_text [OF day(2) this clock _ assms(2), of ?ns, folded clock_text_def, folded s, unfolded sum]
  then have "parse_time s = Some ((int (days_before y + sum_list (take (m - 1) (month_days y)) + d) - int epoch_day) * day_nanos
      + int (?sec * 10 ^ 9 + ?ns) - zone t * 60 * 10 ^ 9)" by simp
  also have "days_before y + sum_list (take (m - 1) (month_days y)) + d = nat ?day" using yd(1) k(1,4) by simp
  also have "?sec * 10 ^ 9 + ?ns = ?rest" by simp
  also have "(int (nat ?day) - int epoch_day) * day_nanos + int ?rest = ?l"
    unfolding rest(1) using day(1) by simp
  finally show ?thesis by simp
qed

end
