(* ===== verification/State_Utf8.thy ===== *)
theory State_Utf8
  imports State_Machine
begin

section \<open>The strings of a state are UTF-8\<close>

text \<open>
  Every string that reaches the state machine comes out of the JSON of a log entry, so that the
  names, FileIDs and addresses of a metadata server are UTF-8, whatever clients sent. The snapshots of
  \<open>Snapshot_Json\<close> rest on it.
\<close>

definition entry_utf8 :: "entry \<Rightarrow> bool" where
  "entry_utf8 e \<longleftrightarrow> utf8_ok (entry_name e) \<and> utf8_ok (entry_status e) \<and> utf8_ok (fileID e) \<and> list_all replica_utf8 (replicas e)"

definition ns_utf8 :: "namespace \<Rightarrow> bool" where
  "ns_utf8 m \<longleftrightarrow> (\<forall>ps e. m ps = Some e \<longrightarrow> list_all utf8_ok ps \<and> entry_utf8 e)"

definition fs_utf8 :: "fs_state \<Rightarrow> bool" where
  "fs_utf8 st \<longleftrightarrow> ns_utf8 (fs_ns st) \<and> list_all utf8_ok (fs_nodes st)"

lemma entry_utf8_simps [simp]:
  "entry_utf8 (e\<lparr>modTime := t\<rparr>) = entry_utf8 e" "entry_utf8 (e\<lparr>entry_size := n\<rparr>) = entry_utf8 e"
  by (simp_all add: entry_utf8_def)

lemma utf8_status: "utf8_ok StatusPending" "utf8_ok StatusComplete"
  by (simp_all add: StatusPending_def StatusComplete_def utf8_ok_ascii is_ascii_def)

lemma entry_utf8_new:
  "utf8_ok n \<Longrightarrow> entry_utf8 (dir_entry n t u)"
  "utf8_ok n \<Longrightarrow> utf8_ok f \<Longrightarrow> list_all replica_utf8 r \<Longrightarrow> entry_utf8 (file_entry n s t u f r)"
  by (simp_all add: entry_utf8_def dir_entry_def file_entry_def utf8_status)

lemma ns_utf8_upd: "ns_utf8 m \<Longrightarrow> list_all utf8_ok ps \<Longrightarrow> entry_utf8 e \<Longrightarrow> ns_utf8 (m(ps \<mapsto> e))"
  by (simp add: ns_utf8_def)

lemma ns_utf8_touch: "ns_utf8 m \<Longrightarrow> ns_utf8 (touch now ps m)"
  by (auto simp: ns_utf8_def touch_def on_path_def split: if_splits)

lemma ns_utf8_moved:
  assumes "ns_utf8 m" "list_all utf8_ok dst" "dst \<noteq> []"
  shows "ns_utf8 (moved src dst m)"
proof -
  have "utf8_ok (last dst)" using assms(2,3) by (simp add: list_all_iff)
  then show ?thesis
    using assms(1,2)
    by (fastforce simp: ns_utf8_def moved_def graft_def prune_def on_path_def entry_utf8_def prefix_def split: if_splits)
qed

lemma mkdir_loop_utf8:
  "ns_utf8 m \<Longrightarrow> list_all utf8_ok at \<Longrightarrow> list_all utf8_ok parts \<Longrightarrow> ns_utf8 (fst (spec_mkdir_loop path now i at parts m))"
  by (induction path now i at parts m rule: spec_mkdir_loop.induct)
     (simp_all add: ns_utf8_touch ns_utf8_upd entry_utf8_new split: option.split)

lemma utf8_names:
  assumes "utf8_ok path"
  shows "list_all utf8_ok (splitPath path)" "splitPath path \<noteq> [] \<Longrightarrow> utf8_ok (last (splitPath path))"
  using utf8_ok_splitPath [OF assms] by (simp_all add: list_all_iff)

lemma spec_apply_utf8:
  assumes st: "fs_utf8 st" and p: "payload_utf8 p"
  shows "fs_utf8 (fst (spec_apply now op p st))"
proof -
  have u: "utf8_ok (p_Path p)" "utf8_ok (p_DstPath p)" "utf8_ok (p_Addr p)" "utf8_ok (p_FileID p)" "list_all replica_utf8 (p_Replicas p)"
    using p by (simp_all add: payload_utf8_def)
  have ns: "ns_utf8 (fs_ns st)" and nodes: "list_all utf8_ok (fs_nodes st)" using st by (simp_all add: fs_utf8_def)
  note names = utf8_names [OF u(1)] utf8_names [OF u(2)]
  have on: "ns_utf8 (fst (f (fs_ns st))) \<Longrightarrow> fs_utf8 (fst (on_ns f st))" for f
    using nodes by (cases "f (fs_ns st)") (simp add: on_ns_def fs_utf8_def)
  have e: "fs_ns st ps = Some e \<Longrightarrow> list_all utf8_ok ps \<and> entry_utf8 e" for ps e using ns by (simp add: ns_utf8_def)
  have "ns_utf8 (fst (spec_mkdir now p (fs_ns st)))"
    using mkdir_loop_utf8 [OF ns] names(1) by (simp add: spec_mkdir_def)
  moreover have "ns_utf8 (fst (spec_create now p (fs_ns st)))"
    using ns names u e by (auto simp: spec_create_def Let_def entry_utf8_def [of "_ :: entry"]
        intro!: ns_utf8_touch ns_utf8_upd entry_utf8_new split: option.split)
  moreover have "ns_utf8 (fst (spec_complete now p (fs_ns st)))"
    using ns names e by (auto simp: spec_complete_def Let_def entry_utf8_def utf8_status intro!: ns_utf8_upd split: option.split)
  moreover have "ns_utf8 (fst (spec_delete now p (fs_ns st)))"
    using ns by (auto simp: spec_delete_def Let_def prune_def ns_utf8_def intro!: ns_utf8_touch [unfolded ns_utf8_def] split: if_splits)
  moreover have "ns_utf8 (fst (spec_rename now p (fs_ns st)))"
    using ns names by (auto simp: spec_rename_def Let_def intro!: ns_utf8_touch ns_utf8_moved)
  moreover have "ns_utf8 (fst (spec_update_size now p (fs_ns st)))"
    using ns names e by (auto simp: spec_update_size_def Let_def intro!: ns_utf8_upd split: option.split)
  ultimately show ?thesis
    using st u(3) on by (auto simp: spec_apply_def fs_utf8_def list_all_iff dest: in_set_remove1)
qed

lemma spec_at_utf8: "fs_utf8 st \<Longrightarrow> fs_utf8 (fst (spec_at c st))"
  using spec_apply_utf8 Unmarshal_utf8 by (auto simp: spec_at_def split: prod.split option.split)

lemma view_New: "mds_view (NewMetadataServer a b) = [[] \<mapsto> dir_entry ''/'' a b]"
proof (rule ext)
  fix ps
  have "walk (mds_heap (NewMetadataServer a b)) 0 ps = (if ps = [] then Some 0 else None)"
    by (cases ps) (simp_all add: NewMetadataServer_def child_def dir_entry_def)
  then show "mds_view (NewMetadataServer a b) ps = [[] \<mapsto> dir_entry ''/'' a b] ps"
    by (simp add: view_def attrs_at_def NewMetadataServer_def) (simp add: dir_entry_def attrs_def)
qed

lemma New_registry: "dataNodes (NewMetadataServer a b) = []" "lastHeartbeat (NewMetadataServer a b) = []"
  by (simp_all add: NewMetadataServer_def)

lemma New_utf8: "fs_utf8 (abs_state (NewMetadataServer now1 now2))"
  by (auto simp: fs_utf8_def abs_state_def view_New New_registry ns_utf8_def intro!: entry_utf8_new utf8_ok_ascii split: if_splits)
     (simp add: is_ascii_def)

end
