(* ===== verification/Snapshot_Json.thy ===== *)
theory Snapshot_Json
  imports Meta_Snapshot Go_Time State_Utf8 "HOL-Library.List_Lexorder" "HOL-Library.Char_ord"
begin

section \<open>The JSON of a snapshot\<close>

text \<open>
  \<open>Snapshot\<close> and \<open>Restore\<close> (\<open>internal/metadata/state_machine.go\<close>) with \<open>json.Marshal\<close> and
  \<open>json.Unmarshal\<close> of the structs of \<open>Meta_Snapshot\<close>, by the tags in \<open>internal/metadata/mds.go\<close>, on
  JSON values as in \<open>Wire_Json\<close>: the fields of a struct in order and the keys of a map sorted, fields
  with \<open>omitempty\<close> left out when they are empty, strings coerced to UTF-8 on both ways, times as the
  text of \<open>Go_Time\<close>. Writing fails on a time whose year has not four digits, reading on a value
  nested more than \<open>maxNestingDepth\<close> levels deep. \<open>zone\<close> gives the zone of each time.
\<close>

subsection \<open>Writing\<close>

definition marshal_time :: "(time \<Rightarrow> int) \<Rightarrow> time \<Rightarrow> json option" where
  "marshal_time zone t = map_option JStr (format_time zone t)"

text \<open>The object of a Go map, given its values in any order.\<close>

definition map_object :: "(string \<times> json) list \<Rightarrow> json" where
  "map_object kvs = JObj (map (\<lambda>(k, j). (ToValidUTF8 k, j)) (sort_key fst kvs))"

fun marshal_entry :: "(time \<Rightarrow> int) \<Rightarrow> entrySnapshot \<Rightarrow> json option"
  and marshal_children :: "(time \<Rightarrow> int) \<Rightarrow> (string \<times> entrySnapshot) list \<Rightarrow> (string \<times> json) list option" where
  "marshal_entry zone NilSnapshot = Some JNull"
| "marshal_entry zone (EntrySnapshot nm dir sz md ct mt st fid reps cs) = do {
     c \<leftarrow> marshal_time zone ct;
     m \<leftarrow> marshal_time zone mt;
     kids \<leftarrow> marshal_children zone cs;
     Some (JObj
       ([(''name'', jstr nm), (''is_dir'', JBool dir), (''size'', JNum (sint sz)), (''mode'', JNum (uint md)),
         (''created_at'', c), (''mod_time'', m)]
        @ omitempty (st \<noteq> '''') ''status'' (jstr st)
        @ omitempty (fid \<noteq> '''') ''file_id'' (jstr fid)
        @ omitempty (reps \<noteq> []) ''replicas'' (JArr (map marshal_replica reps))
        @ omitempty (cs \<noteq> []) ''children'' (map_object kids))) }"
| "marshal_children zone [] = Some []"
| "marshal_children zone ((n, s) # cs) = do {
     j \<leftarrow> marshal_entry zone s;
     js \<leftarrow> marshal_children zone cs;
     Some ((n, j) # js) }"

fun marshal_beats :: "(time \<Rightarrow> int) \<Rightarrow> (string, time) gomap \<Rightarrow> (string \<times> json) list option" where
  "marshal_beats zone [] = Some []"
| "marshal_beats zone ((a, t) # m) = do {
     j \<leftarrow> marshal_time zone t;
     js \<leftarrow> marshal_beats zone m;
     Some ((a, j) # js) }"

definition Marshal_snapshot :: "(time \<Rightarrow> int) \<Rightarrow> metaSnapshot \<Rightarrow> json option" where
  "Marshal_snapshot zone snap = do {
     root \<leftarrow> (case ms_Root snap of None \<Rightarrow> Some JNull | Some s \<Rightarrow> marshal_entry zone s);
     beats \<leftarrow> (case ms_LastHeartbeat snap of None \<Rightarrow> Some JNull | Some m \<Rightarrow> map_option map_object (marshal_beats zone m));
     Some (JObj [(''root'', root), (''data_nodes'', JArr (map (\<lambda>a. jstr a) (ms_DataNodes snap))), (''last_heartbeat'', beats)]) }"

subsection \<open>Reading\<close>

definition maxNestingDepth :: nat where
  "maxNestingDepth = 10000"

fun json_depth :: "json \<Rightarrow> nat" and array_depth :: "json list \<Rightarrow> nat" and object_depth :: "(string \<times> json) list \<Rightarrow> nat" where
  "json_depth (JArr js) = Suc (array_depth js)"
| "json_depth (JObj fs) = Suc (object_depth fs)"
| "json_depth _ = 0"
| "array_depth [] = 0"
| "array_depth (j # js) = max (json_depth j) (array_depth js)"
| "object_depth [] = 0"
| "object_depth ((k, j) # fs) = max (json_depth j) (object_depth fs)"

fun dec_uint32 :: "json \<Rightarrow> uint32 option" where
  "dec_uint32 (JNum i) = (if 0 \<le> i \<and> i < 2 ^ 32 then Some (word_of_int i) else None)"
| "dec_uint32 _ = None"

fun dec_time :: "json \<Rightarrow> time option" where
  "dec_time (JStr s) = parse_time s"
| "dec_time _ = None"

fun dec_strs :: "json \<Rightarrow> string list option" where
  "dec_strs (JArr js) = those (map (\<lambda>j. if j = JNull then Some '''' else dec_str j) js)"
| "dec_strs _ = None"

text \<open>The children of an entry are decoded in the order of the object.\<close>

lemma map_of_rev_size: "map_of (rev fs) k = Some j \<Longrightarrow> size j < Suc (size_list (size_prod (\<lambda>x. 0) size) fs)"
proof -
  assume "map_of (rev fs) k = Some j"
  then have "(k, j) \<in> set fs" by (auto dest: map_of_SomeD)
  then show ?thesis by (induction fs) auto
qed

function (sequential) dec_entry :: "json \<Rightarrow> entrySnapshot option"
  and dec_children :: "(string \<times> json) list \<Rightarrow> (string, entrySnapshot) gomap \<Rightarrow> (string, entrySnapshot) gomap option" where
  "dec_entry JNull = Some NilSnapshot"
| "dec_entry (JObj fs) = do {
     nm \<leftarrow> get_field dec_str '''' ''name'' fs;
     dir \<leftarrow> get_field dec_bool False ''is_dir'' fs;
     sz \<leftarrow> get_field dec_int64 0 ''size'' fs;
     md \<leftarrow> get_field dec_uint32 0 ''mode'' fs;
     ct \<leftarrow> get_field dec_time zero_time ''created_at'' fs;
     mt \<leftarrow> get_field dec_time zero_time ''mod_time'' fs;
     st \<leftarrow> get_field dec_str '''' ''status'' fs;
     fid \<leftarrow> get_field dec_str '''' ''file_id'' fs;
     reps \<leftarrow> get_field dec_replicas [] ''replicas'' fs;
     cs \<leftarrow> (case map_of (rev fs) ''children'' of
              None \<Rightarrow> Some []
            | Some JNull \<Rightarrow> Some []
            | Some (JObj kvs) \<Rightarrow> dec_children kvs []
            | Some j \<Rightarrow> None);
     Some (EntrySnapshot nm dir sz md ct mt st fid reps cs) }"
| "dec_entry j = None"
| "dec_children [] m = Some m"
| "dec_children ((k, j) # kvs) m = do {
     s \<leftarrow> dec_entry j;
     dec_children kvs (map_put (ToValidUTF8 k) s m) }"
  by pat_completeness auto
termination
  by (relation "measure (case_sum size (\<lambda>(kvs, m). size_list (size_prod (\<lambda>x. 0) size) kvs))")
     (auto dest: map_of_rev_size)

fun dec_beats :: "(string \<times> json) list \<Rightarrow> (string, time) gomap \<Rightarrow> (string, time) gomap option" where
  "dec_beats [] m = Some m"
| "dec_beats ((k, j) # kvs) m = do {
     t \<leftarrow> (if j = JNull then Some zero_time else dec_time j);
     dec_beats kvs (map_put (ToValidUTF8 k) t m) }"

fun dec_beat_map :: "json \<Rightarrow> (string, time) gomap option option" where
  "dec_beat_map (JObj kvs) = map_option Some (dec_beats kvs [])"
| "dec_beat_map _ = None"

fun dec_snapshot :: "json \<Rightarrow> metaSnapshot option" where
  "dec_snapshot JNull = Some \<lparr>ms_Root = None, ms_DataNodes = [], ms_LastHeartbeat = None\<rparr>"
| "dec_snapshot (JObj fs) = do {
     root \<leftarrow> get_field (\<lambda>j. map_option Some (dec_entry j)) None ''root'' fs;
     nodes \<leftarrow> get_field dec_strs [] ''data_nodes'' fs;
     beats \<leftarrow> get_field dec_beat_map None ''last_heartbeat'' fs;
     Some \<lparr>ms_Root = root, ms_DataNodes = nodes, ms_LastHeartbeat = beats\<rparr> }"
| "dec_snapshot _ = None"

definition Unmarshal_snapshot :: "json \<Rightarrow> metaSnapshot option" where
  "Unmarshal_snapshot j = (if maxNestingDepth < json_depth j then None else dec_snapshot j)"

subsection \<open>Snapshot and Restore\<close>

text \<open>\<open>None\<close> is the fuel of \<open>toSnapshot\<close> running out, which \<open>snapshot_struct_total\<close> excludes.\<close>

definition Snapshot :: "(time \<Rightarrow> int) \<Rightarrow> MetadataServer \<Rightarrow> (fs_error + json) option" where
  "Snapshot zone mds =
     map_option (\<lambda>snap. case Marshal_snapshot zone snap of None \<Rightarrow> Inl ErrMarshalTime | Some j \<Rightarrow> Inr j)
       (snapshot_struct mds)"

text \<open>The bytes that \<open>Restore\<close> is given: none, some that are no JSON, or some that are.\<close>

datatype snapshot_data = NoData | NotJson | Json json

definition Restore :: "snapshot_data \<Rightarrow> MetadataServer \<Rightarrow> result" where
  "Restore data mds =
     (case data of
        NoData \<Rightarrow> (mds, None)
      | NotJson \<Rightarrow> (mds, Some ErrUnmarshalSnapshot)
      | Json j \<Rightarrow>
     (case Unmarshal_snapshot j of
        None \<Rightarrow> (mds, Some ErrUnmarshalSnapshot)
      | Some snap \<Rightarrow>
          if (case ms_Root snap of None \<Rightarrow> False | Some s \<Rightarrow> has_nil s) then (mds, Some PanicNilSnapshot)
          else
            (let (h, r) = restore_root snap (mds_heap mds)
             in (mds\<lparr>mds_heap := h, mds_root := r, dataNodes := ms_DataNodes snap,
                   lastHeartbeat := (case ms_LastHeartbeat snap of None \<Rightarrow> [] | Some m \<Rightarrow> m)\<rparr>, None))))"

end
