(* ===== verification/Snapshot_Roundtrip.thy ===== *)
theory Snapshot_Roundtrip
  imports Snapshot_Json
begin

section \<open>What a snapshot holds\<close>

text \<open>
  When \<open>Snapshot\<close> succeeds, when \<open>Restore\<close> can read what it wrote, and that it then brings the same
  state back: through the copy of the tree, its JSON with sorted maps and omitted fields, and the
  text of the times.
\<close>

definition zone_ok :: "(time \<Rightarrow> int) \<Rightarrow> bool" where
  "zone_ok zone \<longleftrightarrow> (\<forall>t. \<bar>zone t\<bar> < 24 * 60)"

subsection \<open>Maps\<close>

lemma map_of_sorted:
  assumes "distinct (map fst kvs)"
  shows "map_of (sort_key fst kvs) = map_of kvs" "distinct (map fst (sort_key fst kvs))"
proof -
  show d: "distinct (map fst (sort_key fst kvs))" using assms by (simp add: distinct_map)
  have "map_of (sort_key fst kvs) k = Some v \<longleftrightarrow> map_of kvs k = Some v" for k v
    using map_of_eq_Some_iff [OF d] map_of_eq_Some_iff [OF assms] by simp
  then show "map_of (sort_key fst kvs) = map_of kvs" by (intro ext) (metis not_Some_eq)
qed

lemma coerced_keys: "list_all (\<lambda>(k, j). utf8_ok k) kvs \<Longrightarrow> map (\<lambda>(k, j). (ToValidUTF8 k, j)) kvs = kvs"
  by (induction kvs) (auto simp: utf8_ok_def)

lemma map_object_utf8:
  assumes "list_all utf8_ok (map fst kvs)"
  shows "map_object kvs = JObj (sort_key fst kvs)"
proof -
  have "list_all (\<lambda>(k, j). utf8_ok k) (sort_key fst kvs)" using assms by (auto simp: list_all_iff)
  then show ?thesis by (simp add: map_object_def coerced_keys)
qed

lemma dec_children_map:
  assumes "distinct (map fst kvs)" "list_all utf8_ok (map fst kvs)" "\<forall>(k, j) \<in> set kvs. dec_entry j \<noteq> None" "map_ok m"
  shows "\<exists>cs. dec_children kvs m = Some cs \<and> map_ok cs \<and>
    (\<forall>n. map_of cs n = (case map_of kvs n of None \<Rightarrow> map_of m n | Some j \<Rightarrow> dec_entry j))"
  using assms
proof (induction kvs arbitrary: m)
  case (Cons x kvs)
  obtain k j where x: "x = (k, j)" by fastforce
  obtain s where s: "dec_entry j = Some s" using Cons.prems(3) x by auto
  have "ToValidUTF8 k = k" using Cons.prems(2) x by (simp add: utf8_ok_def)
  moreover have "map_of kvs k = None" using Cons.prems(1) x by (simp add: map_of_eq_None_iff)
  moreover obtain cs where "dec_children kvs (map_put k s m) = Some cs" "map_ok cs"
    "\<forall>n. map_of cs n = (case map_of kvs n of None \<Rightarrow> map_of (map_put k s m) n | Some j \<Rightarrow> dec_entry j)"
    using Cons.IH [of "map_put k s m"] Cons.prems by (auto simp: map_ok_put)
  ultimately show ?case using x s by (auto simp: map_get_put split: option.splits)
qed simp

lemma dec_beats_map:
  assumes "distinct (map fst kvs)" "list_all utf8_ok (map fst kvs)" "\<forall>(k, j) \<in> set kvs. j \<noteq> JNull \<and> dec_time j \<noteq> None" "map_ok m"
  shows "\<exists>cs. dec_beats kvs m = Some cs \<and> map_ok cs \<and>
    (\<forall>n. map_of cs n = (case map_of kvs n of None \<Rightarrow> map_of m n | Some j \<Rightarrow> dec_time j))"
  using assms
proof (induction kvs arbitrary: m)
  case (Cons x kvs)
  obtain k j where x: "x = (k, j)" by fastforce
  obtain s where s: "dec_time j = Some s" "j \<noteq> JNull" using Cons.prems(3) x by auto
  have "ToValidUTF8 k = k" using Cons.prems(2) x by (simp add: utf8_ok_def)
  moreover have "map_of kvs k = None" using Cons.prems(1) x by (simp add: map_of_eq_None_iff)
  moreover obtain cs where "dec_beats kvs (map_put k s m) = Some cs" "map_ok cs"
    "\<forall>n. map_of cs n = (case map_of kvs n of None \<Rightarrow> map_of (map_put k s m) n | Some j \<Rightarrow> dec_time j)"
    using Cons.IH [of "map_put k s m"] Cons.prems by (auto simp: map_ok_put)
  ultimately show ?case using x s by (auto simp: map_get_put split: option.splits)
qed simp

subsection \<open>Entries\<close>

lemma dec_uint32_uint: "dec_uint32 (JNum (uint w)) = Some w"
  using uint_range_size [of w] by (simp add: word_size)

lemma marshal_time_dec:
  assumes "zone_ok zone" "marshal_time zone t = Some j"
  shows "j \<noteq> JNull" "dec_time j = Some t"
  using assms parse_format_time by (auto simp: marshal_time_def zone_ok_def)

lemma marshal_time_Some: "marshal_time zone t \<noteq> None \<longleftrightarrow> wire_time zone t"
  using format_time_Some by (simp add: marshal_time_def)

lemma marshal_children_keys: "marshal_children zone cs = Some kids \<Longrightarrow> map fst kids = map fst cs"
  by (induction cs arbitrary: kids) (auto simp: bind_eq_Some_conv)

lemma marshal_children_mem:
  "marshal_children zone cs = Some kids \<Longrightarrow> (n, s) \<in> set cs \<Longrightarrow> \<exists>j. (n, j) \<in> set kids \<and> marshal_entry zone s = Some j"
proof (induction cs arbitrary: kids)
  case (Cons x cs)
  then obtain j js where "marshal_entry zone (snd x) = Some j" "marshal_children zone cs = Some js" "kids = (fst x, j) # js"
    by (cases x) (auto simp: bind_eq_Some_conv)
  then show ?case using Cons by auto
qed simp

lemma dec_object:
  assumes "zone_ok zone" "marshal_time zone ct = Some c" "marshal_time zone mt = Some m"
    and "entry_utf8 (entry_of (EntrySnapshot nm dir sz md ct mt st fid reps cs))"
    and "dec_children kvs [] = Some cs'" "cs = [] \<longrightarrow> cs' = []"
  shows "dec_entry (JObj
       ([(''name'', jstr nm), (''is_dir'', JBool dir), (''size'', JNum (sint sz)), (''mode'', JNum (uint md)),
         (''created_at'', c), (''mod_time'', m)]
        @ omitempty (st \<noteq> '''') ''status'' (jstr st) @ omitempty (fid \<noteq> '''') ''file_id'' (jstr fid)
        @ omitempty (reps \<noteq> []) ''replicas'' (JArr (map marshal_replica reps))
        @ omitempty (cs \<noteq> []) ''children'' (JObj kvs))) = Some (EntrySnapshot nm dir sz md ct mt st fid reps cs')"
proof -
  have "list_all replica_utf8 reps" and u: "utf8_ok nm" "utf8_ok st" "utf8_ok fid"
    using assms(4) by (simp_all add: entry_utf8_def entry_of_def)
  then have "map wire_replica reps = reps"
    by (intro map_idI) (auto simp: replica_utf8_def list_all_iff wire_replica_def utf8_ok_def)
  then show ?thesis
    using u marshal_time_dec [OF assms(1,2)] marshal_time_dec [OF assms(1,3)] assms(5,6)
    by (cases "cs = []")
       (simp_all add: get_field_def map_add_def dec_int64_sint dec_uint32_uint dec_replicas_marshal utf8_ok_def
         del: dec_int64.simps dec_uint32.simps dec_replicas.simps dec_time.simps)
qed

lemma wf_children:
  assumes "wf_snap (EntrySnapshot nm dir sz md ct mt st fid reps cs)" "(n, c) \<in> set cs"
  shows "map_of cs n = Some c" "wf_snap c" "sn_Name c = n" "valid_name n"
    "snap_view (EntrySnapshot nm dir sz md ct mt st fid reps cs) (n # ps) = snap_view c ps"
  using assms by (auto simp: list_all_iff snap_view_Cons)

lemma ns_utf8_children:
  assumes "wf_snap s" "ns_utf8 (snap_view s)" "(n, c) \<in> set (sn_Children s)"
  shows "utf8_ok n" "ns_utf8 (snap_view c)"
proof -
  obtain nm dir sz md ct mt st fid reps cs where s: "s = EntrySnapshot nm dir sz md ct mt st fid reps cs"
    using assms(1) by (cases s) auto
  have c: "snap_view s (n # ps) = snap_view c ps" for ps using wf_children(5) assms(1,3) s by simp
  have u: "snap_view s (n # ps) = Some e \<Longrightarrow> list_all utf8_ok (n # ps) \<and> entry_utf8 e" for ps e
    using assms(2) unfolding ns_utf8_def by blast
  show "ns_utf8 (snap_view c)" using u c by (simp add: ns_utf8_def)
  show "utf8_ok n" using u [of "[]"] c by simp
qed

text \<open>An entry that was written is read back, up to the order of the children.\<close>

definition same_entry :: "entrySnapshot \<Rightarrow> entrySnapshot \<Rightarrow> bool" where
  "same_entry s' s \<longleftrightarrow> wf_snap s' \<and> sn_Name s' = sn_Name s \<and> snap_view s' = snap_view s"

lemma dec_marshal_entry:
  shows "zone_ok zone \<Longrightarrow> marshal_entry zone s = Some j \<Longrightarrow> wf_snap s \<Longrightarrow> ns_utf8 (snap_view s) \<Longrightarrow> \<exists>s'. dec_entry j = Some s' \<and> same_entry s' s"
    and "zone_ok zone \<Longrightarrow> marshal_children zone cs = Some kids \<Longrightarrow> (\<forall>(n, c) \<in> set cs. wf_snap c \<and> ns_utf8 (snap_view c)) \<Longrightarrow>
      \<forall>(n, j) \<in> set kids. \<exists>c s'. (n, c) \<in> set cs \<and> dec_entry j = Some s' \<and> same_entry s' c"
proof (induction zone s and zone cs arbitrary: j and kids rule: marshal_entry_marshal_children.induct)
  case (2 zone nm dir sz md ct mt st fid reps cs)
  let ?s = "EntrySnapshot nm dir sz md ct mt st fid reps cs"
  obtain c m kids where mar: "marshal_time zone ct = Some c" "marshal_time zone mt = Some m" "marshal_children zone cs = Some kids"
    and j: "j = JObj
       ([(''name'', jstr nm), (''is_dir'', JBool dir), (''size'', JNum (sint sz)), (''mode'', JNum (uint md)),
         (''created_at'', c), (''mod_time'', m)]
        @ omitempty (st \<noteq> '''') ''status'' (jstr st) @ omitempty (fid \<noteq> '''') ''file_id'' (jstr fid)
        @ omitempty (reps \<noteq> []) ''replicas'' (JArr (map marshal_replica reps))
        @ omitempty (cs \<noteq> []) ''children'' (map_object kids))"
    using "2.prems"(2) by (auto simp: bind_eq_Some_conv)
  have ok: "map_ok cs" "\<forall>(n, c) \<in> set cs. wf_snap c \<and> ns_utf8 (snap_view c)"
    using "2.prems"(3) ns_utf8_children [OF "2.prems"(3,4)] by (auto simp: list_all_iff)
  note kids = "2.IH" [OF mar(1,2) "2.prems"(1) mar(3) ok(2)]
  have keys: "distinct (map fst kids)" "list_all utf8_ok (map fst kids)"
    using marshal_children_keys [OF mar(3)] ok(1) ns_utf8_children(1) [OF "2.prems"(3,4)] by (auto simp: list_all_iff)
  let ?kvs = "sort_key fst kids"
  have obj: "map_object kids = JObj ?kvs" by (rule map_object_utf8 [OF keys(2)])
  have sorted: "distinct (map fst ?kvs)" "list_all utf8_ok (map fst ?kvs)"
    using map_of_sorted(2) [OF keys(1)] keys(2) by (auto simp: list_all_iff)
  have some: "\<forall>(k, j) \<in> set ?kvs. dec_entry j \<noteq> None" using kids by fastforce
  obtain cs' where cs': "dec_children ?kvs [] = Some cs'" "map_ok cs'"
    "\<And>n. map_of cs' n = (case map_of kids n of None \<Rightarrow> map_of [] n | Some j \<Rightarrow> dec_entry j)"
    using dec_children_map [where m = "[]", OF sorted some] map_of_sorted(1) [OF keys(1)] by auto
  have nil: "cs = [] \<longrightarrow> cs' = []" using mar(3) cs'(1) by auto
  have "entry_utf8 (entry_of ?s)" using "2.prems"(4) unfolding ns_utf8_def by (metis snap_view_Nil)
  from dec_object [OF "2.prems"(1) mar(1,2) this cs'(1) nil]
  have dec: "dec_entry j = Some (EntrySnapshot nm dir sz md ct mt st fid reps cs')" unfolding j obj .
  let ?s' = "EntrySnapshot nm dir sz md ct mt st fid reps cs'"
  have child: "rel_option same_entry (map_of cs' n) (map_of cs n)" for n
  proof (cases "map_of kids n")
    case None
    then have "map_of cs n = None" using marshal_children_keys [OF mar(3)] by (metis list.set_map map_of_eq_None_iff)
    then show ?thesis using cs'(3) None by simp
  next
    case (Some j)
    then obtain c s' where "(n, c) \<in> set cs" "dec_entry j = Some s'" "same_entry s' c"
      using kids by (fastforce dest: map_of_SomeD)
    then show ?thesis using cs'(3) Some ok(1) by simp
  qed
  have "snap_view ?s' ps = snap_view ?s ps" for ps
  proof (cases ps)
    case (Cons n ns)
    then show ?thesis using child [of n] by (cases "map_of cs' n"; cases "map_of cs n") (simp_all add: snap_view_Cons same_entry_def)
  qed (simp add: entry_of_def)
  moreover have "wf_snap ?s'"
  proof -
    have "valid_name n \<and> sn_Name c = n \<and> wf_snap c" if "(n, c) \<in> set cs'" for n c
    proof -
      have "map_of cs' n = Some c" using that cs'(2) by simp
      then obtain d where "map_of cs n = Some d" "same_entry c d" using child [of n] by (cases "map_of cs n") auto
      then show ?thesis using wf_children(3,4) [OF "2.prems"(3), of n d] by (auto simp: same_entry_def dest: map_of_SomeD)
    qed
    moreover have "\<not> dir \<Longrightarrow> cs' = []" using "2.prems"(3) nil by simp
    ultimately show ?thesis using cs'(2) by (auto simp: list_all_iff)
  qed
  ultimately show ?case using dec by (auto simp: same_entry_def)
next
  case (4 zone n s cs)
  then obtain j js where m: "marshal_entry zone s = Some j" "marshal_children zone cs = Some js" "kids = (n, j) # js"
    by (auto simp: bind_eq_Some_conv)
  then show ?case using "4.IH"(1) [OF "4.prems"(1) m(1)] "4.IH"(2) [OF m(1) "4.prems"(1) m(2)] "4.prems"(3) by fastforce
qed simp_all

subsection \<open>When a snapshot can be written\<close>

definition times_ok :: "(time \<Rightarrow> int) \<Rightarrow> namespace \<Rightarrow> bool" where
  "times_ok zone m \<longleftrightarrow> (\<forall>ps e. m ps = Some e \<longrightarrow> wire_time zone (createdAt e) \<and> wire_time zone (modTime e))"

lemma times_ok_entry:
  assumes "wf_snap (EntrySnapshot nm dir sz md ct mt st fid reps cs)"
  shows "times_ok zone (snap_view (EntrySnapshot nm dir sz md ct mt st fid reps cs)) \<longleftrightarrow>
    wire_time zone ct \<and> wire_time zone mt \<and> (\<forall>(n, c) \<in> set cs. times_ok zone (snap_view c))"
proof -
  let ?s = "EntrySnapshot nm dir sz md ct mt st fid reps cs"
  have e: "createdAt (entry_of ?s) = ct" "modTime (entry_of ?s) = mt" by (simp_all add: entry_of_def)
  have "(\<forall>ps e. snap_view ?s ps = Some e \<longrightarrow> wire_time zone (createdAt e) \<and> wire_time zone (modTime e)) \<longleftrightarrow>
      wire_time zone ct \<and> wire_time zone mt \<and>
      (\<forall>n c. map_of cs n = Some c \<longrightarrow> (\<forall>ps e. snap_view c ps = Some e \<longrightarrow> wire_time zone (createdAt e) \<and> wire_time zone (modTime e)))"
    (is "(\<forall>ps e. ?P ps e) \<longleftrightarrow> ?R")
  proof
    assume all: "\<forall>ps e. ?P ps e"
    have "?P [] (entry_of ?s)" using all by blast
    then have "wire_time zone ct \<and> wire_time zone mt" by (simp only: snap_view_Nil e simp_thms)
    moreover have "wire_time zone (createdAt e') \<and> wire_time zone (modTime e')"
      if "map_of cs n = Some c" "snap_view c ps = Some e'" for n c ps e'
    proof -
      have "?P (n # ps) e'" using all by blast
      then show ?thesis using that by (simp add: snap_view_Cons)
    qed
    ultimately show ?R by blast
  next
    assume r: ?R
    show "\<forall>ps e. ?P ps e"
    proof (intro allI)
      fix ps e' show "?P ps e'" using r e by (cases ps) (auto simp: snap_view_Cons split: option.splits)
    qed
  qed
  then show ?thesis using assms unfolding times_ok_def by auto
qed

lemma marshal_entry_Some:
  "wf_snap s \<Longrightarrow> marshal_entry zone s \<noteq> None \<longleftrightarrow> times_ok zone (snap_view s)"
  "\<forall>(n, c) \<in> set cs. wf_snap c \<Longrightarrow> marshal_children zone cs \<noteq> None \<longleftrightarrow> (\<forall>(n, c) \<in> set cs. times_ok zone (snap_view c))"
proof (induction zone s and zone cs rule: marshal_entry_marshal_children.induct)
  case (2 zone nm dir sz md ct mt st fid reps cs)
  have "\<forall>(n, c) \<in> set cs. wf_snap c" using "2.prems" by (auto simp: list_all_iff)
  then have kids: "marshal_children zone cs \<noteq> None \<longleftrightarrow> (\<forall>(n, c) \<in> set cs. times_ok zone (snap_view c))"
    if "marshal_time zone ct \<noteq> None" "marshal_time zone mt \<noteq> None"
    using "2.IH" that by blast
  show ?case
    unfolding times_ok_entry [OF "2.prems"] marshal_time_Some [symmetric]
    using kids by (cases "marshal_time zone ct"; cases "marshal_time zone mt") auto
next
  case (4 zone n s cs)
  then show ?case by (cases "marshal_entry zone s") auto
qed simp_all

lemma marshal_beats_Some: "marshal_beats zone m \<noteq> None \<longleftrightarrow> (\<forall>(a, t) \<in> set m. wire_time zone t)"
proof (induction m)
  case (Cons x m)
  then show ?case using marshal_time_Some [of zone "snd x"] by (cases x; cases "marshal_time zone (snd x)") auto
qed simp

subsection \<open>How deep a snapshot is nested\<close>

lemma object_depth_le: "object_depth fs \<le> d \<longleftrightarrow> (\<forall>(k, j) \<in> set fs. json_depth j \<le> d)"
  by (induction fs) auto

lemma array_depth_le: "array_depth js \<le> d \<longleftrightarrow> (\<forall>j \<in> set js. json_depth j \<le> d)"
  by (induction js) auto

lemma object_depth_append: "object_depth (fs @ gs) = max (object_depth fs) (object_depth gs)"
  by (induction fs) auto

lemma object_depth_omitempty: "object_depth (omitempty b k j) = (if b then json_depth j else 0)"
  by (simp add: omitempty_def)

lemma map_object_depth: "json_depth (map_object kvs) = Suc (object_depth kvs)"
proof -
  let ?fs = "map (\<lambda>(k, j). (ToValidUTF8 k, j)) (sort_key fst kvs)"
  have "object_depth ?fs \<le> d \<longleftrightarrow> object_depth kvs \<le> d" for d by (force simp: object_depth_le)
  then have "object_depth ?fs = object_depth kvs" by (meson antisym order_refl)
  then show ?thesis by (simp add: map_object_def)
qed

lemma marshal_time_depth: "marshal_time zone t = Some j \<Longrightarrow> json_depth j = 0"
  by (auto simp: marshal_time_def)

lemma replicas_depth: "json_depth (JArr (map marshal_replica reps)) \<le> 2"
  by (simp add: array_depth_le marshal_replica_def)

lemma marshal_entry_depth:
  assumes "marshal_entry zone (EntrySnapshot nm dir sz md ct mt st fid reps cs) = Some j"
  shows "\<exists>kids d. marshal_children zone cs = Some kids \<and> d \<le> 3 \<and> 1 \<le> d \<and>
    json_depth j = max d (if cs = [] then 0 else 2 + object_depth kids)"
proof -
  obtain c m kids where mar: "marshal_time zone ct = Some c" "marshal_time zone mt = Some m" "marshal_children zone cs = Some kids"
    and j: "j = JObj
       ([(''name'', jstr nm), (''is_dir'', JBool dir), (''size'', JNum (sint sz)), (''mode'', JNum (uint md)),
         (''created_at'', c), (''mod_time'', m)]
        @ omitempty (st \<noteq> '''') ''status'' (jstr st) @ omitempty (fid \<noteq> '''') ''file_id'' (jstr fid)
        @ omitempty (reps \<noteq> []) ''replicas'' (JArr (map marshal_replica reps))
        @ omitempty (cs \<noteq> []) ''children'' (map_object kids))"
    using assms by (auto simp: bind_eq_Some_conv)
  let ?d = "Suc (if reps = [] then 0 else json_depth (JArr (map marshal_replica reps)))"
  have "json_depth j = max ?d (if cs = [] then 0 else 2 + object_depth kids)"
    using marshal_time_depth [OF mar(1)] marshal_time_depth [OF mar(2)] map_object_depth [of kids]
    by (simp add: j object_depth_append object_depth_omitempty)
  moreover have "?d \<le> 3" using replicas_depth [of reps] by simp
  ultimately show ?thesis using mar(3) by (intro exI [of _ kids] exI [of _ ?d]) simp
qed

text \<open>A path of the tree costs two levels for each name.\<close>

definition depth_ok :: "nat \<Rightarrow> namespace \<Rightarrow> bool" where
  "depth_ok n m \<longleftrightarrow> (\<forall>ps. m ps \<noteq> None \<longrightarrow> length ps \<le> n)"

lemma depth_upper:
  "marshal_entry zone s = Some j \<Longrightarrow> wf_snap s \<Longrightarrow> depth_ok n (snap_view s) \<Longrightarrow> json_depth j \<le> 2 * n + 3"
  "marshal_children zone cs = Some kids \<Longrightarrow> (\<forall>(m, c) \<in> set cs. wf_snap c \<and> depth_ok n (snap_view c)) \<Longrightarrow>
    object_depth kids \<le> 2 * n + 3"
proof (induction zone s and zone cs arbitrary: j n and kids n rule: marshal_entry_marshal_children.induct)
  case (2 zone nm dir sz md ct mt st fid reps cs)
  obtain kids d where k: "marshal_children zone cs = Some kids" "d \<le> 3"
    "json_depth j = max d (if cs = [] then 0 else 2 + object_depth kids)"
    using marshal_entry_depth [OF "2.prems"(1)] by blast
  obtain c m where t: "marshal_time zone ct = Some c" "marshal_time zone mt = Some m"
    using "2.prems"(1) by (auto simp: bind_eq_Some_conv)
  have child: "snap_view c ps \<noteq> None \<Longrightarrow> Suc (length ps) \<le> n" "wf_snap c" if "(m, c) \<in> set cs" for m c ps
    using "2.prems"(3) wf_children(5) [OF "2.prems"(2) that, of ps] wf_children(2) [OF "2.prems"(2) that]
    unfolding depth_ok_def by (metis length_Cons, simp)
  show ?case
  proof (cases "cs = []")
    case False
    then obtain m c where mc: "(m, c) \<in> set cs" by (metis list.set_intros(1) neq_Nil_conv old.prod.exhaust)
    have "snap_view c [] \<noteq> None" by simp
    from child(1) [OF mc this] have n: "1 \<le> n" by simp
    have "depth_ok (n - 1) (snap_view c)" if "(m, c) \<in> set cs" for m c
      using child(1) [OF that] unfolding depth_ok_def by fastforce
    then have "object_depth kids \<le> 2 * (n - 1) + 3" using "2.IH" [OF t k(1)] child(2) by blast
    then show ?thesis using k n False by (cases n) simp_all
  qed (use k in simp)
next
  case (4 zone m s cs)
  then obtain j js where k: "marshal_entry zone s = Some j" "marshal_children zone cs = Some js" "kids = (m, j) # js"
    by (auto simp: bind_eq_Some_conv)
  have "json_depth j \<le> 2 * n + 3" using "4.IH"(1) [OF k(1)] "4.prems"(2) by simp
  moreover have "object_depth js \<le> 2 * n + 3" using "4.IH"(2) [OF k(1,2)] "4.prems"(2) by simp
  ultimately show ?case using k(3) by simp
qed simp_all

lemma depth_lower:
  "marshal_entry zone s = Some j \<Longrightarrow> wf_snap s \<Longrightarrow> snap_view s ps \<noteq> None \<Longrightarrow> 2 * length ps + 1 \<le> json_depth j"
proof (induction ps arbitrary: s j)
  case Nil
  then obtain nm dir sz md ct mt st fid reps cs where "s = EntrySnapshot nm dir sz md ct mt st fid reps cs" by (cases s) auto
  then show ?case using marshal_entry_depth Nil.prems(1) by fastforce
next
  case (Cons n ps)
  then obtain nm dir sz md ct mt st fid reps cs where s: "s = EntrySnapshot nm dir sz md ct mt st fid reps cs" by (cases s) auto
  have "(case map_of cs n of None \<Rightarrow> None | Some c \<Rightarrow> snap_view c ps) \<noteq> None"
    using Cons.prems(3) unfolding s snap_view_Cons entrySnapshot.sel .
  then obtain c where m: "map_of cs n = Some c" and c2: "snap_view c ps \<noteq> None" by (cases "map_of cs n") simp_all
  note c = map_of_SomeD [OF m] c2 wf_children(2) [OF Cons.prems(2) [unfolded s] map_of_SomeD [OF m]]
  obtain kids d where k: "marshal_children zone cs = Some kids" "json_depth j = max d (if cs = [] then 0 else 2 + object_depth kids)"
    using marshal_entry_depth [OF Cons.prems(1) [unfolded s]] by blast
  have "cs \<noteq> []" using c(1) by auto
  obtain i where i: "(n, i) \<in> set kids" "marshal_entry zone c = Some i" using marshal_children_mem [OF k(1) c(1)] by blast
  from Cons.IH [OF i(2) c(3,2)] have "2 * length ps + 1 \<le> json_depth i" .
  moreover have "json_depth i \<le> object_depth kids" using i(1) object_depth_le [of kids "object_depth kids"] by auto
  ultimately show ?case using k(2) \<open>cs \<noteq> []\<close> by simp
qed

subsection \<open>The whole state\<close>

text \<open>The times of a state, and the states whose snapshot can be written and read.\<close>

definition fs_times :: "(time \<Rightarrow> int) \<Rightarrow> fs_state \<Rightarrow> bool" where
  "fs_times zone st \<longleftrightarrow> times_ok zone (fs_ns st) \<and> (\<forall>a t. fs_beats st a = Some t \<longrightarrow> wire_time zone t)"

definition fits :: "(time \<Rightarrow> int) \<Rightarrow> fs_state \<Rightarrow> bool" where
  "fits zone st \<longleftrightarrow> fs_times zone st \<and> depth_ok 4998 (fs_ns st)"

lemma marshal_beats_keys: "marshal_beats zone m = Some kvs \<Longrightarrow> map fst kvs = map fst m"
  by (induction m arbitrary: kvs) (auto simp: bind_eq_Some_conv)

lemma marshal_beats_of:
  assumes "marshal_beats zone m = Some kvs" "zone_ok zone"
  shows "map_of m a = (case map_of kvs a of None \<Rightarrow> map_of [] a | Some j \<Rightarrow> dec_time j)"
    and "\<forall>(a, j) \<in> set kvs. j \<noteq> JNull \<and> dec_time j \<noteq> None \<and> json_depth j = 0"
proof -
  have "map_of m a = (case map_of kvs a of None \<Rightarrow> map_of [] a | Some j \<Rightarrow> dec_time j) \<and>
      (\<forall>(a, j) \<in> set kvs. j \<noteq> JNull \<and> dec_time j \<noteq> None \<and> json_depth j = 0)"
    using assms
  proof (induction m arbitrary: kvs)
    case (Cons x m)
    then obtain j js where k: "marshal_time zone (snd x) = Some j" "marshal_beats zone m = Some js" "kvs = (fst x, j) # js"
      by (cases x) (auto simp: bind_eq_Some_conv)
    then show ?case
      using Cons.IH [OF k(2) Cons.prems(2)] marshal_time_dec [OF Cons.prems(2) k(1)] marshal_time_depth [OF k(1)] by (cases x) auto
  qed simp
  then show "map_of m a = (case map_of kvs a of None \<Rightarrow> map_of [] a | Some j \<Rightarrow> dec_time j)"
    "\<forall>(a, j) \<in> set kvs. j \<noteq> JNull \<and> dec_time j \<noteq> None \<and> json_depth j = 0" by blast+
qed

lemma dec_marshal_beats:
  assumes "zone_ok zone" "map_ok m" "list_all utf8_ok (map fst m)" "marshal_beats zone m = Some kvs"
  shows "\<exists>m'. dec_beat_map (map_object kvs) = Some (Some m') \<and> map_ok m' \<and> map_of m' = map_of m"
proof -
  let ?kvs = "sort_key fst kvs"
  have keys: "distinct (map fst kvs)" "list_all utf8_ok (map fst kvs)"
    using assms(2,3) marshal_beats_keys [OF assms(4)] by simp_all
  have s: "distinct (map fst ?kvs)" "list_all utf8_ok (map fst ?kvs)" "\<forall>(k, j) \<in> set ?kvs. j \<noteq> JNull \<and> dec_time j \<noteq> None"
    using map_of_sorted(2) [OF keys(1)] keys(2) marshal_beats_of(2) [OF assms(4,1)] by (auto simp: list_all_iff)
  obtain m' where m': "dec_beats ?kvs [] = Some m'" "map_ok m'"
    "\<And>n. map_of m' n = (case map_of kvs n of None \<Rightarrow> map_of [] n | Some j \<Rightarrow> dec_time j)"
    using dec_beats_map [where m = "[]", OF s] map_of_sorted(1) [OF keys(1)] by auto
  have "map_of m' = map_of m"
    by (rule ext) (simp add: m'(3) marshal_beats_of(1) [OF assms(4,1)])
  then show ?thesis using m'(1,2) by (simp add: map_object_utf8 [OF keys(2)])
qed

lemma snapshot_structE:
  assumes "mds_inv s" "snapshot_struct s = Some snap"
  obtains rs where "snap = \<lparr>ms_Root = Some rs, ms_DataNodes = dataNodes s, ms_LastHeartbeat = Some (lastHeartbeat s)\<rparr>"
    "wf_snap rs" "snap_view rs = mds_view s"
  using assms toSnapshot_view [of "mds_heap s" "mds_root s"] by (auto simp: snapshot_struct_def mds_inv_def)

lemma Marshal_snapshotE:
  assumes "Marshal_snapshot zone \<lparr>ms_Root = Some rs, ms_DataNodes = ns, ms_LastHeartbeat = Some m\<rparr> = Some j"
  obtains r kvs where "marshal_entry zone rs = Some r" "marshal_beats zone m = Some kvs"
    "j = JObj [(''root'', r), (''data_nodes'', JArr (map (\<lambda>a. jstr a) ns)), (''last_heartbeat'', map_object kvs)]"
  using assms by (auto simp: Marshal_snapshot_def bind_eq_Some_conv)

lemma dec_strs_utf8: "list_all utf8_ok ns \<Longrightarrow> dec_strs (JArr (map (\<lambda>a. jstr a) ns)) = Some ns"
  by (induction ns) (simp_all add: utf8_ok_def)

lemma heartbeat_keys_utf8: "mds_inv s \<Longrightarrow> fs_utf8 (abs_state s) \<Longrightarrow> list_all utf8_ok (map fst (lastHeartbeat s))"
  by (auto simp: mds_inv_def fs_utf8_def abs_state_def list_all_iff dom_map_of_conv_image_fst)

lemma dec_snapshot_of:
  assumes inv: "mds_inv s" "fs_utf8 (abs_state s)" "zone_ok zone"
    and snap: "snapshot_struct s = Some snap" "Marshal_snapshot zone snap = Some j"
  shows "\<exists>rs m. dec_snapshot j = Some \<lparr>ms_Root = Some rs, ms_DataNodes = dataNodes s, ms_LastHeartbeat = Some m\<rparr> \<and>
    wf_snap rs \<and> snap_view rs = mds_view s \<and> map_ok m \<and> map_of m = map_of (lastHeartbeat s)"
proof -
  obtain rs where rs: "snap = \<lparr>ms_Root = Some rs, ms_DataNodes = dataNodes s, ms_LastHeartbeat = Some (lastHeartbeat s)\<rparr>"
    "wf_snap rs" "snap_view rs = mds_view s"
    by (rule snapshot_structE [OF inv(1) snap(1)])
  obtain r kvs where j: "marshal_entry zone rs = Some r" "marshal_beats zone (lastHeartbeat s) = Some kvs"
    "j = JObj [(''root'', r), (''data_nodes'', JArr (map (\<lambda>a. jstr a) (dataNodes s))), (''last_heartbeat'', map_object kvs)]"
    by (rule Marshal_snapshotE [OF snap(2) [unfolded rs(1)]])
  have u: "ns_utf8 (snap_view rs)" "list_all utf8_ok (dataNodes s)" "map_ok (lastHeartbeat s)"
    using inv(1,2) rs(3) by (simp_all add: fs_utf8_def abs_state_def mds_inv_def)
  obtain rs' where rs': "dec_entry r = Some rs'" "same_entry rs' rs" using dec_marshal_entry(1) [OF inv(3) j(1) rs(2) u(1)] by blast
  obtain m where m: "dec_beat_map (map_object kvs) = Some (Some m)" "map_ok m" "map_of m = map_of (lastHeartbeat s)"
    using dec_marshal_beats [OF inv(3) u(3) heartbeat_keys_utf8 [OF inv(1,2)] j(2)] by blast
  have "r \<noteq> JNull" using rs' by (auto simp: same_entry_def)
  moreover have "map_object kvs \<noteq> JNull" by (simp add: map_object_def)
  ultimately have "dec_snapshot j = Some \<lparr>ms_Root = Some rs', ms_DataNodes = dataNodes s, ms_LastHeartbeat = Some m\<rparr>"
    using rs'(1) m(1) dec_strs_utf8 [OF u(2)] by (simp add: j(3) get_field_def del: dec_strs.simps)
  then show ?thesis using rs'(2) m(2,3) rs(3) by (auto simp: same_entry_def)
qed

text \<open>\<open>Snapshot\<close> fails exactly on times out of range.\<close>

lemma Snapshot_result:
  assumes "mds_inv s"
  shows "if fs_times zone (abs_state s) then \<exists>j. Snapshot zone s = Some (Inr j) else Snapshot zone s = Some (Inl ErrMarshalTime)"
proof -
  obtain snap where snap: "snapshot_struct s = Some snap" using snapshot_struct_total [OF assms] by blast
  obtain rs where rs: "snap = \<lparr>ms_Root = Some rs, ms_DataNodes = dataNodes s, ms_LastHeartbeat = Some (lastHeartbeat s)\<rparr>"
    "wf_snap rs" "snap_view rs = mds_view s"
    by (rule snapshot_structE [OF assms snap])
  have ok: "map_ok (lastHeartbeat s)" using assms by (simp add: mds_inv_def)
  have "marshal_beats zone (lastHeartbeat s) \<noteq> None \<longleftrightarrow> (\<forall>a t. map_of (lastHeartbeat s) a = Some t \<longrightarrow> wire_time zone t)"
    unfolding marshal_beats_Some using ok by auto
  then have "Marshal_snapshot zone snap \<noteq> None \<longleftrightarrow> fs_times zone (abs_state s)"
    using marshal_entry_Some(1) [OF rs(2), of zone] rs(3)
    by (cases "marshal_entry zone rs"; cases "marshal_beats zone (lastHeartbeat s)")
       (auto simp: Marshal_snapshot_def rs(1) fs_times_def abs_state_def)
  then show ?thesis using snap by (auto simp: Snapshot_def)
qed

lemma Snapshot_json:
  assumes "Snapshot zone s = Some (Inr j)"
  obtains snap where "snapshot_struct s = Some snap" "Marshal_snapshot zone snap = Some j"
  using assms by (auto simp: Snapshot_def split: option.splits)

text \<open>Its nesting, from the depth of the tree.\<close>

lemma Snapshot_depth:
  assumes "mds_inv s" "zone_ok zone" "Snapshot zone s = Some (Inr j)"
  shows "depth_ok n (mds_view s) \<Longrightarrow> json_depth j \<le> 2 * n + 4"
    and "mds_view s ps \<noteq> None \<Longrightarrow> 2 * length ps + 2 \<le> json_depth j"
proof -
  obtain snap where snap: "snapshot_struct s = Some snap" "Marshal_snapshot zone snap = Some j" by (rule Snapshot_json [OF assms(3)])
  obtain rs where rs: "snap = \<lparr>ms_Root = Some rs, ms_DataNodes = dataNodes s, ms_LastHeartbeat = Some (lastHeartbeat s)\<rparr>"
    "wf_snap rs" "snap_view rs = mds_view s"
    by (rule snapshot_structE [OF assms(1) snap(1)])
  obtain r kvs where j: "marshal_entry zone rs = Some r" "marshal_beats zone (lastHeartbeat s) = Some kvs"
    "j = JObj [(''root'', r), (''data_nodes'', JArr (map (\<lambda>a. jstr a) (dataNodes s))), (''last_heartbeat'', map_object kvs)]"
    by (rule Marshal_snapshotE [OF snap(2) [unfolded rs(1)]])
  have "object_depth kvs \<le> 0" using marshal_beats_of(2) [OF j(2) assms(2)] unfolding object_depth_le by auto
  moreover have "array_depth (map (\<lambda>a. jstr a) (dataNodes s)) \<le> 0" unfolding array_depth_le by simp
  ultimately have d: "json_depth j = Suc (max (json_depth r) 1)" by (simp add: j(3) map_object_depth)
  show "depth_ok n (mds_view s) \<Longrightarrow> json_depth j \<le> 2 * n + 4" using depth_upper(1) [OF j(1) rs(2)] rs(3) d by fastforce
  show "mds_view s ps \<noteq> None \<Longrightarrow> 2 * length ps + 2 \<le> json_depth j" using depth_lower [OF j(1) rs(2)] rs(3) d by fastforce
qed

lemma Restore_Snapshot:
  assumes s: "mds_inv s" "fs_utf8 (abs_state s)" "zone_ok zone" and t: "mds_inv t"
    and snap: "Snapshot zone s = Some (Inr j)" "json_depth j \<le> maxNestingDepth"
    and r: "Restore (Json j) t = (t', err)"
  shows "mds_inv t' \<and> abs_state t' = abs_state s \<and> err = None"
proof -
  obtain st where st: "snapshot_struct s = Some st" "Marshal_snapshot zone st = Some j" by (rule Snapshot_json [OF snap(1)])
  obtain rs m where d: "dec_snapshot j = Some \<lparr>ms_Root = Some rs, ms_DataNodes = dataNodes s, ms_LastHeartbeat = Some m\<rparr>"
    "wf_snap rs" "snap_view rs = mds_view s" "map_ok m" "map_of m = map_of (lastHeartbeat s)"
    using dec_snapshot_of [OF s st] by blast
  have oks: "mds_ok s" and okt: "mds_ok t" using s t by (simp_all add: mds_inv_def)
  obtain h p where te: "toEntry rs (mds_heap t) = (h, p)" by (cases "toEntry rs (mds_heap t)")
  note T = toEntry_ok(1) [OF d(2) okt te]
  have "view h p = mds_view s" using T d(3) by metis
  moreover have "is_dir h p"
    using calculation heap_ok_root [OF oks] by (metis is_dir_attrs_at view_root_attrs)
  ultimately have v: "heap_ok h p" "view h p = mds_view s"
    using heap_ok_new_root [of h "mds_root t" p] T okt by auto
  have "t' = t\<lparr>mds_heap := h, mds_root := p, dataNodes := dataNodes s, lastHeartbeat := m\<rparr>" "err = None"
    using r d(1) te snap(2) wf_snap_no_nil [OF d(2)] by (simp_all add: Restore_def restore_root_def Unmarshal_snapshot_def)
  then show ?thesis using s(1) v d(4,5) by (simp add: mds_inv_def abs_state_def)
qed

lemma Restore_rejects:
  assumes "data \<in> {NoData, NotJson} \<or> (\<exists>j. data = Json j \<and> maxNestingDepth < json_depth j)"
  shows "Restore data t = (t, if data = NoData then None else Some ErrUnmarshalSnapshot)"
  using assms by (auto simp: Restore_def Unmarshal_snapshot_def)

subsection \<open>Log compaction\<close>

text \<open>
  The second half of goraft's \<open>StateMachine\<close> interface. A node that restores a snapshot and
  replays the rest of the log reaches the same abstract state as one that applied the whole log,
  when the snapshot fits.
\<close>

locale snapshot_machine = replicated_machine inv abs app key spec
  for inv :: "'s \<Rightarrow> bool"
    and abs :: "'s \<Rightarrow> 'a"
    and app :: "'c \<Rightarrow> 's \<Rightarrow> 's \<times> 'e"
    and key :: "'c \<Rightarrow> 'k"
    and spec :: "'k \<Rightarrow> 'a \<Rightarrow> 'a \<times> 'e" +
  fixes snap :: "'s \<Rightarrow> 'd option"
    and rest :: "'d \<Rightarrow> 's \<Rightarrow> 's"
    and fit :: "'s \<Rightarrow> bool"
  assumes snap_total: "inv s \<Longrightarrow> fit s \<Longrightarrow> \<exists>d. snap s = Some d"
    and rest_snap: "inv s \<Longrightarrow> fit s \<Longrightarrow> inv t \<Longrightarrow> snap s = Some d \<Longrightarrow> inv (rest d t) \<and> abs (rest d t) = abs s"
begin

lemma compaction:
  assumes "inv s" "inv t" "fit (run_log app xs s)" "snap (run_log app xs s) = Some d" "map key ys = map key ys'"
  shows "inv (rest d t) \<and> abs (run_log app ys' (rest d t)) = abs (run_log app (xs @ ys) s)"
proof -
  have i: "inv (run_log app xs s)" by (rule run_inv [OF assms(1)])
  note r = rest_snap [OF i assms(3,2,4)]
  show ?thesis
    unfolding run_log_append using r i assms(5) by (intro conjI replicas_agree) auto
qed

lemma snapshot_after_log: "inv s \<Longrightarrow> fit (run_log app xs s) \<Longrightarrow> \<exists>d. snap (run_log app xs s) = Some d"
  by (rule snap_total [OF run_inv])

end

definition snapshot_json :: "(time \<Rightarrow> int) \<Rightarrow> MetadataServer \<Rightarrow> json option" where
  "snapshot_json zone mds = (case Snapshot zone mds of Some (Inr j) \<Rightarrow> Some j | _ \<Rightarrow> None)"

definition restore_json :: "json \<Rightarrow> MetadataServer \<Rightarrow> MetadataServer" where
  "restore_json j mds = fst (Restore (Json j) mds)"

definition fitting :: "(time \<Rightarrow> int) \<Rightarrow> MetadataServer \<Rightarrow> bool" where
  "fitting zone mds \<longleftrightarrow> zone_ok zone \<and> fs_utf8 (abs_state mds) \<and> fits zone (abs_state mds)"

lemma snapshot_json_Some: "snapshot_json zone s = Some j \<longleftrightarrow> Snapshot zone s = Some (Inr j)"
  by (auto simp: snapshot_json_def split: option.split sum.split)

lemma fitting_depth:
  assumes "mds_inv s" "fitting zone s" "Snapshot zone s = Some (Inr j)"
  shows "json_depth j \<le> maxNestingDepth"
  using Snapshot_depth(1) [OF assms(1) _ assms(3), of 4998] assms(2)
  by (simp add: fitting_def fits_def abs_state_def maxNestingDepth_def)

lemma snapshot_json_total: "mds_inv s \<Longrightarrow> fitting zone s \<Longrightarrow> \<exists>j. snapshot_json zone s = Some j"
  using Snapshot_result [of s zone] by (auto simp: snapshot_json_Some fitting_def fits_def)

lemma restore_json_ok:
  assumes "mds_inv s" "fitting zone s" "mds_inv t" "snapshot_json zone s = Some j"
  shows "mds_inv (restore_json j t) \<and> abs_state (restore_json j t) = abs_state s"
  using Restore_Snapshot [OF assms(1) _ _ assms(3) _ _ surjective_pairing, where zone = zone and j = j]
    fitting_depth [OF assms(1,2)] assms
  by (simp add: restore_json_def fitting_def snapshot_json_Some)

interpretation timed_snapshot:
  snapshot_machine mds_inv abs_state apply_at id spec_at "snapshot_json zone" restore_json "fitting zone"
  by unfold_locales (simp_all add: snapshot_json_total restore_json_ok)

interpretation untimed_snapshot:
  snapshot_machine mds_inv "\<lambda>mds. untimed (abs_state mds)" apply_at snd spec_untimed
    "snapshot_json zone" restore_json "fitting zone"
  by unfold_locales (simp_all add: snapshot_json_total restore_json_ok)

end
