(* ===== verification/Reachable_States.thy ===== *)
theory Reachable_States
  imports Snapshot_Roundtrip
begin

section \<open>What every replica state satisfies\<close>

text \<open>
  The states a metadata replica can be in: it starts from \<open>NewMetadataServer\<close>, applies
  committed commands, and may be restored from the snapshot of another replica. The properties
  of the state machine of \<open>internal/metadata/apply.go\<close> and \<open>state_machine.go\<close> that hold in
  all of these states, and the behaviour of each command on the namespace.
\<close>

inductive reachable :: "MetadataServer \<Rightarrow> bool" where
  init: "reachable (NewMetadataServer now1 now2)"
| command: "reachable mds \<Longrightarrow> Apply now op data mds = (mds', err) \<Longrightarrow> reachable mds'"
| restore: "reachable mds \<Longrightarrow> reachable other \<Longrightarrow> zone_ok zone \<Longrightarrow> Snapshot zone other = Some (Inr j) \<Longrightarrow>
    Restore (Json j) mds = (mds', err) \<Longrightarrow> reachable mds'"
| no_restore: "reachable mds \<Longrightarrow> data \<in> {NoData, NotJson} \<Longrightarrow>
    Restore data mds = (mds', err) \<Longrightarrow> reachable mds'"

inductive_cases reachableE: "reachable mds"

lemma Apply_inv: "mds_inv mds \<Longrightarrow> Apply now op data mds = (mds', err) \<Longrightarrow> mds_inv mds'"
  using apply_at_refines [of mds "(now, op, data)"] by (simp add: apply_at_def)

lemma Apply_utf8:
  "mds_inv mds \<Longrightarrow> fs_utf8 (abs_state mds) \<Longrightarrow> Apply now op data mds = (mds', err) \<Longrightarrow> fs_utf8 (abs_state mds')"
  using apply_at_refines [of mds "(now, op, data)" mds' err] spec_at_utf8 [of "abs_state mds" "(now, op, data)"]
  by (metis apply_at_def case_prod_conv fst_conv)

lemma reachable_ok: "reachable mds \<Longrightarrow> mds_inv mds \<and> fs_utf8 (abs_state mds)"
proof (induction rule: reachable.induct)
  case (restore mds other zone j mds' err)
  show ?case
  proof (cases "json_depth j \<le> maxNestingDepth")
    case True
    have "mds_inv mds' \<and> abs_state mds' = abs_state other"
      using Restore_Snapshot [OF _ _ restore.hyps(3) _ restore.hyps(4) True restore.hyps(5)] restore.IH by blast
    then show ?thesis using restore.IH by simp
  next
    case False
    then show ?thesis using Restore_rejects [of "Json j" mds] restore.hyps(5) restore.IH by simp
  qed
next
  case (no_restore mds data mds' err)
  then show ?case using Restore_rejects [of data mds] by auto
qed (use NewMetadataServer_inv New_utf8 Apply_inv Apply_utf8 in blast)+

lemma reachable_inv: "reachable mds \<Longrightarrow> mds_inv mds"
  using reachable_ok by blast

lemma reachable_utf8: "reachable mds \<Longrightarrow> fs_utf8 (abs_state mds)"
  using reachable_ok by blast

lemma run_log_reachable: "reachable mds \<Longrightarrow> reachable (run_log apply_at cs mds)"
proof (induction cs arbitrary: mds)
  case (Cons c cs)
  have "reachable (fst (apply_at c mds))"
    using reachable.command [OF Cons.prems surjective_pairing] by (cases c) (simp add: apply_at_def)
  then show ?case using Cons.IH by simp
qed simp

subsection \<open>Commands on the pointer structure\<close>

lemma mkdir_loop_fresh:
  "(\<And>n. child h cur n = None) \<Longrightarrow> cur < next_ptr h \<Longrightarrow> snd (mkdir_loop path now i parts cur h) = None"
proof (induction parts arbitrary: i cur h)
  case (Cons part parts)
  let ?h = "set_modTime now cur (set_child cur part (next_ptr h) (fst (alloc (dir_entry part now now) h)))"
  have "child ?h (next_ptr h) n = None" for n
    using Cons.prems(2)
    by (simp add: child_set_modTime child_set_child) (simp add: child_def alloc_def dir_entry_def)
  moreover have "next_ptr h < next_ptr ?h" by (simp add: heap_simps alloc_def)
  ultimately have "snd (mkdir_loop path now (Suc i) parts (next_ptr h) ?h) = None" by (rule Cons.IH)
  then show ?case using Cons.prems(1) by (simp add: alloc_def)
qed simp

text \<open>The loop fails only before it has made a directory.\<close>

lemma mkdir_loop_error:
  "cur < next_ptr h \<Longrightarrow> (\<And>p n q. child h p n = Some q \<Longrightarrow> q < next_ptr h) \<Longrightarrow>
   mkdir_loop path now i parts cur h = (h', Some e) \<Longrightarrow> h' = h"
proof (induction parts arbitrary: i cur)
  case (Cons part parts)
  show ?case
  proof (cases "child h cur part")
    case None
    let ?h = "set_modTime now cur (set_child cur part (next_ptr h) (fst (alloc (dir_entry part now now) h)))"
    have "child ?h (next_ptr h) n = None" for n
      using Cons.prems(1)
      by (simp add: child_set_modTime child_set_child) (simp add: child_def alloc_def dir_entry_def)
    moreover have "next_ptr h < next_ptr ?h" by (simp add: heap_simps alloc_def)
    ultimately have "snd (mkdir_loop path now (Suc i) parts (next_ptr h) ?h) = None"
      by (rule mkdir_loop_fresh)
    with Cons.prems(3) None show ?thesis by (simp add: alloc_def)
  next
    case (Some c)
    with Cons show ?thesis by (fastforce split: if_splits)
  qed
qed simp

lemma heap_ok_child_bound: "heap_ok h root \<Longrightarrow> child h p n = Some q \<Longrightarrow> q < next_ptr h"
  using heap_ok_child_store heap_ok_bound by (metis not_None_eq)

lemma heap_ok_root_bound: "heap_ok h root \<Longrightarrow> root < next_ptr h"
  using is_dir_store [OF heap_ok_root] heap_ok_bound by (metis not_None_eq)

lemma apply_payload_error:
  assumes inv: "mds_inv mds" and run: "apply_payload now op p mds = (mds', Some e)"
  shows "mds' = mds"
proof -
  have ok: "mds_ok mds" using inv by (simp add: mds_inv_def)
  have mk: "applyMkdir now p mds = (mds', Some e) \<Longrightarrow> mds' = mds"
    using mkdir_loop_error [OF heap_ok_root_bound [OF ok] heap_ok_child_bound [OF ok]]
    by (auto simp: applyMkdir_def split: prod.splits)
  have "applyCreateFile now p mds = (mds', Some e) \<Longrightarrow> mds' = mds"
    by (auto simp: applyCreateFile_def Let_def split: if_splits option.splits)
  moreover have "applyCompleteFile now p mds = (mds', Some e) \<Longrightarrow> mds' = mds"
    by (auto simp: applyCompleteFile_def split: if_splits option.splits)
  moreover have "applyDelete now p mds = (mds', Some e) \<Longrightarrow> mds' = mds"
    by (auto simp: applyDelete_def Let_def split: if_splits option.splits)
  moreover have "applyRename now p mds = (mds', Some e) \<Longrightarrow> mds' = mds"
    by (auto simp: applyRename_def Let_def split: if_splits option.splits)
  moreover have "applyUpdateSize now p mds = (mds', Some e) \<Longrightarrow> mds' = mds"
    by (auto simp: applyUpdateSize_def split: if_splits option.splits)
  ultimately show ?thesis
    using run mk
    by (auto simp: apply_payload_def applyHeartbeat_def applyRemoveDataNode_def Let_def split: if_splits)
qed

subsection \<open>Commands on the namespace\<close>

lemma dir_at_prefix:
  "heap_ok h root \<Longrightarrow> view h root qs \<noteq> None \<Longrightarrow> strict_prefix ps qs \<Longrightarrow> dir_at (view h root) ps"
  by (metis strict_prefixE' view_below)

lemma touch_apply: "touch now ps m qs = (if qs = ps then map_option (\<lambda>e. e\<lparr>modTime := now\<rparr>) (m ps) else m qs)"
  by (simp add: touch_def on_path_def)

lemma moved_apply:
  "moved src dst m qs =
     (if qs = dst then map_option (\<lambda>e. e\<lparr>entry_name := last dst\<rparr>) (m src)
      else if prefix dst qs then m (src @ drop (length dst) qs)
      else if prefix src qs then None else m qs)"
  by (auto simp: moved_def graft_def prune_def on_path_def prefix_def)

lemma dir_at_not_None: "dir_at m ps \<Longrightarrow> m ps \<noteq> None"
  by (auto simp: dir_at_def split: option.splits)

text \<open>The guards of a successful rename, read on the namespace.\<close>

lemma spec_rename_ok:
  assumes ok: "heap_ok h root" and m: "m = view h root"
    and run: "spec_rename now p m = (m', None)"
    and src: "src = splitPath (p_Path p)" and dst: "dst = splitPath (p_DstPath p)"
  shows "src \<noteq> []" "dst \<noteq> []" "m src \<noteq> None" "dir_at m (butlast dst)" "\<not> dir_at m dst"
    "\<not> prefix src (butlast dst)" "\<not> prefix dst (butlast src)"
    "m' = touch now dst (touch now (butlast dst) (touch now (butlast src) (moved src dst m)))"
proof -
  from run src dst have g: "src \<noteq> [] \<and> dst \<noteq> [] \<and> m src \<noteq> None \<and>
      \<not> (dir_at m src \<and> prefix src (butlast dst)) \<and> dir_at m (butlast dst) \<and> \<not> dir_at m dst \<and>
      m' = touch now dst (touch now (butlast dst) (touch now (butlast src) (moved src dst m)))"
    by (auto simp: spec_rename_def Let_def split: if_splits)
  then show "src \<noteq> []" "dst \<noteq> []" "m src \<noteq> None" "dir_at m (butlast dst)" "\<not> dir_at m dst"
    "m' = touch now dst (touch now (butlast dst) (touch now (butlast src) (moved src dst m)))"
    by simp_all
  show "\<not> prefix src (butlast dst)"
  proof
    assume pre: "prefix src (butlast dst)"
    then have "dir_at m src"
      using g dir_at_prefix [OF ok, of "butlast dst" src] m
      by (cases "src = butlast dst") (auto simp: strict_prefix_def dest: dir_at_not_None)
    with g pre show False by simp
  qed
  show "\<not> prefix dst (butlast src)"
    using g dir_at_prefix [OF ok, of src dst] m by (auto simp: prefix_butlast_strict)
qed

lemma rename_view:
  assumes ok: "heap_ok h root" and m: "m = view h root"
    and run: "spec_rename now p m = (m', None)"
    and src: "src = splitPath (p_Path p)" and dst: "dst = splitPath (p_DstPath p)"
  shows "m' dst = map_option (\<lambda>e. e\<lparr>entry_name := last dst, modTime := now\<rparr>) (m src)"
    and "rs \<noteq> [] \<Longrightarrow> m' (dst @ rs) = m (src @ rs)"
    and "src \<noteq> dst \<Longrightarrow> m' (src @ rs) = None"
    and "\<not> prefix src qs \<Longrightarrow> \<not> prefix dst qs \<Longrightarrow>
      m' qs = (if qs = butlast src \<or> qs = butlast dst
               then map_option (\<lambda>e. e\<lparr>modTime := now\<rparr>) (m qs) else m qs)"
proof -
  note g = spec_rename_ok [OF assms]
  have dne: "dst \<noteq> butlast dst" "dst \<noteq> butlast src"
    using strict_prefix_butlast [OF g(2)] g(7) by (auto simp: strict_prefix_def)
  show "m' dst = map_option (\<lambda>e. e\<lparr>entry_name := last dst, modTime := now\<rparr>) (m src)"
    by (simp add: g(8) touch_apply moved_apply dne option.map_comp o_def)
  have "dst @ rs \<noteq> butlast dst" "dst @ rs \<noteq> butlast src"
    using append_not_butlast [OF g(2)] g(7) by (blast, metis prefixI)
  then show "rs \<noteq> [] \<Longrightarrow> m' (dst @ rs) = m (src @ rs)"
    by (simp add: g(8) touch_apply moved_apply)
  show "m' (src @ rs) = None" if ne: "src \<noteq> dst"
  proof -
    have "\<not> prefix dst (src @ rs)"
    proof
      assume "prefix dst (src @ rs)"
      then consider "strict_prefix dst src" | "strict_prefix src dst"
        using ne prefix_same_cases [of dst "src @ rs" src] by (auto simp: strict_prefix_def)
      then show False using g by cases (simp_all flip: prefix_butlast_strict)
    qed
    moreover have "src @ rs \<noteq> butlast src" "src @ rs \<noteq> butlast dst"
      using append_not_butlast [OF g(1)] g(6) by (blast, metis prefixI)
    ultimately show ?thesis by (auto simp: g(8) touch_apply moved_apply)
  qed
  show "m' qs = (if qs = butlast src \<or> qs = butlast dst
               then map_option (\<lambda>e. e\<lparr>modTime := now\<rparr>) (m qs) else m qs)"
    if "\<not> prefix src qs" "\<not> prefix dst qs"
    using that by (auto simp: g(8) touch_apply moved_apply option.map_comp o_def)
qed

subsection \<open>Making directories\<close>

lemma dir_at_touch [simp]: "dir_at (touch now at m) ps = dir_at m ps"
  by (simp add: dir_at_def touch_apply split: option.splits)

lemma dir_at_upd: "dir_at (m(ps \<mapsto> e)) qs = (if qs = ps then isDir e else dir_at m qs)"
  by (simp add: dir_at_def)

lemma isDir_dir_entry [simp]: "isDir (dir_entry n t u)"
  by (simp add: dir_entry_def)

lemma spec_mkdir_loop_ok:
  "spec_mkdir_loop path now i at parts m = (m', None) \<Longrightarrow> (\<And>ps. prefix ps at \<Longrightarrow> dir_at m ps) \<Longrightarrow>
   (\<forall>ps. prefix ps (at @ parts) \<longrightarrow> dir_at m' ps) \<and>
   (\<forall>qs e. m qs = Some e \<longrightarrow> m' qs \<in> {Some e, Some (e\<lparr>modTime := now\<rparr>)}) \<and>
   (\<forall>qs. m qs = None \<longrightarrow>
      m' qs = (if prefix qs (at @ parts) then Some (dir_entry (last qs) now now) else None))"
proof (induction path now i at parts m rule: spec_mkdir_loop.induct)
  case (1 path now i at m)
  then show ?case by (fastforce simp: dir_at_def)
next
  case (2 path now i at part parts m)
  show ?case
  proof (cases "m (at @ [part])")
    case None
    let ?m = "touch now at (m(at @ [part] \<mapsto> dir_entry part now now))"
    have m1: "?m qs = (if qs = at @ [part] then Some (dir_entry part now now)
        else if qs = at then map_option (\<lambda>e. e\<lparr>modTime := now\<rparr>) (m at) else m qs)" for qs
      by (simp add: touch_apply)
    have pre: "dir_at ?m ps" if "prefix ps (at @ [part])" for ps
      using that "2.prems"(2) [of ps] by (auto simp: prefix_snoc_iff dir_at_upd)
    have run: "spec_mkdir_loop path now (Suc i) (at @ [part]) parts ?m = (m', None)"
      using "2.prems"(1) None by simp
    note IH = "2.IH"(1) [OF None run pre, simplified append_assoc append_Cons append_Nil]
    have at: "m at \<noteq> None" using "2.prems"(2) [of at] by (auto dest: dir_at_not_None)
    have new: "(dir_entry part now now)\<lparr>modTime := now\<rparr> = dir_entry part now now"
      by (simp add: dir_entry_def)
    have keep: "m' qs \<in> {Some e, Some (e\<lparr>modTime := now\<rparr>)}" if "m qs = Some e" for qs e
    proof (cases "qs = at")
      case True
      then have "?m qs = Some (e\<lparr>modTime := now\<rparr>)" using that m1 [of qs] by simp
      then have "m' qs \<in> {Some (e\<lparr>modTime := now\<rparr>), Some (e\<lparr>modTime := now\<rparr>\<lparr>modTime := now\<rparr>)}"
        using IH by blast
      then show ?thesis by simp
    next
      case False
      then have "?m qs = Some e" using that None m1 [of qs] by auto
      then show ?thesis using IH by blast
    qed
    have fresh: "m' qs = (if prefix qs (at @ part # parts) then Some (dir_entry (last qs) now now) else None)"
      if "m qs = None" for qs
    proof (cases "qs = at @ [part]")
      case True
      then have "?m qs = Some (dir_entry part now now)" using m1 [of qs] by simp
      then have "m' qs = Some (dir_entry part now now)" using IH new by (metis insert_iff singletonD)
      then show ?thesis using True by (simp add: prefix_def)
    next
      case False
      then have "?m qs = None" using that at m1 [of qs] by auto
      then show ?thesis using IH by blast
    qed
    have "\<forall>ps. prefix ps (at @ part # parts) \<longrightarrow> dir_at m' ps" using IH by blast
    with keep fresh show ?thesis by blast
  next
    case (Some e)
    have d: "isDir e" and run: "spec_mkdir_loop path now (Suc i) (at @ [part]) parts m = (m', None)"
      using "2.prems"(1) Some by (auto split: if_splits)
    have pre: "dir_at m ps" if "prefix ps (at @ [part])" for ps
      using that "2.prems"(2) [of ps] d Some by (auto simp: prefix_snoc_iff dir_at_def)
    have "\<not> \<not> isDir e" using d by simp
    from "2.IH"(2) [OF Some this run] pre show ?thesis by simp
  qed
qed

text \<open>On a path of directories the loop walks down and changes nothing.\<close>

lemma mkdir_loop_existing:
  "find_dir h cur parts = Some q \<Longrightarrow> mkdir_loop path now i parts cur h = (h, None)"
  by (induction parts arbitrary: i cur) (auto split: option.splits if_splits)

subsection \<open>File identities\<close>

definition file_id :: "namespace \<Rightarrow> string list \<Rightarrow> string option" where
  "file_id m ps = (case m ps of None \<Rightarrow> None | Some e \<Rightarrow> if isDir e then None else Some (fileID e))"

definition ids_distinct :: "namespace \<Rightarrow> bool" where
  "ids_distinct m \<longleftrightarrow> (\<forall>ps qs. file_id m ps \<noteq> None \<longrightarrow> file_id m ps = file_id m qs \<longrightarrow> ps = qs)"

lemma file_id_cong: "m ps = m' ps \<Longrightarrow> file_id m ps = file_id m' ps"
  by (simp add: file_id_def)

lemma file_id_keep: "m' ps = map_option f (m ps) \<Longrightarrow> (\<And>e. isDir (f e) = isDir e) \<Longrightarrow>
   (\<And>e. fileID (f e) = fileID e) \<Longrightarrow> file_id m' ps = file_id m ps"
  by (simp add: file_id_def split: option.splits)

lemma file_id_touch [simp]: "file_id (touch now at m) = file_id m"
  by (rule ext) (simp add: file_id_def touch_apply split: option.splits)

lemma file_id_upd: "file_id (m(ps \<mapsto> e)) = (file_id m)(ps := (if isDir e then None else Some (fileID e)))"
  by (rule ext) (simp add: file_id_def)

lemma file_id_prune: "file_id (prune ps m) = (\<lambda>qs. if prefix ps qs then None else file_id m qs)"
  by (rule ext) (simp add: file_id_def prune_def)

lemma file_id_moved:
  "file_id (moved src dst m) qs =
     (if prefix dst qs then file_id m (src @ drop (length dst) qs)
      else if prefix src qs then None else file_id m qs)"
  by (auto simp: file_id_def moved_apply split: option.splits)

lemma file_id_mkdir_loop: "file_id (fst (spec_mkdir_loop path now i at parts m)) = file_id m"
proof (induction path now i at parts m rule: spec_mkdir_loop.induct)
  case (2 path now i at part parts m)
  have "file_id (m(at @ [part] \<mapsto> dir_entry part now now)) = file_id m" if "m (at @ [part]) = None"
    using that by (intro ext) (simp add: file_id_def)
  with 2 show ?case by (auto split: option.splits)
qed simp

text \<open>
  What each command does to the identities: a successful create adds the new one or keeps the
  one it overwrites, a rename moves them, a delete drops the subtree, the rest keep them.
\<close>

lemma ids_distinct_moved:
  assumes "ids_distinct m"
  shows "ids_distinct (moved src dst m)"
  unfolding ids_distinct_def
proof (intro allI impI)
  fix ps qs assume s: "file_id (moved src dst m) ps \<noteq> None"
    and eq: "file_id (moved src dst m) ps = file_id (moved src dst m) qs"
  define g where "g qs = (if prefix dst qs then src @ drop (length dst) qs else qs)" for qs
  have val: "file_id (moved src dst m) qs = file_id m (g qs) \<and> (prefix dst qs \<or> \<not> prefix src qs)"
    if "file_id (moved src dst m) qs \<noteq> None" for qs
    using that by (auto simp: file_id_moved g_def split: if_splits)
  have "g ps = g qs" using assms val [of ps] val [of qs] s eq by (simp add: ids_distinct_def)
  with val [of ps] val [of qs] s eq show "ps = qs"
    by (cases "prefix dst ps"; cases "prefix dst qs") (auto simp: g_def prefix_def)
qed

lemma ids_distinct_cong: "file_id m' = file_id m \<Longrightarrow> ids_distinct m \<Longrightarrow> ids_distinct m'"
  by (simp add: ids_distinct_def)

definition used_ids :: "namespace \<Rightarrow> string set" where
  "used_ids m = {f. \<exists>ps. file_id m ps = Some f}"

lemma used_ids_cong: "file_id m' = file_id m \<Longrightarrow> used_ids m' = used_ids m"
  by (simp add: used_ids_def)

text \<open>The identity a log entry brings into the tree.\<close>

definition created_ids :: "time \<times> log_entry \<Rightarrow> string list" where
  "created_ids c = (case c of (now, op, data) \<Rightarrow>
     (case Unmarshal_payload data of None \<Rightarrow> []
      | Some p \<Rightarrow> if op = OpCreateFile then [p_FileID p] else []))"

definition keeps_ids :: "string set \<Rightarrow> namespace \<Rightarrow> namespace \<Rightarrow> bool" where
  "keeps_ids new m m' \<longleftrightarrow>
     (ids_distinct m \<longrightarrow> new \<inter> used_ids m = {} \<longrightarrow> ids_distinct m' \<and> used_ids m' \<subseteq> used_ids m \<union> new)"

lemma keeps_ids_same: "file_id m' = file_id m \<Longrightarrow> keeps_ids new m m'"
  by (auto simp: keeps_ids_def used_ids_def intro: ids_distinct_cong)

lemma keeps_ids_cong: "file_id m' = file_id m'' \<Longrightarrow> keeps_ids new m m'' \<Longrightarrow> keeps_ids new m m'"
  using used_ids_cong [of m' m''] ids_distinct_cong [of m' m''] by (auto simp: keeps_ids_def)

lemma keeps_ids_new:
  assumes "m ps = None"
  shows "keeps_ids {f} m (m(ps \<mapsto> file_entry n s t u f r))"
proof -
  have "file_id m ps = None" using assms by (simp add: file_id_def)
  moreover have "file_id (m(ps \<mapsto> file_entry n s t u f r)) = (file_id m)(ps \<mapsto> f)"
    by (simp add: file_id_upd file_entry_def)
  ultimately show ?thesis
    by (auto simp: keeps_ids_def ids_distinct_def used_ids_def split: if_splits)
qed

lemma file_id_overwrite:
  assumes "m ps = Some e" "\<not> isDir e"
  shows "file_id (m(ps \<mapsto> file_entry n s t u (fileID e) r)) = file_id m"
  using assms by (intro ext) (simp add: file_id_def file_entry_def)

lemma keeps_ids_create: "keeps_ids {p_FileID p} m (fst (spec_create now p m))"
proof (cases "m (splitPath (p_Path p))")
  case None
  then show ?thesis
    by (auto simp: spec_create_def Let_def keeps_ids_same
        intro!: keeps_ids_cong [OF file_id_touch] keeps_ids_new)
next
  case (Some e)
  then show ?thesis
    by (auto simp: spec_create_def Let_def keeps_ids_same file_id_overwrite)
qed

lemma keeps_ids_rename: "keeps_ids new m (fst (spec_rename now p m))"
proof -
  have "used_ids (moved src dst m) \<subseteq> used_ids m" for src dst
    by (auto simp: used_ids_def file_id_moved split: if_splits)
  then have "keeps_ids new m (moved src dst m)" for src dst
    using ids_distinct_moved by (auto simp: keeps_ids_def)
  then have "keeps_ids new m (touch now a (touch now b (touch now c (moved src dst m))))" for a b c src dst
    by (rule keeps_ids_cong [rotated]) simp
  then show ?thesis
    by (auto simp: spec_rename_def Let_def keeps_ids_same)
qed

lemma keeps_ids_delete: "keeps_ids new m (fst (spec_delete now p m))"
  by (auto simp: spec_delete_def Let_def keeps_ids_def file_id_prune ids_distinct_def used_ids_def
      split: if_splits)

lemma keeps_ids_apply:
  "keeps_ids (if op = OpCreateFile then {p_FileID p} else {}) (fs_ns st) (fs_ns (fst (spec_apply now op p st)))"
proof -
  have on: "fs_ns (fst (on_ns f st)) = fst (f (fs_ns st))" for f
    by (simp add: on_ns_def split: prod.splits)
  have "file_id (fst (spec_mkdir now p m)) = file_id m" for m
    by (simp add: spec_mkdir_def file_id_mkdir_loop)
  moreover have "file_id (fst (spec_complete now p m)) = file_id m" for m
    by (auto simp: spec_complete_def Let_def file_id_upd file_id_def fun_eq_iff split: option.split)
  moreover have "file_id (fst (spec_update_size now p m)) = file_id m" for m
    by (auto simp: spec_update_size_def Let_def file_id_upd file_id_def fun_eq_iff split: option.split)
  ultimately show ?thesis
    using keeps_ids_create keeps_ids_rename keeps_ids_delete
    by (auto simp: spec_apply_def on keeps_ids_same op_defs)
qed

lemma keeps_ids_at: "mds_inv mds \<Longrightarrow>
  keeps_ids (set (created_ids c)) (mds_view mds) (mds_view (fst (apply_at c mds)))"
proof -
  assume "mds_inv mds"
  from apply_at_refines [OF this surjective_pairing, of c]
  have "mds_view (fst (apply_at c mds)) = fs_ns (fst (spec_at c (abs_state mds)))"
    by (metis abs_state_def fs_state.select_convs(1) fst_conv)
  moreover have "keeps_ids (set (created_ids c)) (fs_ns st) (fs_ns (fst (spec_at c st)))" for st
  proof -
    have "set (if b then [x] else []) = (if b then {x} else {})" for b and x :: string by simp
    then show ?thesis
      using keeps_ids_apply
      by (cases c) (simp add: spec_at_def created_ids_def keeps_ids_same split: option.split)
  qed
  moreover have "fs_ns (abs_state mds) = mds_view mds" by (simp add: abs_state_def)
  ultimately show ?thesis by metis
qed

lemma run_log_ids:
  "mds_inv mds \<Longrightarrow> ids_distinct (mds_view mds) \<Longrightarrow>
   distinct (concat (map created_ids cs)) \<Longrightarrow> set (concat (map created_ids cs)) \<inter> used_ids (mds_view mds) = {} \<Longrightarrow>
   ids_distinct (mds_view (run_log apply_at cs mds))"
proof (induction cs arbitrary: mds)
  case (Cons c cs)
  have inv: "mds_inv (fst (apply_at c mds))"
    using apply_at_refines [OF Cons.prems(1) surjective_pairing] by blast
  have "ids_distinct (mds_view (fst (apply_at c mds)))"
    "used_ids (mds_view (fst (apply_at c mds))) \<subseteq> used_ids (mds_view mds) \<union> set (created_ids c)"
    using keeps_ids_at [OF Cons.prems(1), of c] Cons.prems by (auto simp: keeps_ids_def)
  then show ?case
    using Cons.IH [OF inv] Cons.prems by auto
qed simp

lemma untimed_New: "untimed (abs_state (NewMetadataServer a b)) = untimed (abs_state (NewMetadataServer c d))"
  by (simp add: untimed_def abs_state_def view_New New_registry untimed_upd)

lemma ids_distinct_init: "ids_distinct (mds_view (NewMetadataServer t1 t2))"
  "used_ids (mds_view (NewMetadataServer t1 t2)) = {}"
proof -
  have "file_id (mds_view (NewMetadataServer t1 t2)) = (\<lambda>ps. None)"
    by (intro ext) (simp add: file_id_def view_New)
  then show "ids_distinct (mds_view (NewMetadataServer t1 t2))"
    "used_ids (mds_view (NewMetadataServer t1 t2)) = {}"
    by (simp_all add: ids_distinct_def used_ids_def)
qed

subsection \<open>The times of a log\<close>

lemma times_ok_upd: "times_ok zone m \<Longrightarrow> wire_time zone (createdAt e) \<Longrightarrow> wire_time zone (modTime e) \<Longrightarrow> times_ok zone (m(ps \<mapsto> e))"
  by (simp add: times_ok_def)

lemma times_ok_touch: "times_ok zone m \<Longrightarrow> wire_time zone now \<Longrightarrow> times_ok zone (touch now ps m)"
  by (auto simp: times_ok_def touch_def on_path_def split: if_splits)

lemma entry_times [simp]:
  "createdAt (dir_entry n t u) = t" "modTime (dir_entry n t u) = u"
  "createdAt (file_entry n sz t u f r) = t" "modTime (file_entry n sz t u f r) = u"
  by (simp_all add: dir_entry_def file_entry_def)

lemma mkdir_loop_times:
  "times_ok zone m \<Longrightarrow> wire_time zone now \<Longrightarrow> times_ok zone (fst (spec_mkdir_loop path now i at parts m))"
  by (induction path now i at parts m rule: spec_mkdir_loop.induct)
     (simp_all add: times_ok_touch times_ok_upd split: option.split)

lemma times_ok_moved: "times_ok zone m \<Longrightarrow> times_ok zone (moved src dst m)"
  by (auto simp: times_ok_def moved_def graft_def prune_def on_path_def split: if_splits)

lemma spec_apply_times:
  assumes st: "fs_times zone st" and now: "wire_time zone now"
  shows "fs_times zone (fst (spec_apply now op p st))"
proof -
  have ns: "times_ok zone (fs_ns st)" and beats: "\<And>a t. fs_beats st a = Some t \<Longrightarrow> wire_time zone t"
    using st by (simp_all add: fs_times_def)
  have on: "times_ok zone (fst (f (fs_ns st))) \<Longrightarrow> fs_times zone (fst (on_ns f st))" for f
    using beats by (cases "f (fs_ns st)") (simp add: on_ns_def fs_times_def)
  have e: "fs_ns st ps = Some e \<Longrightarrow> wire_time zone (createdAt e) \<and> wire_time zone (modTime e)" for ps e
    using ns unfolding times_ok_def by blast
  have "times_ok zone (fst (spec_mkdir now p (fs_ns st)))"
    using mkdir_loop_times [OF ns now] by (simp add: spec_mkdir_def)
  moreover have "times_ok zone (fst (spec_create now p (fs_ns st)))"
    using ns now e by (auto simp: spec_create_def Let_def intro!: times_ok_touch times_ok_upd split: option.split)
  moreover have "times_ok zone (fst (spec_complete now p (fs_ns st)))"
    using ns now e by (auto simp: spec_complete_def Let_def intro!: times_ok_upd split: option.split)
  moreover have "times_ok zone (prune (splitPath (p_Path p)) (fs_ns st))"
    using ns by (simp add: times_ok_def prune_def)
  then have "times_ok zone (fst (spec_delete now p (fs_ns st)))"
    using ns now by (auto simp: spec_delete_def Let_def intro!: times_ok_touch)
  moreover have "times_ok zone (fst (spec_rename now p (fs_ns st)))"
    using ns now by (auto simp: spec_rename_def Let_def intro!: times_ok_touch times_ok_moved)
  moreover have "times_ok zone (fst (spec_update_size now p (fs_ns st)))"
    using ns now e by (auto simp: spec_update_size_def Let_def intro!: times_ok_upd split: option.split)
  moreover have "fs_times zone (st\<lparr>fs_nodes := ns, fs_beats := (fs_beats st)(a \<mapsto> now)\<rparr>)"
    "fs_times zone (st\<lparr>fs_nodes := ns, fs_beats := (fs_beats st)(a := None)\<rparr>)" for ns a
    using ns beats now by (simp_all add: fs_times_def)
  ultimately show ?thesis
    using st by (simp add: spec_apply_def on)
qed

lemma run_log_times:
  assumes "mds_inv mds" "fs_times zone (abs_state mds)" "\<forall>(now, c) \<in> set cs. wire_time zone now"
  shows "fs_times zone (abs_state (run_log apply_at cs mds))"
  using assms
proof (induction cs arbitrary: mds)
  case (Cons c cs)
  obtain now op data where c: "c = (now, op, data)" by (cases c)
  obtain mds' err where run: "apply_at c mds = (mds', err)" by fastforce
  from apply_at_refines [OF Cons.prems(1) run]
  have r: "mds_inv mds'" "abs_state mds' = fst (spec_at c (abs_state mds))" by (simp, metis fst_conv)
  have "fs_times zone (abs_state mds')"
    using Cons.prems(2,3) spec_apply_times by (auto simp: r(2) spec_at_def c split: option.split)
  then show ?case using Cons.IH [OF r(1)] Cons.prems(3) run by simp
qed simp

lemma New_times: "wire_time zone a \<Longrightarrow> wire_time zone b \<Longrightarrow> fs_times zone (abs_state (NewMetadataServer a b))"
  by (simp add: fs_times_def abs_state_def view_New New_registry times_ok_def)

text \<open>A tree is no deeper than it has nodes.\<close>

lemma depth_ok_heap:
  assumes "mds_ok mds" "next_ptr (mds_heap mds) \<le> Suc n"
  shows "depth_ok n (mds_view mds)"
  unfolding depth_ok_def
proof (intro allI impI)
  fix ps assume "mds_view mds ps \<noteq> None"
  then obtain p where "walk (mds_heap mds) (mds_root mds) ps = Some p"
    unfolding view_def by (cases "walk (mds_heap mds) (mds_root mds) ps") simp_all
  from walk_length_bound [OF assms(1) this] assms(2) show "length ps \<le> n" by simp
qed

end
