(* ===== verification/Meta_Server.thy ===== *)
theory Meta_Server
  imports Reachable_States Go_Paths
    "HOL-Library.List_Lexorder" "HOL-Library.Char_ord" "HOL-Library.Signed_Division"
begin

section \<open>The RPC handlers of the metadata server\<close>

text \<open>
  The methods of \<open>MetadataServer\<close> in \<open>internal/metadata/mds.go\<close> that clients and data nodes
  call. goraft is outside the repository: \<open>raft_node\<close> holds what the handlers use of it, and
  \<open>rf_Do\<close>, the submission of a command, is an arbitrary function on the state, because the
  library applies commands through \<open>Apply\<close> while the handler waits, its own command among
  others. Nothing is assumed of it in the definitions. The contract that the code states for it
  (\<open>submitCommand\<close>: on return the command is replicated and applied) is \<open>raft_contract\<close>.
\<close>

record raft_node =
  rf_IsLeader :: bool
  rf_GetLeader :: string
  rf_Do :: "string \<Rightarrow> json \<Rightarrow> MetadataServer \<Rightarrow> MetadataServer \<times> string option"

subsection \<open>Write operations\<close>

definition checkLeader :: "raft_node \<Rightarrow> fs_error option" where
  "checkLeader rf = (if \<not> rf_IsLeader rf then Some (ErrNotLeader (rf_GetLeader rf)) else None)"

definition submitCommand :: "raft_node \<Rightarrow> commandPayload \<Rightarrow> MetadataServer \<Rightarrow> result" where
  "submitCommand rf payload mds =
     (let (mds, err) = rf_Do rf (p_Op payload) (Marshal_payload payload) mds
      in (mds, map_option ErrRaftDo err))"

text \<open>The tail of every write handler: submit, return the error, or fill in the reply.\<close>

definition submit_reply :: "raft_node \<Rightarrow> commandPayload \<Rightarrow> 'a \<Rightarrow> MetadataServer \<Rightarrow> MetadataServer \<times> 'a reply" where
  "submit_reply rf payload reply mds =
     (case submitCommand rf payload mds of
        (mds, Some e) \<Rightarrow> (mds, Inl e)
      | (mds, None) \<Rightarrow> (mds, Inr reply))"

definition Heartbeat :: "raft_node \<Rightarrow> string \<Rightarrow> MetadataServer \<Rightarrow> MetadataServer \<times> HeartbeatReply reply" where
  "Heartbeat rf addr mds =
     (case checkLeader rf of
        Some e \<Rightarrow> (mds, Inl e)
      | None \<Rightarrow> submit_reply rf (empty_payload\<lparr>p_Op := OpHeartbeat, p_Addr := addr\<rparr>)
                  \<lparr>IsLeader = True, Leader = ''''\<rparr> mds)"

definition Mkdir :: "raft_node \<Rightarrow> string \<Rightarrow> MetadataServer \<Rightarrow> MetadataServer \<times> bool reply" where
  "Mkdir rf path mds =
     (case checkLeader rf of
        Some e \<Rightarrow> (mds, Inl e)
      | None \<Rightarrow> submit_reply rf (empty_payload\<lparr>p_Op := OpMkdir, p_Path := path\<rparr>) True mds)"

text \<open>The 16 bytes that \<open>rand.Read\<close> fills in, or its error.\<close>

definition generateFileID :: "string + byte list \<Rightarrow> string + string" where
  "generateFileID rnd =
     (case rnd of
        Inl e \<Rightarrow> Inl (''generate file id failed: '' @ e)
      | Inr buf \<Rightarrow> Inr (EncodeToString buf))"

text \<open>The hash runs in Go's 64-bit \<open>int\<close> and wraps; \<open>%\<close> keeps the sign of the dividend.\<close>

definition path_hash :: "string \<Rightarrow> int64" where
  "path_hash path = fold (\<lambda>c hash. hash * 31 + word_of_int c) (runes path) 0"

definition start_index :: "string \<Rightarrow> nat \<Rightarrow> nat" where
  "start_index path n =
     (let startIdx = sint (path_hash path) smod int n
      in nat (if startIdx < 0 then - startIdx else startIdx))"

fun select_loop :: "string list \<Rightarrow> nat \<Rightarrow> string \<Rightarrow> nat \<Rightarrow> nat \<Rightarrow> string list \<Rightarrow> Replica list" where
  "select_loop nodes startIdx remotePath i 0 seen = []"
| "select_loop nodes startIdx remotePath i (Suc k) seen =
     (let addr = nodes ! ((startIdx + i) mod length nodes) in
      if List.member seen addr then select_loop nodes startIdx remotePath (Suc i) k seen
      else \<lparr>Addr = addr, RemotePath = remotePath\<rparr>
           # select_loop nodes startIdx remotePath (Suc i) k (addr # seen))"

text \<open>\<open>None\<close> is the division by zero when no data node is registered.\<close>

definition selectDataNodes :: "string \<Rightarrow> string \<Rightarrow> int \<Rightarrow> MetadataServer \<Rightarrow> Replica list option" where
  "selectDataNodes path fid count mds =
     (let len = length (dataNodes mds);
          n = (if count > int len then int len else count);
          n = (if n < 1 then 1 else n)
      in if len = 0 then None
         else Some (select_loop (dataNodes mds) (start_index path len) (''/data/'' @ fid) 0 (nat n) []))"

definition CreateFile ::
  "raft_node \<Rightarrow> string + byte list \<Rightarrow> CreateFileArgs \<Rightarrow> MetadataServer \<Rightarrow> MetadataServer \<times> CreateFileReply reply" where
  "CreateFile rf rnd args mds =
     (case checkLeader rf of
        Some e \<Rightarrow> (mds, Inl e)
      | None \<Rightarrow>
     (case generateFileID rnd of
        Inl e \<Rightarrow> (mds, Inl (ErrGenerateFileID e))
      | Inr fid \<Rightarrow>
          if dataNodes mds = [] then (mds, Inl ErrNoDataNodes)
          else
            (let parts = splitPath (cf_Path args) in
             if parts = [] then (mds, Inl (ErrInvalidPath (cf_Path args)))
             else case find_dir (mds_heap mds) (mds_root mds) (butlast parts) of
                    None \<Rightarrow> (mds, Inl (ErrParentNotFound (cf_Path args)))
                  | Some current \<Rightarrow>
                 (case selectDataNodes (cf_Path args) fid (replicaCount mds) mds of
                    None \<Rightarrow> (mds, Inl ErrNoDataNodes)
                  | Some reps \<Rightarrow>
                      submit_reply rf
                        (empty_payload\<lparr>p_Op := OpCreateFile, p_Path := cf_Path args, p_Size := cf_Size args,
                           p_Replicas := reps, p_CreateMode := cf_CreateMode args, p_FileID := fid\<rparr>)
                        \<lparr>cr_Replicas = reps\<rparr> mds))))"

definition CompleteFile :: "raft_node \<Rightarrow> string \<Rightarrow> MetadataServer \<Rightarrow> MetadataServer \<times> bool reply" where
  "CompleteFile rf path mds =
     (case checkLeader rf of
        Some e \<Rightarrow> (mds, Inl e)
      | None \<Rightarrow> submit_reply rf (empty_payload\<lparr>p_Op := OpCompleteFile, p_Path := path\<rparr>) True mds)"

definition lookup_entry :: "MetadataServer \<Rightarrow> string \<Rightarrow> entry option" where
  "lookup_entry mds path = (case lookup mds path of None \<Rightarrow> None | Some q \<Rightarrow> store (mds_heap mds) q)"

definition Delete :: "raft_node \<Rightarrow> string \<Rightarrow> MetadataServer \<Rightarrow> MetadataServer \<times> DeleteReply reply" where
  "Delete rf path mds =
     (case checkLeader rf of
        Some e \<Rightarrow> (mds, Inl e)
      | None \<Rightarrow>
     (case lookup_entry mds path of
        None \<Rightarrow> (mds, Inl (ErrPathNotFound path))
      | Some target \<Rightarrow>
          submit_reply rf
            (empty_payload\<lparr>p_Op := OpDelete, p_Path := path, p_IsDir := isDir target, p_Replicas := replicas target\<rparr>)
            \<lparr>dr_Replicas = replicas target, dr_IsDir = isDir target\<rparr> mds))"

definition Rename :: "raft_node \<Rightarrow> RenameArgs \<Rightarrow> MetadataServer \<Rightarrow> MetadataServer \<times> bool reply" where
  "Rename rf args mds =
     (case checkLeader rf of
        Some e \<Rightarrow> (mds, Inl e)
      | None \<Rightarrow>
          if SrcPath args = '''' \<or> DstPath args = '''' then (mds, Inl ErrEmptyRenamePath)
          else if SrcPath args = ''/'' \<or> DstPath args = ''/'' then (mds, Inl ErrRenameRoot)
          else if SrcPath args = DstPath args then (mds, Inr True)
          else submit_reply rf
                 (empty_payload\<lparr>p_Op := OpRename, p_Path := SrcPath args, p_DstPath := DstPath args\<rparr>) True mds)"

definition UpdateSize :: "raft_node \<Rightarrow> UpdateSizeArgs \<Rightarrow> MetadataServer \<Rightarrow> MetadataServer \<times> bool reply" where
  "UpdateSize rf args mds =
     (case checkLeader rf of
        Some e \<Rightarrow> (mds, Inl e)
      | None \<Rightarrow>
          if us_Path args = '''' then (mds, Inl ErrEmptyPath)
          else if sint (us_Size args) < 0 then (mds, Inl ErrNegativeSize)
          else submit_reply rf
                 (empty_payload\<lparr>p_Op := OpUpdateSize, p_Path := us_Path args, p_NewSize := us_Size args\<rparr>) True mds)"

subsection \<open>Read operations\<close>

definition GetFileLocation :: "MetadataServer \<Rightarrow> string \<Rightarrow> FileLocation reply" where
  "GetFileLocation mds path =
     (case lookup_entry mds path of
        None \<Rightarrow> Inl (ErrFileNotFound path)
      | Some e \<Rightarrow>
          if isDir e then Inl (ErrIsDirectory path)
          else Inr \<lparr>fl_FileID = fileID e, fl_Replicas = replicas e, fl_Status = entry_status e\<rparr>)"

text \<open>
  The order of a listing, directories first and then by name, as an instance of the library's
  \<open>linorder\<close>: \<open>less\<close> is the comparison the code gives to \<open>sort.Slice\<close>. The names of a
  directory are distinct, so that sort has one possible result.
\<close>

datatype dir_key = DirKey (key_dir: bool) (key_name: string)

instantiation dir_key :: linorder
begin

definition less_dir_key :: "dir_key \<Rightarrow> dir_key \<Rightarrow> bool" where
  "less_dir_key a b =
     (if key_dir a \<noteq> key_dir b then key_dir a else key_name a < key_name b)"

definition less_eq_dir_key :: "dir_key \<Rightarrow> dir_key \<Rightarrow> bool" where
  "less_eq_dir_key a b = (a = b \<or> a < b)"

instance
  by standard (auto simp: less_dir_key_def less_eq_dir_key_def dir_key.expand split: if_splits)

end

definition info_key :: "FileInfo \<Rightarrow> dir_key" where
  "info_key i = DirKey (fi_IsDir i) (fi_Name i)"

definition list_info :: "string \<Rightarrow> string \<Rightarrow> entry \<Rightarrow> FileInfo" where
  "list_info path name c =
     \<lparr>fi_Name = name, fi_Path = Join path name, fi_IsDir = isDir c, fi_Size = entry_size c,
      fi_Mode = entry_mode c, fi_CreatedAt = createdAt c, fi_ModTime = modTime c, fi_FileID = fileID c\<rparr>"

definition ListDir :: "MetadataServer \<Rightarrow> string \<Rightarrow> FileInfo list reply" where
  "ListDir mds path =
     (case lookup_entry mds path of
        None \<Rightarrow> Inl (ErrDirNotFound path)
      | Some e \<Rightarrow>
          if \<not> isDir e then Inl (ErrNotDirectory path)
          else Inr (sort_key info_key
                 (List.map_filter (\<lambda>(name, c). map_option (list_info path name) (store (mds_heap mds) c))
                    (children e))))"

definition Stat :: "MetadataServer \<Rightarrow> string \<Rightarrow> FileInfo reply" where
  "Stat mds path =
     (case lookup_entry mds path of
        None \<Rightarrow> Inl (ErrPathNotFound path)
      | Some e \<Rightarrow>
          Inr \<lparr>fi_Name = entry_name e, fi_Path = path, fi_IsDir = isDir e, fi_Size = entry_size e,
            fi_Mode = entry_mode e, fi_CreatedAt = createdAt e, fi_ModTime = modTime e, fi_FileID = fileID e\<rparr>)"

definition ListDataNodes :: "MetadataServer \<Rightarrow> string list" where
  "ListDataNodes mds = dataNodes mds"

subsection \<open>The contract of Raft\<close>

text \<open>
  What the comments of \<open>submitCommand\<close> promise of \<open>Do\<close>. A nil result means that the command was
  applied, possibly between commands of other clients, and that \<open>Apply\<close> returned nil for it. An
  error leaves it open which commands were applied meanwhile. \<open>local_do\<close> is the smallest such
  library: a cluster of one node that applies at once.
\<close>

locale raft_client =
  fixes Do :: "string \<Rightarrow> json \<Rightarrow> MetadataServer \<Rightarrow> MetadataServer \<times> string option"
  assumes nil_applied: "Do op data mds = (mds', None) \<Longrightarrow>
      \<exists>before now after mds1. apply_at (now, op, Some data) (run_log apply_at before mds) = (mds1, None)
        \<and> mds' = run_log apply_at after mds1"
    and err_log: "Do op data mds = (mds', Some e) \<Longrightarrow> \<exists>log. mds' = run_log apply_at log mds"
begin

lemma do_log: "\<exists>log. fst (Do op data mds) = run_log apply_at log mds"
proof (cases "Do op data mds")
  case (Pair mds' r)
  show ?thesis
  proof (cases r)
    case None
    with Pair nil_applied obtain before now after mds1
      where "apply_at (now, op, Some data) (run_log apply_at before mds) = (mds1, None)"
        "mds' = run_log apply_at after mds1" by blast
    then have "mds' = run_log apply_at (before @ [(now, op, Some data)] @ after) mds"
      by (simp add: run_log_append)
    with Pair show ?thesis by auto
  qed (use Pair err_log in auto)
qed

lemma do_keeps:
  assumes "\<And>c mds. P mds \<Longrightarrow> P (fst (apply_at c mds))" and "P mds"
  shows "P (fst (Do op data mds))"
proof -
  have "P mds \<Longrightarrow> P (run_log apply_at log mds)" for log mds
    using assms(1) by (induction log arbitrary: mds) auto
  then show ?thesis using do_log [of op data mds] assms(2) by auto
qed

end

definition local_do :: "time \<Rightarrow> string \<Rightarrow> json \<Rightarrow> MetadataServer \<Rightarrow> MetadataServer \<times> string option" where
  "local_do now op data mds = (let (mds, err) = Apply now op (Some data) mds in (mds, map_option error_text err))"

interpretation local_raft: raft_client "local_do now"
proof
  fix op data mds mds'
  assume "local_do now op data mds = (mds', None)"
  then have "apply_at (now, op, Some data) (run_log apply_at [] mds) = (mds', None)"
    by (auto simp: local_do_def apply_at_def split: prod.splits)
  then show "\<exists>before now after mds1. apply_at (now, op, Some data) (run_log apply_at before mds) = (mds1, None)
      \<and> mds' = run_log apply_at after mds1"
    by (intro exI [of _ "[]"] exI conjI) (assumption, simp)
next
  fix op data mds mds' e
  assume "local_do now op data mds = (mds', Some e)"
  then have "mds' = run_log apply_at [(now, op, Some data)] mds"
    by (auto simp: local_do_def apply_at_def split: prod.splits)
  then show "\<exists>log. mds' = run_log apply_at log mds" by blast
qed

definition raft_contract :: "raft_node \<Rightarrow> bool" where
  "raft_contract rf \<longleftrightarrow> raft_client (rf_Do rf)"

definition local_node :: "time \<Rightarrow> raft_node" where
  "local_node now = \<lparr>rf_IsLeader = True, rf_GetLeader = ''m1'', rf_Do = local_do now\<rparr>"

lemma local_node_contract: "raft_contract (local_node now)"
  using local_raft.raft_client_axioms by (simp add: raft_contract_def local_node_def)

lemma submit_reply_state: "fst (submit_reply rf p r mds) = fst (rf_Do rf (p_Op p) (Marshal_payload p) mds)"
  by (simp add: submit_reply_def submitCommand_def split: prod.splits option.splits)

lemma submit_reply_do: "submit_reply rf p r mds = (mds', Inr r') \<Longrightarrow> rf_Do rf (p_Op p) (Marshal_payload p) mds = (mds', None)"
  by (auto simp: submit_reply_def submitCommand_def split: prod.splits option.splits)

lemma submit_reply_ok:
  assumes "raft_contract rf" "submit_reply rf p r mds = (mds', Inr r')"
  shows "r' = r \<and> (\<exists>before now after mds1.
     apply_at (now, p_Op p, Some (Marshal_payload p)) (run_log apply_at before mds) = (mds1, None) \<and>
     mds' = run_log apply_at after mds1)"
proof -
  from assms(2) have "r' = r" "rf_Do rf (p_Op p) (Marshal_payload p) mds = (mds', None)"
    by (auto simp: submit_reply_def submitCommand_def split: prod.splits option.splits)
  then show ?thesis
    using raft_client.nil_applied assms(1) by (auto simp: raft_contract_def)
qed

lemma run_log_inv: "mds_inv mds \<Longrightarrow> mds_inv (run_log apply_at cs mds)"
  by (rule timed.run_inv)

lemma apply_at_reachable: "reachable mds \<Longrightarrow> reachable (fst (apply_at c mds))"
  by (cases c) (auto simp: apply_at_def intro: reachable.command [OF _ surjective_pairing])

lemma submit_reply_reachable:
  assumes "raft_contract rf" "reachable mds"
  shows "reachable (fst (submit_reply rf p r mds))"
  unfolding submit_reply_state
  using raft_client.do_keeps [of "rf_Do rf" reachable mds] assms apply_at_reachable
  by (simp add: raft_contract_def)

subsection \<open>Replica selection\<close>

lemma select_loop_paths: "r \<in> set (select_loop nodes s rp i k seen) \<Longrightarrow> RemotePath r = rp"
  by (induction nodes s rp i k seen rule: select_loop.induct) (auto simp: Let_def split: if_splits)

text \<open>While the loop does not go round, it visits distinct positions, so it skips nothing.\<close>

lemma select_loop_distinct:
  assumes "distinct nodes" "i + k \<le> length nodes" "k = 0 \<or> nodes \<noteq> []"
    and "\<And>a. a \<in> set seen \<Longrightarrow> \<exists>j<i. a = nodes ! ((s + j) mod length nodes)"
  shows "map Addr (select_loop nodes s rp i k seen) = map (\<lambda>j. nodes ! ((s + j) mod length nodes)) [i..<i + k]"
  using assms(2-)
proof (induction k arbitrary: i seen)
  case (Suc k)
  let ?n = "length nodes"
  let ?at = "\<lambda>j. nodes ! ((s + j) mod ?n)"
  have pos: "0 < ?n" using Suc.prems(2) by auto
  have "\<not> List.member seen (?at i)"
  proof
    assume "List.member seen (?at i)"
    then obtain j where j: "j < i" "?at i = ?at j" using Suc.prems(3) by auto
    then have "(s + i) mod ?n = (s + j) mod ?n"
      using assms(1) pos by (simp add: nth_eq_iff_index_eq)
    then show False using mod_add_inj [of i ?n j s] j Suc.prems(1) by simp
  qed
  moreover have "map Addr (select_loop nodes s rp (Suc i) k (?at i # seen)) = map ?at [Suc i..<Suc i + k]"
    using Suc.prems by (intro Suc.IH) (auto intro: less_SucI)
  ultimately show ?case by (simp add: Let_def upt_rec)
qed simp

end
