(* ===== verification/State_Properties.thy ===== *)
theory State_Properties
  imports Reachable_States
begin

section \<open>Properties of the replicated state machine\<close>

text \<open>
  The promises of \<open>internal/metadata/apply.go\<close> and \<open>state_machine.go\<close>, each with an
  application to a small concrete tree: a directory \<open>/d\<close> with a file \<open>/d/f\<close> in it.
\<close>

definition sample_root :: MetadataServer where
  "sample_root = NewMetadataServer 0 0"

definition mkdir_d :: commandPayload where
  "mkdir_d = empty_payload\<lparr>p_Op := OpMkdir, p_Path := ''/d''\<rparr>"

definition create_f :: commandPayload where
  "create_f = empty_payload\<lparr>p_Op := OpCreateFile, p_Path := ''/d/f'', p_Size := 5,
     p_Replicas := [\<lparr>Addr = ''n1'', RemotePath = ''/data/i1''\<rparr>], p_FileID := ''i1''\<rparr>"

definition sample_dir :: MetadataServer where
  "sample_dir = fst (applyMkdir 1 mkdir_d sample_root)"

definition sample_tree :: MetadataServer where
  "sample_tree = fst (applyCreateFile 2 create_f sample_dir)"

lemma sample_root_inv: "mds_inv sample_root"
  by (simp add: sample_root_def NewMetadataServer_inv)

lemma sample_dir_apply: "sample_dir = fst (apply_payload 1 OpMkdir mkdir_d sample_root)"
  by (simp add: sample_dir_def apply_payload_def op_defs)

lemma sample_tree_apply: "sample_tree = fst (apply_payload 2 OpCreateFile create_f sample_dir)"
  by (simp add: sample_tree_def apply_payload_def op_defs)

lemma apply_payload_inv: "mds_inv mds \<Longrightarrow> mds_inv (fst (apply_payload now op p mds))"
  using apply_payload_refines [OF _ surjective_pairing] by blast

lemma sample_dir_inv: "mds_inv sample_dir"
  by (simp add: sample_dir_apply apply_payload_inv sample_root_inv)

lemma sample_tree_inv: "mds_inv sample_tree"
  by (simp add: sample_tree_apply apply_payload_inv sample_dir_inv)

lemma sample_views:
  "mds_view sample_tree [''d''] = Some (dir_entry ''d'' 1 2)"
  "mds_view sample_tree [''d'', ''f''] =
     Some (file_entry ''f'' 5 2 2 ''i1'' [\<lparr>Addr = ''n1'', RemotePath = ''/data/i1''\<rparr>])"
  "mds_view sample_tree [''e''] = None"
  by code_simp+

lemma reachable_payload:
  assumes "reachable mds" "payload_utf8 p"
  shows "reachable (fst (apply_payload now op p mds))"
proof -
  have "Apply now op (Some (Marshal_payload p)) mds = apply_payload now op p mds"
    by (simp add: Apply_def Unmarshal_Marshal wire_payload_utf8 [OF assms(2)])
  then show ?thesis using reachable.command [OF assms(1)] surjective_pairing by metis
qed

lemma sample_tree_reachable: "reachable sample_tree"
proof -
  have u: "payload_utf8 mkdir_d" "payload_utf8 create_f" by code_simp+
  then show ?thesis
    unfolding sample_tree_apply sample_dir_apply sample_root_def
    by (intro reachable_payload reachable.init)
qed

lemma sample_tree_walk: "walk (mds_heap sample_tree) (mds_root sample_tree) [''d'', ''f''] = Some 2"
  by code_simp

lemma run_eq: "snd r = e \<Longrightarrow> r = (fst r, e)"
  by auto

subsection \<open>Refinement and replication\<close>

text \<open>C1. \<open>Apply\<close> implements the pointer-free specification \<open>spec_at\<close>: on every well-formed
  state and for every log entry, malformed ones included, the new namespace, node registry and
  heartbeat times and the returned error are exactly those of the specification, and the state
  stays well formed.\<close>

theorem Apply_implements_spec:
  assumes "mds_inv mds" "Apply now op data mds = (mds', err)"
  shows "mds_inv mds' \<and> (abs_state mds', err) = spec_at (now, op, data) (abs_state mds)"
  using apply_at_refines [OF assms(1), of "(now, op, data)"] assms(2) by (simp add: apply_at_def)

theorem Apply_implements_spec_witness:
  "mds_inv (fst (Apply 3 OpDelete (Some (Marshal_payload create_f)) sample_tree)) \<and>
   (abs_state (fst (Apply 3 OpDelete (Some (Marshal_payload create_f)) sample_tree)),
    snd (Apply 3 OpDelete (Some (Marshal_payload create_f)) sample_tree)) =
   spec_at (3, OpDelete, Some (Marshal_payload create_f)) (abs_state sample_tree)"
  by (rule Apply_implements_spec [OF sample_tree_inv surjective_pairing])

text \<open>C4. A command that returns an error has changed nothing, not even a node that is no longer
  reachable: the heap, the registry and the heartbeats are the same objects with the same
  contents. \<open>applyMkdir\<close>, which creates directories as it walks, fails only before the first
  one it creates.\<close>

theorem failed_command_changes_nothing:
  assumes "mds_inv mds" "Apply now op data mds = (mds', Some err)"
  shows "mds' = mds"
  using apply_payload_error [OF assms(1)] assms(2) by (auto simp: Apply_def split: option.splits)

definition mkdir_below_f :: commandPayload where
  "mkdir_below_f = empty_payload\<lparr>p_Op := OpMkdir, p_Path := ''/d/f/g''\<rparr>"

lemma mkdir_below_f_fails:
  "snd (Apply 3 OpMkdir (Some (Marshal_payload mkdir_below_f)) sample_tree) =
     Some (ErrNotADirectory ''/d/f/g'' 1 ''f'')"
  by code_simp

theorem failed_command_changes_nothing_witness:
  "fst (Apply 3 OpMkdir (Some (Marshal_payload mkdir_below_f)) sample_tree) = sample_tree"
  by (rule failed_command_changes_nothing [OF sample_tree_inv run_eq [OF mkdir_below_f_fails]])

text \<open>C24. Replicas that apply the same log agree, whatever their clocks read: their states are
  equal but for time stamps, and every later command gives the same error on both.\<close>

theorem replicas_agree_on_same_log:
  assumes "map snd cs = map snd ds"
  shows "untimed (abs_state (run_log apply_at cs (NewMetadataServer a b))) =
         untimed (abs_state (run_log apply_at ds (NewMetadataServer a' b'))) \<and>
    snd (apply_at (now, c) (run_log apply_at cs (NewMetadataServer a b))) =
    snd (apply_at (now', c) (run_log apply_at ds (NewMetadataServer a' b')))"
proof -
  note inv = NewMetadataServer_inv [of a b] NewMetadataServer_inv [of a' b']
  note eq = untimed.replicas_agree [OF inv untimed_New assms]
  moreover note untimed.results_agree [OF untimed.run_inv [OF inv(1)] untimed.run_inv [OF inv(2)] eq]
  ultimately show ?thesis by simp
qed

definition sample_log :: "(time \<times> log_entry) list" where
  "sample_log = [(1, OpMkdir, Some (Marshal_payload mkdir_d)), (2, OpCreateFile, Some (Marshal_payload create_f))]"

definition sample_log_late :: "(time \<times> log_entry) list" where
  "sample_log_late = map (\<lambda>(t, c). (t + 7, c)) sample_log"

theorem replicas_agree_on_same_log_witness:
  "untimed (abs_state (run_log apply_at sample_log (NewMetadataServer 0 0))) =
   untimed (abs_state (run_log apply_at sample_log_late (NewMetadataServer 5 6))) \<and>
   snd (apply_at (9, OpDelete, None) (run_log apply_at sample_log (NewMetadataServer 0 0))) =
   snd (apply_at (8, OpDelete, None) (run_log apply_at sample_log_late (NewMetadataServer 5 6)))"
  by (rule replicas_agree_on_same_log) (simp add: sample_log_late_def sample_log_def)

text \<open>\<open>Apply\<close> is not a function of the log alone: it reads the local clock, and two replicas
  with the same log hold different creation times for the same file.\<close>

theorem Apply_reads_the_clock:
  "\<exists>cs ds ps. map snd cs = map snd ds \<and>
     map_option createdAt (mds_view (run_log apply_at cs (NewMetadataServer 0 0)) ps) \<noteq>
     map_option createdAt (mds_view (run_log apply_at ds (NewMetadataServer 0 0)) ps)"
proof (intro exI conjI)
  show "map snd sample_log = map snd sample_log_late"
    by (simp add: sample_log_late_def sample_log_def)
  show "map_option createdAt (mds_view (run_log apply_at sample_log (NewMetadataServer 0 0)) [''d'', ''f'']) \<noteq>
     map_option createdAt (mds_view (run_log apply_at sample_log_late (NewMetadataServer 0 0)) [''d'', ''f''])"
    by code_simp
qed

subsection \<open>Snapshots\<close>

text \<open>The local time of the examples is UTC.\<close>

definition utc :: "time \<Rightarrow> int" where
  "utc t = 0"

lemma utc_ok: "zone_ok utc"
  by (simp add: zone_ok_def utc_def)

lemma utc_wire: "0 \<le> t \<Longrightarrow> t < 100 \<Longrightarrow> wire_time utc t"
  by (simp add: wire_time_def utc_def epoch_day_def day_nanos_def days_before_def)

lemma sample_root_times: "fs_times utc (abs_state sample_root)"
  unfolding sample_root_def by (intro New_times utc_wire) simp_all

lemma sample_root_reachable: "reachable sample_root"
  unfolding sample_root_def by (rule reachable.init)

lemma sample_log_times: "\<forall>(now, c) \<in> set sample_log. wire_time utc now"
  by (simp add: sample_log_def utc_wire)

lemma sample_log_depth: "depth_ok 4998 (mds_view (run_log apply_at sample_log sample_root))"
proof (rule depth_ok_heap)
  show "mds_ok (run_log apply_at sample_log sample_root)"
    using reachable_inv [OF run_log_reachable [OF sample_root_reachable]] by (simp add: mds_inv_def)
  have "next_ptr (mds_heap (run_log apply_at sample_log sample_root)) = 3" by code_simp
  then show "next_ptr (mds_heap (run_log apply_at sample_log sample_root)) \<le> Suc 4998" by simp
qed

text \<open>C25. A replica that restores the JSON snapshot of another one, taken after some log, and replays
  the rest of the log with its own clock ends in the state of a replica that applied the whole log,
  but for the time stamps of the replayed part. The snapshot exists and is read without an error when
  the time stamps can be written (years 0 to 9999 in the local zone) and no path of the tree has more
  than 4998 names.\<close>

theorem snapshot_then_replay:
  assumes "reachable s" "mds_inv t" "zone_ok zone" "fs_times zone (abs_state s)"
    and "\<forall>(now, c) \<in> set xs. wire_time zone now"
    and "depth_ok 4998 (mds_view (run_log apply_at xs s))"
    and "map snd ys = map snd ys'"
  shows "\<exists>j. Snapshot zone (run_log apply_at xs s) = Some (Inr j) \<and> snd (Restore (Json j) t) = None \<and>
     untimed (abs_state (run_log apply_at ys' (fst (Restore (Json j) t)))) =
     untimed (abs_state (run_log apply_at (xs @ ys) s))"
proof -
  let ?s = "run_log apply_at xs s"
  note inv = reachable_inv [OF assms(1)] and utf8 = reachable_utf8 [OF run_log_reachable [OF assms(1)]]
  have fit: "fitting zone ?s"
    using assms(3,6) utf8 run_log_times [OF inv assms(4,5)]
    by (simp add: fitting_def fits_def abs_state_def)
  obtain j where j: "snapshot_json zone ?s = Some j" using untimed_snapshot.snapshot_after_log [OF inv fit] by blast
  have snap: "Snapshot zone ?s = Some (Inr j)" using j by (simp add: snapshot_json_Some)
  have "snd (Restore (Json j) t) = None"
    using Restore_Snapshot [OF reachable_inv utf8 assms(3,2) snap _ surjective_pairing]
      run_log_reachable [OF assms(1)] fitting_depth [OF _ fit snap] reachable_inv by blast
  then show ?thesis
    using snap untimed_snapshot.compaction [OF inv assms(2) fit j assms(7)] by (auto simp: restore_json_def)
qed

theorem snapshot_then_replay_witness:
  "\<exists>j. Snapshot utc (run_log apply_at sample_log sample_root) = Some (Inr j) \<and>
     snd (Restore (Json j) sample_tree) = None \<and>
     untimed (abs_state (run_log apply_at sample_log_late (fst (Restore (Json j) sample_tree)))) =
     untimed (abs_state (run_log apply_at (sample_log @ sample_log) sample_root))"
  by (rule snapshot_then_replay [OF sample_root_reachable sample_tree_inv utc_ok sample_root_times
        sample_log_times sample_log_depth]) (simp add: sample_log_late_def sample_log_def)

text \<open>C26. \<open>Snapshot\<close> of a state that a replica can be in fails exactly when \<open>json.Marshal\<close> refuses one
  of its time stamps. Otherwise, on any node, restoring the JSON it wrote gives back the same
  namespace, registry and heartbeat times, attribute by attribute, when no path of the tree has more
  than 4998 names; with a path of 5000 names or more the JSON is nested too deeply and \<open>Restore\<close>
  returns the error of \<open>json.Unmarshal\<close>.\<close>

theorem Restore_of_Snapshot:
  assumes "reachable s" "mds_inv t" "zone_ok zone"
  shows "if fs_times zone (abs_state s) then
      (\<exists>j. Snapshot zone s = Some (Inr j) \<and>
        (depth_ok 4998 (mds_view s) \<longrightarrow>
          (\<exists>t'. Restore (Json j) t = (t', None) \<and> mds_inv t' \<and> abs_state t' = abs_state s)) \<and>
        ((\<exists>ps. mds_view s ps \<noteq> None \<and> 5000 \<le> length ps) \<longrightarrow>
          Restore (Json j) t = (t, Some ErrUnmarshalSnapshot)))
    else Snapshot zone s = Some (Inl ErrMarshalTime)"
proof (cases "fs_times zone (abs_state s)")
  case True
  note ok = reachable_inv [OF assms(1)] reachable_utf8 [OF assms(1)]
  obtain j where j: "Snapshot zone s = Some (Inr j)" using Snapshot_result [OF ok(1), of zone] True by auto
  have "\<exists>t'. Restore (Json j) t = (t', None) \<and> mds_inv t' \<and> abs_state t' = abs_state s" if "depth_ok 4998 (mds_view s)"
  proof -
    have "json_depth j \<le> maxNestingDepth"
      using Snapshot_depth(1) [OF ok(1) assms(3) j that] by (simp add: maxNestingDepth_def)
    from Restore_Snapshot [OF ok assms(3,2) j this surjective_pairing] show ?thesis
      by (intro exI [of _ "fst (Restore (Json j) t)"]) (auto simp: prod_eq_iff)
  qed
  moreover have "Restore (Json j) t = (t, Some ErrUnmarshalSnapshot)" if "mds_view s ps \<noteq> None" "5000 \<le> length ps" for ps
    using Snapshot_depth(2) [OF ok(1) assms(3) j that(1)] that(2) Restore_rejects [of "Json j" t]
    by (simp add: maxNestingDepth_def)
  ultimately show ?thesis using True j by auto
next
  case False
  then show ?thesis using Snapshot_result [OF reachable_inv [OF assms(1)], of zone] by simp
qed

theorem Restore_of_Snapshot_witness:
  "\<exists>j. Snapshot utc (run_log apply_at sample_log sample_root) = Some (Inr j) \<and>
     (\<exists>t'. Restore (Json j) sample_dir = (t', None) \<and> mds_inv t' \<and>
        abs_state t' = abs_state (run_log apply_at sample_log sample_root))"
proof -
  have "fs_times utc (abs_state (run_log apply_at sample_log sample_root))"
    by (rule run_log_times [OF sample_root_inv sample_root_times sample_log_times])
  then show ?thesis
    using Restore_of_Snapshot [OF run_log_reachable [OF sample_root_reachable] sample_dir_inv utc_ok, of sample_log]
      sample_log_depth by auto
qed

subsection \<open>A tree that is too deep\<close>

definition deep_path :: "nat \<Rightarrow> string list" where
  "deep_path n = replicate n ''d''"

definition mkdir_deep :: "nat \<Rightarrow> commandPayload" where
  "mkdir_deep n = empty_payload\<lparr>p_Op := OpMkdir, p_Path := join_path (deep_path n)\<rparr>"

lemma deep_split: "splitPath (p_Path (mkdir_deep n)) = deep_path n"
proof -
  have "valid_name ''d''" by code_simp
  then show ?thesis by (simp add: mkdir_deep_def splitPath_eq_components components_join_path deep_path_def list_all_iff)
qed

lemma deep_utf8: "payload_utf8 (mkdir_deep n)"
proof -
  have "utf8_ok OpMkdir" unfolding OpMkdir_def by code_simp
  moreover have "list_all is_ascii (join_path (deep_path n))"
    by (auto simp: join_path_def deep_path_def list_all_iff is_ascii_def)
  ultimately show ?thesis
    by (simp add: payload_utf8_def mkdir_deep_def empty_payload_def utf8_ok_ascii)
qed

definition deep_tree :: "nat \<Rightarrow> MetadataServer" where
  "deep_tree n = fst (apply_payload 1 OpMkdir (mkdir_deep n) sample_root)"

lemma deep_tree_view: "mds_view (deep_tree n) (deep_path n) \<noteq> None"
proof -
  let ?p = "mkdir_deep n"
  have "child (mds_heap sample_root) (mds_root sample_root) m = None" for m
    by (simp add: sample_root_def NewMetadataServer_def child_def dir_entry_def)
  moreover have "mds_root sample_root < next_ptr (mds_heap sample_root)"
    by (simp add: sample_root_def NewMetadataServer_def)
  ultimately have ok: "snd (applyMkdir 1 ?p sample_root) = None"
    using mkdir_loop_fresh [of "mds_heap sample_root" "mds_root sample_root" "p_Path ?p" 1 0 "splitPath (p_Path ?p)"]
    by (auto simp: applyMkdir_def split: prod.split)
  have inv: "mds_ok sample_root" using sample_root_inv by (simp add: mds_inv_def)
  have tree: "deep_tree n = fst (applyMkdir 1 ?p sample_root)" by (simp add: deep_tree_def apply_payload_def op_defs)
  with ok have run: "applyMkdir 1 ?p sample_root = (deep_tree n, None)" by (simp add: prod_eq_iff)
  have s: "spec_mkdir_loop (p_Path ?p) 1 0 [] (splitPath (p_Path ?p)) (mds_view sample_root) = (mds_view (deep_tree n), None)"
    using applyMkdir_refines [OF inv run] by (simp add: spec_mkdir_def)
  have "dir_at (mds_view sample_root) ps" if "prefix ps []" for ps
    using that heap_ok_root [OF inv] by (simp add: dir_at_view)
  then have "dir_at (mds_view (deep_tree n)) (deep_path n)"
    using spec_mkdir_loop_ok [OF s] by (simp add: deep_split)
  then show ?thesis by (auto simp: dir_at_def split: option.splits)
qed

text \<open>Such a tree is one command away: \<open>applyMkdir\<close> has no limit, and a replica then writes snapshots that
  no replica can read.\<close>

theorem deep_tree_not_restored:
  "reachable (deep_tree 5000) \<and> (\<exists>j. Snapshot utc (deep_tree 5000) = Some (Inr j) \<and>
     Restore (Json j) t = (t, Some ErrUnmarshalSnapshot))"
proof -
  have r: "reachable (deep_tree 5000)"
    unfolding deep_tree_def by (rule reachable_payload [OF sample_root_reachable deep_utf8])
  have log: "deep_tree 5000 = run_log apply_at [(1, OpMkdir, Some (Marshal_payload (mkdir_deep 5000)))] sample_root"
    by (simp add: deep_tree_def apply_at_def Apply_def Unmarshal_Marshal wire_payload_utf8 [OF deep_utf8])
  have "fs_times utc (abs_state (deep_tree 5000))"
    unfolding log by (rule run_log_times [OF sample_root_inv sample_root_times]) (simp add: utc_wire)
  then obtain j where j: "Snapshot utc (deep_tree 5000) = Some (Inr j)"
    using Snapshot_result [OF reachable_inv [OF r], of utc] by auto
  have "length (deep_path 5000) = 5000" by (simp add: deep_path_def)
  then have "maxNestingDepth < json_depth j"
    using Snapshot_depth(2) [OF reachable_inv [OF r] utc_ok j deep_tree_view] by (simp add: maxNestingDepth_def)
  then show ?thesis using r j Restore_rejects [of "Json j" t] by auto
qed

end
