(* ===== verification/Namespace_Properties.thy ===== *)
theory Namespace_Properties
  imports State_Properties
begin

section \<open>Properties of the namespace commands\<close>

text \<open>
  What each command of \<open>internal/metadata/apply.go\<close> does to the tree that a client sees, on
  every branch, and what stays true of that tree in every state a replica can reach.
\<close>

subsection \<open>Reachable states\<close>

text \<open>C20. In every state a replica can reach, by commands and snapshots in any order, the
  directory structure is a tree: two paths that lead to the same node are the same path, every
  node is named as the last step of its path, a path with something below it is a directory,
  and a path is shorter than the number of nodes ever allocated (so the recursive traversals
  end).\<close>

theorem reachable_tree:
  assumes "reachable mds" "walk (mds_heap mds) (mds_root mds) xs = Some p"
  shows "(walk (mds_heap mds) (mds_root mds) ys = Some p \<longrightarrow> xs = ys) \<and>
    (xs \<noteq> [] \<longrightarrow> map_option entry_name (mds_view mds xs) = Some (last xs)) \<and>
    (mds_view mds (xs @ n # rs) \<noteq> None \<longrightarrow> dir_at (mds_view mds) xs) \<and>
    length xs < next_ptr (mds_heap mds)"
proof -
  have ok: "mds_ok mds" using reachable_inv [OF assms(1)] by (simp add: mds_inv_def)
  have "map_option entry_name (mds_view mds xs) = Some (last xs)" if ne: "xs \<noteq> []"
  proof -
    from ne obtain ps m where xs: "xs = ps @ [m]" by (rule snoc_cases)
    with assms(2) obtain q where "child (mds_heap mds) q m = Some p"
      by (auto simp: walk_snoc split: option.splits)
    with heap_ok_child_store [OF ok this] heap_ok_child_name [OF ok this] assms(2) xs
    show ?thesis by (auto simp: view_walk attrs_at_def)
  qed
  moreover have "mds_view mds (xs @ n # rs) \<noteq> None \<longrightarrow> dir_at (mds_view mds) xs"
    using view_below [OF ok, of xs n rs] by (cases "dir_at (mds_view mds) xs") simp_all
  ultimately show ?thesis
    using walk_inj [OF ok assms(2)] walk_length_bound [OF ok assms(2)] by simp
qed

theorem reachable_tree_witness:
  "length [''d'', ''f''] < next_ptr (mds_heap sample_tree) \<and>
   map_option entry_name (mds_view sample_tree [''d'', ''f'']) = Some ''f''"
  using reachable_tree [OF sample_tree_reachable sample_tree_walk, of "[]" "''x''" "[]"] by simp

text \<open>In every reachable state no data node is registered twice, and the registered nodes are
  exactly the ones with a recorded heartbeat.\<close>

theorem reachable_registry:
  assumes "reachable mds"
  shows "distinct (dataNodes mds) \<and> (\<forall>a. a \<in> set (dataNodes mds) \<longleftrightarrow> map_get (lastHeartbeat mds) a \<noteq> None)"
  using reachable_inv [OF assms] by (auto simp: mds_inv_def)

theorem reachable_registry_witness:
  "distinct (dataNodes sample_tree) \<and>
   (\<forall>a. a \<in> set (dataNodes sample_tree) \<longleftrightarrow> map_get (lastHeartbeat sample_tree) a \<noteq> None)"
  by (rule reachable_registry [OF sample_tree_reachable])

text \<open>C27. If the create commands of a log carry pairwise different FileIDs, as 16 random bytes
  do, then after the log no two files have the same FileID, whatever was renamed, overwritten or
  deleted in between.\<close>

theorem file_ids_unique:
  assumes "distinct (concat (map created_ids cs))"
    and "mds = run_log apply_at cs (NewMetadataServer t1 t2)"
    and "mds_view mds ps = Some e" "mds_view mds qs = Some f" "\<not> isDir e" "\<not> isDir f" "fileID e = fileID f"
  shows "ps = qs"
proof -
  have "ids_distinct (mds_view mds)"
    unfolding assms(2)
    by (rule run_log_ids [OF NewMetadataServer_inv ids_distinct_init(1) assms(1)])
       (simp add: ids_distinct_init(2))
  moreover have "file_id (mds_view mds) ps = Some (fileID e)" "file_id (mds_view mds) qs = Some (fileID f)"
    using assms(3-6) by (simp_all add: file_id_def)
  ultimately show ?thesis using assms(7) by (simp add: ids_distinct_def)
qed

definition sample_log3 :: "(time \<times> log_entry) list" where
  "sample_log3 = sample_log @
     [(3, OpCreateFile, Some (Marshal_payload (create_f\<lparr>p_Path := ''/d/g'', p_FileID := ''i2''\<rparr>))),
      (4, OpRename, Some (Marshal_payload (empty_payload\<lparr>p_Op := OpRename, p_Path := ''/d/f'', p_DstPath := ''/h''\<rparr>)))]"

lemma sample_log3_ids: "distinct (concat (map created_ids sample_log3))"
  by code_simp

lemma sample_log3_files:
  "mds_view (run_log apply_at sample_log3 (NewMetadataServer 0 0)) [''h''] =
     Some (file_entry ''h'' 5 2 4 ''i1'' [\<lparr>Addr = ''n1'', RemotePath = ''/data/i1''\<rparr>])"
  "mds_view (run_log apply_at sample_log3 (NewMetadataServer 0 0)) [''d'', ''g''] =
     Some (file_entry ''g'' 5 3 3 ''i2'' [\<lparr>Addr = ''n1'', RemotePath = ''/data/i1''\<rparr>])"
  by code_simp+

theorem file_ids_unique_witness: "''i1'' \<noteq> ''i2''"
  using file_ids_unique [OF sample_log3_ids refl sample_log3_files] by (auto simp: file_entry_def)

subsection \<open>Rename\<close>

text \<open>C2. A successful rename moves the whole subtree and nothing else. The entry at the
  destination is the source's with the new name and modification time (same FileID, replicas,
  size, status, creation time); everything below it is unchanged, nothing is left at the source,
  and no other path changes except for the modification time of the two parents.\<close>

theorem rename_moves_subtree:
  assumes "mds_inv mds" "applyRename now p mds = (mds', None)"
    and "src = splitPath (p_Path p)" "dst = splitPath (p_DstPath p)"
  shows "mds_view mds src \<noteq> None \<and>
    mds_view mds' dst = map_option (\<lambda>e. e\<lparr>entry_name := last dst, modTime := now\<rparr>) (mds_view mds src) \<and>
    (\<forall>rs. rs \<noteq> [] \<longrightarrow> mds_view mds' (dst @ rs) = mds_view mds (src @ rs)) \<and>
    (src \<noteq> dst \<longrightarrow> (\<forall>rs. mds_view mds' (src @ rs) = None)) \<and>
    (\<forall>qs. \<not> prefix src qs \<longrightarrow> \<not> prefix dst qs \<longrightarrow>
       mds_view mds' qs = (if qs = butlast src \<or> qs = butlast dst
         then map_option (\<lambda>e. e\<lparr>modTime := now\<rparr>) (mds_view mds qs) else mds_view mds qs))"
proof -
  have ok: "mds_ok mds" using assms(1) by (simp add: mds_inv_def)
  have run: "spec_rename now p (mds_view mds) = (mds_view mds', None)"
    using applyRename_refines [OF ok assms(2)] by simp
  note r = rename_view [OF ok refl run assms(3,4)] and g = spec_rename_ok(3) [OF ok refl run assms(3,4)]
  show ?thesis
    using g r by simp
qed

definition rename_f :: commandPayload where
  "rename_f = empty_payload\<lparr>p_Op := OpRename, p_Path := ''/d/f'', p_DstPath := ''/g/''\<rparr>"

lemma rename_f_succeeds: "snd (applyRename 3 rename_f sample_tree) = None"
  by code_simp

lemma rename_f_paths: "splitPath (p_Path rename_f) = [''d'', ''f'']" "splitPath (p_DstPath rename_f) = [''g'']"
  by code_simp+

theorem rename_moves_subtree_witness:
  "mds_view (fst (applyRename 3 rename_f sample_tree)) [''g''] =
     Some (file_entry ''g'' 5 2 3 ''i1'' [\<lparr>Addr = ''n1'', RemotePath = ''/data/i1''\<rparr>]) \<and>
   mds_view (fst (applyRename 3 rename_f sample_tree)) [''d'', ''f''] = None"
  using rename_moves_subtree [OF sample_tree_inv run_eq [OF rename_f_succeeds]
      rename_f_paths [symmetric]]
  by (auto simp: sample_views file_entry_def dest: spec [of _ "[]"])

text \<open>C3. A directory cannot be moved below itself: when the source is a directory and the
  destination lies strictly below it, \<open>applyRename\<close> refuses with its subtree error and leaves the
  state as it was, however the two paths are spelled.\<close>

theorem rename_into_own_subtree_rejected:
  assumes "mds_inv mds" "dir_at (mds_view mds) (splitPath (p_Path p))" "splitPath (p_Path p) \<noteq> []"
    and "strict_prefix (splitPath (p_Path p)) (splitPath (p_DstPath p))"
  shows "applyRename now p mds = (mds, Some (ErrOwnSubtree (p_Path p) (p_DstPath p)))"
proof -
  have ok: "mds_ok mds" using assms(1) by (simp add: mds_inv_def)
  obtain mds' err where run: "applyRename now p mds = (mds', err)" by fastforce
  have "splitPath (p_DstPath p) \<noteq> []" using assms(4) by auto
  with assms(2-4) applyRename_refines [OF ok run]
  have err: "err = Some (ErrOwnSubtree (p_Path p) (p_DstPath p))"
    by (simp add: spec_rename_def Let_def prefix_butlast_strict dir_at_not_None)
  have "apply_payload now OpRename p mds = applyRename now p mds"
    by (simp add: apply_payload_def op_defs)
  then have "mds' = mds" using apply_payload_error [OF assms(1)] run err by metis
  then show ?thesis using run err by simp
qed

definition rename_below :: commandPayload where
  "rename_below = empty_payload\<lparr>p_Op := OpRename, p_Path := ''/d'', p_DstPath := ''/d//e/''\<rparr>"

theorem rename_into_own_subtree_rejected_witness:
  "applyRename 3 rename_below sample_tree = (sample_tree, Some (ErrOwnSubtree ''/d'' ''/d//e/''))"
proof -
  have "dir_at (mds_view sample_tree) (splitPath (p_Path rename_below))" "splitPath (p_Path rename_below) \<noteq> []"
    "strict_prefix (splitPath (p_Path rename_below)) (splitPath (p_DstPath rename_below))"
    "p_Path rename_below = ''/d''" "p_DstPath rename_below = ''/d//e/''"
    by code_simp+
  then show ?thesis using rename_into_own_subtree_rejected [OF sample_tree_inv, of rename_below 3] by simp
qed

subsection \<open>Creating files\<close>

text \<open>\<open>applyCreateFile\<close> succeeds exactly when the parent is a directory and the path is free,
  or holds a file and the mode is overwrite. On success the path holds a pending file with the
  size and the replicas of the command; a new file gets the FileID of the command, an overwritten
  one keeps its FileID and creation time. No other path changes, but for the modification time of
  the parent.\<close>

theorem create_file_result:
  assumes "mds_inv mds" "applyCreateFile now p mds = (mds', err)" "ps = splitPath (p_Path p)"
  shows "(err = None \<longleftrightarrow> ps \<noteq> [] \<and> dir_at (mds_view mds) (butlast ps) \<and>
      (case mds_view mds ps of None \<Rightarrow> True | Some e \<Rightarrow> \<not> isDir e \<and> p_CreateMode p = OverwriteIfExists)) \<and>
    (err = None \<longrightarrow>
      mds_view mds' ps =
        (case mds_view mds ps of
           None \<Rightarrow> Some (file_entry (last ps) (p_Size p) now now (p_FileID p) (p_Replicas p))
         | Some e \<Rightarrow> Some (file_entry (last ps) (p_Size p) (createdAt e) now (fileID e) (p_Replicas p))) \<and>
      (\<forall>qs. qs \<noteq> ps \<longrightarrow> mds_view mds' qs =
        (if qs = butlast ps then map_option (\<lambda>e. e\<lparr>modTime := now\<rparr>) (mds_view mds qs) else mds_view mds qs)))"
proof -
  have "mds_ok mds" using assms(1) by (simp add: mds_inv_def)
  from applyCreateFile_refines [OF this assms(2)]
  have "(mds_view mds', err) = spec_create now p (mds_view mds)" by simp
  moreover have "ps = [] \<or> ps \<noteq> butlast ps" using append_not_butlast [of ps "[]"] by auto
  ultimately show ?thesis
    unfolding spec_create_def Let_def assms(3) [symmetric]
    by (cases "mds_view mds ps") (auto simp: touch_apply split: if_splits)
qed

theorem create_file_result_witness:
  "mds_view sample_tree [''d'', ''f''] =
     Some (file_entry ''f'' 5 2 2 ''i1'' [\<lparr>Addr = ''n1'', RemotePath = ''/data/i1''\<rparr>])"
proof -
  have v: "splitPath (p_Path create_f) = [''d'', ''f'']" "mds_view sample_dir [''d'', ''f''] = None"
    "snd (applyCreateFile 2 create_f sample_dir) = None" "p_Size create_f = 5" "p_FileID create_f = ''i1''"
    "p_Replicas create_f = [\<lparr>Addr = ''n1'', RemotePath = ''/data/i1''\<rparr>]"
    by code_simp+
  from create_file_result [OF sample_dir_inv run_eq [OF v(3)] v(1) [symmetric]] v(2)
  show ?thesis by (simp add: sample_tree_def v)
qed

subsection \<open>Deleting\<close>

text \<open>C28. \<open>applyDelete\<close> succeeds on every existing path but the root, non-empty directories
  included, and removes exactly the subtree: what is not below the path keeps everything but the
  modification time of the parent.\<close>

theorem delete_removes_subtree:
  assumes "mds_inv mds" "applyDelete now p mds = (mds', err)" "ps = splitPath (p_Path p)"
  shows "(err = None \<longleftrightarrow> ps \<noteq> [] \<and> mds_view mds ps \<noteq> None) \<and>
    (err = None \<longrightarrow>
      (\<forall>qs. mds_view mds' qs =
        (if prefix ps qs then None
         else if qs = butlast ps then map_option (\<lambda>e. e\<lparr>modTime := now\<rparr>) (mds_view mds qs)
         else mds_view mds qs)))"
proof -
  have "mds_ok mds" using assms(1) by (simp add: mds_inv_def)
  from applyDelete_refines [OF this assms(2)]
  have "(mds_view mds', err) = spec_delete now p (mds_view mds)" by simp
  moreover have "ps \<noteq> [] \<longrightarrow> \<not> prefix ps (butlast ps)"
    by (simp add: prefix_butlast_strict)
  ultimately show ?thesis
    unfolding spec_delete_def Let_def assms(3) [symmetric]
    by (auto simp: touch_apply prune_def split: if_splits)
qed

theorem delete_removes_subtree_witness:
  "mds_view (fst (applyDelete 3 mkdir_d sample_tree)) [''d'', ''f''] = None \<and>
   mds_view (fst (applyDelete 3 mkdir_d sample_tree)) [''d''] = None"
proof -
  have v: "splitPath (p_Path mkdir_d) = [''d'']" "snd (applyDelete 3 mkdir_d sample_tree) = None"
    by code_simp+
  from delete_removes_subtree [OF sample_tree_inv run_eq [OF v(2)] v(1) [symmetric]]
  show ?thesis by simp
qed

subsection \<open>Making directories\<close>

text \<open>C29. A successful \<open>applyMkdir\<close> makes every prefix of the path a directory, creating exactly
  the missing ones and keeping all that existed but for modification times; asked again, with any
  clock, it succeeds and changes nothing.\<close>

theorem mkdir_makes_path:
  assumes "mds_inv mds" "applyMkdir now p mds = (mds', None)"
  shows "(\<forall>ps. prefix ps (splitPath (p_Path p)) \<longrightarrow> dir_at (mds_view mds') ps) \<and>
    (\<forall>qs e. mds_view mds qs = Some e \<longrightarrow> mds_view mds' qs \<in> {Some e, Some (e\<lparr>modTime := now\<rparr>)}) \<and>
    (\<forall>qs. mds_view mds qs = None \<longrightarrow> mds_view mds' qs =
       (if prefix qs (splitPath (p_Path p)) then Some (dir_entry (last qs) now now) else None)) \<and>
    applyMkdir later p mds' = (mds', None)"
proof -
  have ok: "mds_ok mds" using assms(1) by (simp add: mds_inv_def)
  note r = applyMkdir_refines [OF ok assms(2)]
  then have "spec_mkdir_loop (p_Path p) now 0 [] (splitPath (p_Path p)) (mds_view mds) = (mds_view mds', None)"
    by (simp add: spec_mkdir_def)
  moreover have "dir_at (mds_view mds) ps" if "prefix ps []" for ps
    using that heap_ok_root [OF ok] by (simp add: dir_at_view)
  ultimately have A: "(\<forall>ps. prefix ps (splitPath (p_Path p)) \<longrightarrow> dir_at (mds_view mds') ps) \<and>
    (\<forall>qs e. mds_view mds qs = Some e \<longrightarrow> mds_view mds' qs \<in> {Some e, Some (e\<lparr>modTime := now\<rparr>)}) \<and>
    (\<forall>qs. mds_view mds qs = None \<longrightarrow> mds_view mds' qs =
       (if prefix qs (splitPath (p_Path p)) then Some (dir_entry (last qs) now now) else None))"
    using spec_mkdir_loop_ok [of "p_Path p" now 0 "[]"] by simp
  then have "dir_at (mds_view mds') (splitPath (p_Path p))" by simp
  moreover have ok': "mds_ok mds'" using r by simp
  ultimately obtain q where "find_dir (mds_heap mds') (mds_root mds') (splitPath (p_Path p)) = Some q"
    using find_dir_view [OF ok', of "splitPath (p_Path p)"] by (auto split: option.splits)
  then have "applyMkdir later p mds' = (mds', None)"
    by (simp add: applyMkdir_def mkdir_loop_existing)
  with A show ?thesis by simp
qed

theorem mkdir_makes_path_witness:
  "mds_view sample_dir [''d''] = Some (dir_entry ''d'' 1 1) \<and> applyMkdir 9 mkdir_d sample_dir = (sample_dir, None)"
proof -
  have v: "splitPath (p_Path mkdir_d) = [''d'']" "snd (applyMkdir 1 mkdir_d sample_root) = None"
    "mds_view sample_root [''d''] = None"
    by code_simp+
  from mkdir_makes_path [OF sample_root_inv run_eq [OF v(2)], of 9]
  show ?thesis by (simp add: v flip: sample_dir_def)
qed

subsection \<open>Completing and resizing\<close>

text \<open>\<open>applyCompleteFile\<close> succeeds exactly on existing files and then changes nothing but the
  status and modification time of that file, which becomes complete; \<open>applyUpdateSize\<close> likewise
  changes only the size and modification time, never replicas, FileID or status.\<close>

theorem complete_and_resize:
  assumes "mds_inv mds" "ps = splitPath (p_Path p)"
    and "applyCompleteFile now p mds = (mc, ec)" "applyUpdateSize now p mds = (mu, eu)"
  shows "(ec = None \<longleftrightarrow> mds_view mds ps \<noteq> None \<and> \<not> dir_at (mds_view mds) ps) \<and> (eu = None \<longleftrightarrow> ec = None) \<and>
    (ec = None \<longrightarrow>
      mds_view mc = (mds_view mds)(ps := map_option
        (\<lambda>e. e\<lparr>entry_status := StatusComplete, modTime := now\<rparr>) (mds_view mds ps)) \<and>
      mds_view mu = (mds_view mds)(ps := map_option
        (\<lambda>e. e\<lparr>entry_size := p_NewSize p, modTime := now\<rparr>) (mds_view mds ps)))"
proof -
  have ok: "mds_ok mds" using assms(1) by (simp add: mds_inv_def)
  from applyCompleteFile_refines [OF ok assms(3)] applyUpdateSize_refines [OF ok assms(4)]
  have "(mds_view mc, ec) = spec_complete now p (mds_view mds)"
    "(mds_view mu, eu) = spec_update_size now p (mds_view mds)" by simp_all
  then show ?thesis
    unfolding spec_complete_def spec_update_size_def Let_def assms(2) [symmetric]
    by (cases "mds_view mds ps") (auto simp: dir_at_def split: if_splits)
qed

theorem complete_and_resize_witness:
  "mds_view (fst (applyCompleteFile 3 create_f sample_tree)) [''d'', ''f''] =
     Some ((file_entry ''f'' 5 2 3 ''i1'' [\<lparr>Addr = ''n1'', RemotePath = ''/data/i1''\<rparr>])\<lparr>entry_status := StatusComplete\<rparr>)"
proof -
  have v: "splitPath (p_Path create_f) = [''d'', ''f'']" "snd (applyCompleteFile 3 create_f sample_tree) = None"
    by code_simp+
  from complete_and_resize [OF sample_tree_inv v(1) [symmetric] run_eq [OF v(2)] surjective_pairing]
  show ?thesis by (simp add: sample_views) (simp add: file_entry_def)
qed

subsection \<open>Data node registration\<close>

text \<open>A heartbeat registers its node, at the end of the list and once, and records the time;
  removing a node undoes both and touches no other node. Neither command can fail or change the
  namespace.\<close>

theorem heartbeat_and_removal:
  assumes "mds_inv mds" "applyHeartbeat now p mds = (mh, eh)" "applyRemoveDataNode p mds = (mr, er)"
  shows "eh = None \<and> er = None \<and> mds_view mh = mds_view mds \<and> mds_view mr = mds_view mds \<and>
    dataNodes mh = (if p_Addr p \<in> set (dataNodes mds) then dataNodes mds else dataNodes mds @ [p_Addr p]) \<and>
    map_get (lastHeartbeat mh) = (map_get (lastHeartbeat mds))(p_Addr p \<mapsto> now) \<and>
    dataNodes mr = filter (\<lambda>a. a \<noteq> p_Addr p) (dataNodes mds) \<and>
    map_get (lastHeartbeat mr) = (map_get (lastHeartbeat mds))(p_Addr p := None)"
proof -
  have "distinct (dataNodes mds)" using assms(1) by (simp add: mds_inv_def)
  then have "remove1 (p_Addr p) (dataNodes mds) = filter (\<lambda>a. a \<noteq> p_Addr p) (dataNodes mds)"
    by (simp add: distinct_remove1_removeAll removeAll_filter_not_eq) (rule filter_cong, auto)
  with assms(2,3) show ?thesis
    by (auto simp: applyHeartbeat_def applyRemoveDataNode_def Let_def map_get_put map_get_del)
qed

theorem heartbeat_and_removal_witness:
  "dataNodes (fst (applyHeartbeat 4 (empty_payload\<lparr>p_Addr := ''n1''\<rparr>) sample_tree)) = [''n1'']"
proof -
  have "dataNodes sample_tree = []" by code_simp
  with heartbeat_and_removal [OF sample_tree_inv surjective_pairing surjective_pairing, of 4 "empty_payload\<lparr>p_Addr := ''n1''\<rparr>"]
  show ?thesis by (simp add: empty_payload_def)
qed

end
