(* ===== verification/Server_Properties.thy ===== *)
theory Server_Properties
  imports Meta_Server Namespace_Properties
begin

section \<open>Properties of the metadata RPCs\<close>

text \<open>
  What a caller of \<open>MetadataService\<close> (\<open>internal/metadata/mds.go\<close>) can rely on: followers only
  redirect, no handler leaves the reachable states, the replicas of a new file are sound, and the
  read operations report the tree.
\<close>

lemma lookup_entry_view: "mds_inv mds \<Longrightarrow> map_option attrs (lookup_entry mds path) = mds_view mds (splitPath path)"
  using lookup_view [of mds path] by (auto simp: lookup_entry_def mds_inv_def split: option.splits)

lemma clamp:
  "1 \<le> l \<Longrightarrow> (if (if n > l then l else n) < 1 then 1 else (if n > l then l else n)) = max 1 (min n (l::int))"
  by auto

lemma select_ok:
  assumes "distinct (dataNodes mds)" "dataNodes mds \<noteq> []"
  shows "\<exists>reps. selectDataNodes path fid n mds = Some reps \<and>
    int (length reps) = max 1 (min n (int (length (dataNodes mds)))) \<and> distinct (map Addr reps) \<and>
    set (map Addr reps) \<subseteq> set (dataNodes mds) \<and> (\<forall>r \<in> set reps. RemotePath r = ''/data/'' @ fid)"
proof -
  let ?nodes = "dataNodes mds"
  let ?len = "length ?nodes"
  let ?s = "start_index path ?len"
  define k where "k = nat (max 1 (min n (int ?len)))"
  have len: "0 < ?len" using assms(2) by simp
  then have "1 \<le> int ?len" by linarith
  then have k: "k \<le> ?len" "int k = max 1 (min n (int ?len))" by (auto simp add: k_def nat_le_iff)
  define reps where "reps = select_loop ?nodes ?s (''/data/'' @ fid) 0 k []"
  have "(if (if n > int ?len then int ?len else n) < 1 then 1 else (if n > int ?len then int ?len else n)) = int k"
    unfolding k(2) using \<open>1 \<le> int ?len\<close> by (rule clamp)
  then have sel: "selectDataNodes path fid n mds = Some reps"
    using len by (auto simp: selectDataNodes_def Let_def reps_def)
  have addrs: "map Addr reps = map (\<lambda>j. ?nodes ! ((?s + j) mod ?len)) [0..<k]"
    unfolding reps_def using select_loop_distinct [OF assms(1), of 0 k "[]"] k(1) assms(2) by simp
  have "length (map Addr reps) = k" unfolding addrs by simp
  then have "length reps = k" by simp
  moreover have "distinct (map Addr reps)"
    unfolding addrs distinct_map using len k(1) assms(1)
    by (auto simp: inj_on_def nth_eq_iff_index_eq) (metis mod_add_inj order_less_le_trans)
  moreover have "set (map Addr reps) \<subseteq> set ?nodes" unfolding addrs using len by auto
  moreover have "\<forall>r \<in> set reps. RemotePath r = ''/data/'' @ fid"
    unfolding reps_def by (blast intro: select_loop_paths)
  ultimately show ?thesis using sel k(2) by auto
qed

subsection \<open>Leadership\<close>

text \<open>A node that is not the leader changes nothing: every write RPC returns the redirect error
  with the leader's address and leaves the state as it was.\<close>

theorem followers_redirect:
  assumes "\<not> rf_IsLeader rf"
  defines "redirect \<equiv> ErrNotLeader (rf_GetLeader rf)"
  shows "Heartbeat rf addr mds = (mds, Inl redirect) \<and> Mkdir rf path mds = (mds, Inl redirect) \<and>
    CreateFile rf rnd cargs mds = (mds, Inl redirect) \<and> CompleteFile rf path mds = (mds, Inl redirect) \<and>
    Delete rf path mds = (mds, Inl redirect) \<and> Rename rf rargs mds = (mds, Inl redirect) \<and>
    UpdateSize rf uargs mds = (mds, Inl redirect)"
  using assms
  by (simp add: checkLeader_def Heartbeat_def Mkdir_def CreateFile_def CompleteFile_def Delete_def
      Rename_def UpdateSize_def)

theorem followers_redirect_witness:
  "Mkdir ((local_node 1)\<lparr>rf_IsLeader := False\<rparr>) ''/x'' sample_tree = (sample_tree, Inl (ErrNotLeader ''m1''))"
  using followers_redirect [of "(local_node 1)\<lparr>rf_IsLeader := False\<rparr>"] by (simp add: local_node_def)

text \<open>No RPC leads out of the reachable states: whatever the handlers are called with and
  whatever other commands Raft applies meanwhile, the tree and registry invariants hold afterwards.\<close>

theorem handlers_stay_reachable:
  assumes "raft_contract rf" "reachable mds"
  shows "reachable (fst (Heartbeat rf addr mds)) \<and> reachable (fst (Mkdir rf path mds)) \<and>
    reachable (fst (CreateFile rf rnd cargs mds)) \<and> reachable (fst (CompleteFile rf path mds)) \<and>
    reachable (fst (Delete rf path mds)) \<and> reachable (fst (Rename rf rargs mds)) \<and>
    reachable (fst (UpdateSize rf uargs mds))"
proof (intro conjI)
  note keep = assms(2) submit_reply_reachable [OF assms]
  show "reachable (fst (CreateFile rf rnd cargs mds))"
    by (simp add: CreateFile_def Let_def keep split: option.split sum.split)
qed (simp_all add: Heartbeat_def Mkdir_def CompleteFile_def Delete_def Rename_def UpdateSize_def
    assms(2) submit_reply_reachable [OF assms] split: option.split)

theorem handlers_stay_reachable_witness:
  "reachable (fst (Delete (local_node 3) ''/d'' sample_tree))"
  using handlers_stay_reachable [OF local_node_contract sample_tree_reachable] by blast

subsection \<open>Creating files\<close>

text \<open>On a state with registered data nodes the replica selection never fails: it returns
  \<open>min(count, nodes)\<close> replicas, at least one, on pairwise different registered nodes, all at the
  path of the FileID. The wrap-around of the hash and the sign of Go's remainder do not matter.\<close>

theorem selected_replicas:
  assumes "reachable mds" "dataNodes mds \<noteq> []"
  shows "\<exists>reps. selectDataNodes path fid n mds = Some reps \<and>
    int (length reps) = max 1 (min n (int (length (dataNodes mds)))) \<and> distinct (map Addr reps) \<and>
    set (map Addr reps) \<subseteq> set (dataNodes mds) \<and> (\<forall>r \<in> set reps. RemotePath r = ''/data/'' @ fid)"
proof -
  have "distinct (dataNodes mds)" using reachable_inv [OF assms(1)] by (simp add: mds_inv_def)
  then show ?thesis by (rule select_ok [OF _ assms(2)])
qed

definition sample_nodes :: MetadataServer where
  "sample_nodes = fst (apply_payload 4 OpHeartbeat (empty_payload\<lparr>p_Addr := ''n2''\<rparr>)
     (fst (apply_payload 3 OpHeartbeat (empty_payload\<lparr>p_Addr := ''n1''\<rparr>) sample_tree)))"

lemma sample_nodes_reachable: "reachable sample_nodes"
proof -
  have "payload_utf8 (empty_payload\<lparr>p_Addr := ''n1''\<rparr>)" "payload_utf8 (empty_payload\<lparr>p_Addr := ''n2''\<rparr>)"
    by code_simp+
  then show ?thesis
    unfolding sample_nodes_def by (intro reachable_payload sample_tree_reachable)
qed

lemma sample_nodes_registry: "dataNodes sample_nodes = [''n1'', ''n2'']"
  by code_simp

theorem selected_replicas_witness:
  "\<exists>reps. selectDataNodes ''/d/g'' ''i9'' 3 sample_nodes = Some reps \<and> int (length reps) = 2"
  using selected_replicas [OF sample_nodes_reachable, of "''/d/g''" "''i9''" 3]
  by (auto simp: sample_nodes_registry)

lemma hex_ascii: "is_hex c \<Longrightarrow> is_ascii c"
  by (auto simp: is_hex_def is_ascii_def Let_def)

lemma utf8_ok_hex: "utf8_ok (EncodeToString buf)" "utf8_ok (''/data/'' @ EncodeToString buf)"
proof -
  have "list_all is_ascii (EncodeToString buf)"
    using EncodeToString_hex [of buf] hex_ascii by (auto simp: list_all_iff)
  moreover have "list_all is_ascii ''/data/''" by code_simp
  ultimately show "utf8_ok (EncodeToString buf)" "utf8_ok (''/data/'' @ EncodeToString buf)"
    by (intro utf8_ok_ascii; simp)+
qed

lemma utf8_ok_op: "utf8_ok OpCreateFile"
  unfolding OpCreateFile_def by code_simp

lemma created_view:
  assumes "mds_inv mds" "applyCreateFile now p mds = (mds', None)"
  shows "mds_view mds' (splitPath (p_Path p)) =
    (case mds_view mds (splitPath (p_Path p)) of
       None \<Rightarrow> Some (file_entry (last (splitPath (p_Path p))) (p_Size p) now now (p_FileID p) (p_Replicas p))
     | Some e \<Rightarrow> Some (file_entry (last (splitPath (p_Path p))) (p_Size p) (createdAt e) now (fileID e) (p_Replicas p)))"
proof -
  have "mds_ok mds" using assms(1) by (simp add: mds_inv_def)
  from applyCreateFile_refines [OF this assms(2)]
  have "(mds_view mds', None) = spec_create now p (mds_view mds)" by simp
  moreover have "splitPath (p_Path p) \<noteq> [] \<Longrightarrow> butlast (splitPath (p_Path p)) \<noteq> splitPath (p_Path p)"
    using append_not_butlast [of "splitPath (p_Path p)" "[]"] by auto
  ultimately show ?thesis
    by (auto simp: spec_create_def Let_def touch_apply split: if_splits option.splits)
qed

text \<open>What a \<open>CreateFile\<close> that returns replicas has submitted.\<close>

definition created_payload :: "CreateFileArgs \<Rightarrow> byte list \<Rightarrow> Replica list \<Rightarrow> commandPayload" where
  "created_payload args buf reps =
     empty_payload\<lparr>p_Op := OpCreateFile, p_Path := cf_Path args, p_Size := cf_Size args,
       p_Replicas := reps, p_CreateMode := cf_CreateMode args, p_FileID := EncodeToString buf\<rparr>"

lemma created_payload_simps [simp]:
  "p_Op (created_payload args buf reps) = OpCreateFile" "p_Path (created_payload args buf reps) = cf_Path args"
  "p_Size (created_payload args buf reps) = cf_Size args" "p_Replicas (created_payload args buf reps) = reps"
  "p_FileID (created_payload args buf reps) = EncodeToString buf"
  by (simp_all add: created_payload_def)

lemma CreateFile_submits:
  assumes inv: "mds_inv mds" and run: "CreateFile rf (Inr buf) args mds = (mds', Inr reply)"
    and utf8: "utf8_ok (cf_Path args)" "list_all utf8_ok (dataNodes mds)"
  shows "\<exists>reps. submit_reply rf (created_payload args buf reps) \<lparr>cr_Replicas = reps\<rparr> mds = (mds', Inr reply) \<and>
    payload_utf8 (created_payload args buf reps) \<and> set (map Addr reps) \<subseteq> set (dataNodes mds) \<and>
    distinct (map Addr reps) \<and> reps \<noteq> [] \<and>
    int (length reps) = max 1 (min (replicaCount mds) (int (length (dataNodes mds)))) \<and>
    (\<forall>r \<in> set reps. RemotePath r = ''/data/'' @ EncodeToString buf)"
proof -
  let ?fid = "EncodeToString buf"
  from run obtain reps where ne: "dataNodes mds \<noteq> []"
    and sel: "selectDataNodes (cf_Path args) ?fid (replicaCount mds) mds = Some reps"
    and sub: "submit_reply rf (created_payload args buf reps) \<lparr>cr_Replicas = reps\<rparr> mds = (mds', Inr reply)"
    by (auto simp: CreateFile_def generateFileID_def created_payload_def Let_def split: option.splits if_splits)
  have "distinct (dataNodes mds)" using inv by (simp add: mds_inv_def)
  from select_ok [OF this ne, of "cf_Path args" ?fid "replicaCount mds"] sel
  have reps: "set (map Addr reps) \<subseteq> set (dataNodes mds)" "distinct (map Addr reps)"
    "\<forall>r \<in> set reps. RemotePath r = ''/data/'' @ ?fid" "reps \<noteq> []"
    "int (length reps) = max 1 (min (replicaCount mds) (int (length (dataNodes mds))))"
    by auto
  then have "list_all replica_utf8 reps"
    using utf8(2) utf8_ok_hex(2) by (fastforce simp: list_all_iff replica_utf8_def)
  then have "payload_utf8 (created_payload args buf reps)"
    using utf8(1) utf8_ok_hex(1) utf8_ok_op by (simp add: payload_utf8_def created_payload_def empty_payload_def)
  with sub reps show ?thesis by blast
qed

text \<open>The entry that applying it leaves at the path.\<close>

definition created_entry :: "time \<Rightarrow> commandPayload \<Rightarrow> entry option \<Rightarrow> entry" where
  "created_entry now p old =
     (let name = last (splitPath (p_Path p)) in
      case old of
        None \<Rightarrow> file_entry name (p_Size p) now now (p_FileID p) (p_Replicas p)
      | Some e \<Rightarrow> file_entry name (p_Size p) (createdAt e) now (fileID e) (p_Replicas p))"

text \<open>C21. When \<open>CreateFile\<close> returns replicas to the client, it has submitted to Raft exactly the command
  that creates the file at the requested path, with the requested size and mode, the FileID of the 16
  random bytes and these replicas, and Raft has applied it without an error, between \<open>before\<close> and
  \<open>after\<close>, the commands of others. From then on the path holds a pending file with that size and these
  replicas; its FileID is the new one when the path was free at that moment and the old one when a
  file was overwritten. The replicas are \<open>min(replicaCount, nodes)\<close> many, at least one, on pairwise
  different nodes registered at the start of the call, all at \<open>/data/\<close> followed by the new FileID.\<close>

theorem CreateFile_rpc:
  assumes "raft_contract rf" "mds_inv mds" "CreateFile rf (Inr buf) args mds = (mds', Inr reply)"
    and "utf8_ok (cf_Path args)" "list_all utf8_ok (dataNodes mds)"
  defines "p \<equiv> created_payload args buf (cr_Replicas reply)"
  shows "rf_Do rf OpCreateFile (Marshal_payload p) mds = (mds', None) \<and>
    (\<exists>before now after mds1.
       apply_at (now, OpCreateFile, Some (Marshal_payload p)) (run_log apply_at before mds) = (mds1, None) \<and>
       mds' = run_log apply_at after mds1 \<and>
       mds_view mds1 (splitPath (cf_Path args)) =
         Some (created_entry now p (mds_view (run_log apply_at before mds) (splitPath (cf_Path args))))) \<and>
    int (length (cr_Replicas reply)) = max 1 (min (replicaCount mds) (int (length (dataNodes mds)))) \<and>
    distinct (map Addr (cr_Replicas reply)) \<and> set (map Addr (cr_Replicas reply)) \<subseteq> set (dataNodes mds) \<and>
    (\<forall>r \<in> set (cr_Replicas reply). RemotePath r = ''/data/'' @ EncodeToString buf)"
proof -
  from CreateFile_submits [OF assms(2-5)] obtain reps
    where sub: "submit_reply rf (created_payload args buf reps) \<lparr>cr_Replicas = reps\<rparr> mds = (mds', Inr reply)"
      and u: "payload_utf8 (created_payload args buf reps)" and reps: "distinct (map Addr reps)"
      "set (map Addr reps) \<subseteq> set (dataNodes mds)" "\<forall>r \<in> set reps. RemotePath r = ''/data/'' @ EncodeToString buf"
      "int (length reps) = max 1 (min (replicaCount mds) (int (length (dataNodes mds))))"
    by blast
  from submit_reply_ok [OF assms(1) sub] obtain before now after mds1
    where r: "cr_Replicas reply = reps"
      and ap: "apply_at (now, OpCreateFile, Some (Marshal_payload p)) (run_log apply_at before mds) = (mds1, None)"
        "mds' = run_log apply_at after mds1"
    by (auto simp: p_def)
  have do: "rf_Do rf OpCreateFile (Marshal_payload p) mds = (mds', None)"
    using submit_reply_do [OF sub] r by (simp add: p_def)
  have "applyCreateFile now p (run_log apply_at before mds) = (mds1, None)"
    using ap(1) r by (simp add: p_def apply_at_def Apply_def Unmarshal_Marshal wire_payload_utf8 [OF u] apply_payload_def op_defs)
  from created_view [OF run_log_inv [OF assms(2)] this]
  have "mds_view mds1 (splitPath (cf_Path args)) =
      Some (created_entry now p (mds_view (run_log apply_at before mds) (splitPath (cf_Path args))))"
    by (simp add: created_entry_def Let_def p_def split: option.split)
  then show ?thesis using do ap reps r by blast
qed

definition sample_args :: CreateFileArgs where
  "sample_args = \<lparr>cf_Path = ''/d/g'', cf_Size = 7, cf_CreateMode = CreateIfNotExist\<rparr>"

lemma sample_create_runs:
  "snd (CreateFile (local_node 5) (Inr [1, 2]) sample_args sample_nodes) =
     Inr \<lparr>cr_Replicas = [\<lparr>Addr = ''n2'', RemotePath = ''/data/0102''\<rparr>, \<lparr>Addr = ''n1'', RemotePath = ''/data/0102''\<rparr>]\<rparr>"
  by code_simp

lemma sample_nodes_utf8: "utf8_ok ''/d/g''" "utf8_ok ''/d/f''" "list_all utf8_ok [''n1'', ''n2'']"
  by code_simp+

lemma sample_nodes_inv: "mds_inv sample_nodes"
  by (rule reachable_inv [OF sample_nodes_reachable])

theorem CreateFile_rpc_witness:
  "\<exists>before now mds1 old. mds_view mds1 [''d'', ''g''] =
      Some (created_entry now (created_payload sample_args [1, 2]
        [\<lparr>Addr = ''n2'', RemotePath = ''/data/0102''\<rparr>, \<lparr>Addr = ''n1'', RemotePath = ''/data/0102''\<rparr>]) old) \<and>
     old = mds_view (run_log apply_at before sample_nodes) [''d'', ''g'']"
proof -
  have v: "cf_Path sample_args = ''/d/g''" "splitPath ''/d/g'' = [''d'', ''g'']"
    by code_simp+
  from CreateFile_rpc [OF local_node_contract sample_nodes_inv run_eq [OF sample_create_runs]]
  show ?thesis
    using sample_nodes_utf8(1,3) unfolding v sample_nodes_registry by fastforce
qed

subsection \<open>Reading\<close>

lemma list_info_attrs [simp]: "list_info path n (attrs e) = list_info path n e"
  by (simp add: list_info_def)

lemma lookup_entry_children:
  assumes "mds_inv mds" "lookup_entry mds path = Some e"
  shows "mds_view mds (splitPath path @ [n]) =
    (case map_get (children e) n of None \<Rightarrow> None | Some c \<Rightarrow> map_option attrs (store (mds_heap mds) c))"
proof -
  have "mds_ok mds" using assms(1) by (simp add: mds_inv_def)
  from lookup_view [OF this, of path] assms(2) obtain q
    where "walk (mds_heap mds) (mds_root mds) (splitPath path) = Some q" "store (mds_heap mds) q = Some e"
    by (auto simp: lookup_entry_def split: option.splits)
  then show ?thesis by (simp add: view_def walk_snoc child_def attrs_at_def split: option.split)
qed

definition child_info :: "entry_heap \<Rightarrow> string \<Rightarrow> string \<times> ptr \<Rightarrow> FileInfo option" where
  "child_info h path = (\<lambda>(name, c). map_option (list_info path name) (store h c))"

lemma child_info_Some:
  "child_info h path x = Some i \<longleftrightarrow> (\<exists>e. store h (snd x) = Some e \<and> i = list_info path (fst x) e)"
  by (auto simp: child_info_def split: prod.splits)

lemma set_child_infos:
  "i \<in> set (List.map_filter (child_info h path) cs) \<longleftrightarrow> (\<exists>x \<in> set cs. child_info h path x = Some i)"
  by (induction cs) (auto simp: map_filter_simps split: option.splits)

lemma distinct_child_infos:
  "map_ok cs \<Longrightarrow> distinct (map info_key (List.map_filter (child_info h path) cs))"
proof (induction cs)
  case (Cons x cs)
  have "info_key i \<notin> info_key ` set (List.map_filter (child_info h path) cs)"
    if "child_info h path x = Some i" for i
    using that Cons.prems
    by (auto simp: set_child_infos child_info_Some info_key_def list_info_def) (metis fst_conv imageI)+
  with Cons show ?case by (simp add: map_filter_simps split: option.split)
qed (simp add: map_filter_simps)

lemma ListDir_ok:
  assumes inv: "mds_inv mds" and e: "lookup_entry mds path = Some e" "isDir e"
    and run: "ListDir mds path = Inr infos"
  shows "sorted_wrt (<) (map info_key infos)"
    and "i \<in> set infos \<longleftrightarrow> (\<exists>n c. mds_view mds (splitPath path @ [n]) = Some c \<and> i = list_info path n c)"
proof -
  let ?raw = "List.map_filter (child_info (mds_heap mds) path) (children e)"
  from run e have infos: "infos = sort_key info_key ?raw" by (simp add: ListDir_def child_info_def)
  have ok: "mds_ok mds" using inv by (simp add: mds_inv_def)
  obtain q where "store (mds_heap mds) q = Some e"
    using e(1) by (auto simp: lookup_entry_def split: option.splits)
  then have m: "map_ok (children e)" using heap_ok_map [OF ok] by blast
  have "distinct (map info_key ?raw)" by (rule distinct_child_infos [OF m])
  then have "distinct (map info_key infos)"
    unfolding infos by (metis distinct_map distinct_sort set_sort)
  moreover have "sorted (map info_key infos)" unfolding infos by simp
  ultimately show "sorted_wrt (<) (map info_key infos)" by (simp add: strict_sorted_iff)
  have vw: "mds_view mds (splitPath path @ [n]) = Some c \<longleftrightarrow>
      (\<exists>p c'. (n, p) \<in> set (children e) \<and> store (mds_heap mds) p = Some c' \<and> c = attrs c')" for n c
    unfolding lookup_entry_children [OF inv e(1)] map_of_eq_Some_iff [OF m, symmetric]
    by (auto split: option.split)
  have "i \<in> set infos \<longleftrightarrow> (\<exists>n p c. (n, p) \<in> set (children e) \<and> store (mds_heap mds) p = Some c \<and> i = list_info path n c)"
    unfolding infos set_sort set_child_infos child_info_Some by force
  also have "\<dots> \<longleftrightarrow> (\<exists>n c. mds_view mds (splitPath path @ [n]) = Some c \<and> i = list_info path n c)"
    unfolding vw by (auto intro: list_info_attrs [symmetric]) (metis list_info_attrs)+
  finally show "i \<in> set infos \<longleftrightarrow> (\<exists>n c. mds_view mds (splitPath path @ [n]) = Some c \<and> i = list_info path n c)" .
qed

text \<open>C22. A listing is complete and in order: \<open>ListDir\<close> succeeds exactly on directories, its entries
  are exactly the children of the directory with their attributes, each once, directories first
  and names ascending within each group. The iteration order of the map does not show.\<close>

theorem ListDir_lists_children:
  assumes "mds_inv mds"
  shows "(if dir_at (mds_view mds) (splitPath path) then
      (\<exists>infos. ListDir mds path = Inr infos \<and> sorted_wrt (<) (map info_key infos) \<and>
         (\<forall>i. i \<in> set infos \<longleftrightarrow> (\<exists>n c. mds_view mds (splitPath path @ [n]) = Some c \<and> i = list_info path n c)))
    else (\<exists>err. ListDir mds path = Inl err))"
proof (cases "lookup_entry mds path")
  case None
  then show ?thesis
    using lookup_entry_view [OF assms, of path] by (simp add: ListDir_def dir_at_def)
next
  case (Some e)
  then have v: "mds_view mds (splitPath path) = Some (attrs e)"
    using lookup_entry_view [OF assms, of path] by simp
  show ?thesis
  proof (cases "isDir e")
    case True
    then obtain infos where "ListDir mds path = Inr infos" using Some by (simp add: ListDir_def)
    with ListDir_ok [OF assms Some True this] v True show ?thesis by (simp add: dir_at_def)
  next
    case False
    then show ?thesis using v Some by (simp add: ListDir_def dir_at_def)
  qed
qed

theorem ListDir_lists_children_witness:
  "\<exists>infos. ListDir sample_tree ''/d'' = Inr infos \<and> list_info ''/d'' ''f''
     (file_entry ''f'' 5 2 2 ''i1'' [\<lparr>Addr = ''n1'', RemotePath = ''/data/i1''\<rparr>]) \<in> set infos"
proof -
  have p: "splitPath ''/d'' = [''d'']" by code_simp
  have "dir_at (mds_view sample_tree) [''d'']" by (simp add: dir_at_def sample_views)
  then obtain infos where i: "ListDir sample_tree ''/d'' = Inr infos"
    "\<forall>i. i \<in> set infos \<longleftrightarrow> (\<exists>n c. mds_view sample_tree ([''d''] @ [n]) = Some c \<and> i = list_info ''/d'' n c)"
    using ListDir_lists_children [OF sample_tree_inv, of "''/d''"] unfolding p by auto
  have "mds_view sample_tree ([''d''] @ [''f'']) =
      Some (file_entry ''f'' 5 2 2 ''i1'' [\<lparr>Addr = ''n1'', RemotePath = ''/data/i1''\<rparr>])"
    using sample_views(2) by simp
  with i show ?thesis by blast
qed

text \<open>C23. The path that a listing prints for an entry leads back to it: on a directory whose path
  and entry names contain no dot components, \<open>Stat\<close> of the listed path returns the listed
  information, for every entry.\<close>

theorem listed_path_resolves:
  assumes "mds_inv mds" "ListDir mds path = Inr infos" "i \<in> set infos"
    and "list_all plain_name (splitPath path)" "plain_name (fi_Name i)"
  shows "Stat mds (fi_Path i) = Inr i"
proof -
  obtain e where e: "lookup_entry mds path = Some e" "isDir e"
    using assms(2) by (auto simp: ListDir_def split: option.splits if_splits)
  from ListDir_ok(2) [OF assms(1) e assms(2), of i] assms(3) obtain n c
    where c: "mds_view mds (splitPath path @ [n]) = Some c" "i = list_info path n c" by blast
  then have n: "fi_Name i = n" "fi_Path i = Join path n" by (simp_all add: list_info_def)
  then have sp: "splitPath (fi_Path i) = splitPath path @ [n]"
    using splitPath_Join [OF assms(4)] assms(5) by simp
  obtain c' where c': "lookup_entry mds (fi_Path i) = Some c'" "attrs c' = c"
    using lookup_entry_view [OF assms(1), of "fi_Path i"] c(1) sp by auto
  have ok: "mds_ok mds" using assms(1) by (simp add: mds_inv_def)
  have "entry_name c = n"
  proof -
    from c(1) obtain q p where "child (mds_heap mds) q n = Some p" "attrs_at (mds_heap mds) p = Some c"
      by (auto simp: view_def walk_snoc split: option.splits)
    with heap_ok_child_name [OF ok] show ?thesis by (auto simp: attrs_at_def)
  qed
  then show ?thesis
    using c' c(2) n by (auto simp: Stat_def list_info_def)
qed

theorem listed_path_resolves_witness:
  "Stat sample_tree ''/d/f'' = Inr (list_info ''/d'' ''f''
     (file_entry ''f'' 5 2 2 ''i1'' [\<lparr>Addr = ''n1'', RemotePath = ''/data/i1''\<rparr>]))"
proof -
  let ?i = "list_info ''/d'' ''f'' (file_entry ''f'' 5 2 2 ''i1'' [\<lparr>Addr = ''n1'', RemotePath = ''/data/i1''\<rparr>])"
  have v: "ListDir sample_tree ''/d'' = Inr [?i]" "list_all plain_name (splitPath ''/d'')"
    "plain_name (fi_Name ?i)" "fi_Path ?i = ''/d/f''"
    by code_simp+
  from listed_path_resolves [OF sample_tree_inv v(1) _ v(2,3)] show ?thesis unfolding v(4) by simp
qed

end
