(* ===== verification/Orphan_GC.thy ===== *)
theory Orphan_GC
  imports Data_Cluster Node_Properties Server_Properties
begin

section \<open>Orphan garbage collection\<close>

text \<open>
  \<open>internal/metadata/gc.go\<close>: the leader removes data nodes without a recent heartbeat, collects
  the FileIDs of the tree, and deletes from every remaining data node the old files whose name
  is none of them. The recursion over the tree carries fuel, the number of addresses ever
  allocated, which \<open>collect_enough\<close> shows to be enough in every reachable state. Times are
  nanoseconds.
\<close>

definition gcInterval :: time where "gcInterval = 5 * 60 * 10 ^ 9"
definition gcSafetyWindow :: time where "gcSafetyWindow = 30 * 10 ^ 9"
definition heartbeatTimeout :: time where "heartbeatTimeout = 10 * 60 * 10 ^ 9"

text \<open>Go's map iteration has no fixed order; here it is that of the association list.\<close>

definition deadNodes :: "time \<Rightarrow> MetadataServer \<Rightarrow> (string \<times> time) list" where
  "deadNodes now mds = (let cutoff = now - heartbeatTimeout in filter (\<lambda>(addr, last). last < cutoff) (lastHeartbeat mds))"

definition remove_node :: "raft_node \<Rightarrow> string \<Rightarrow> MetadataServer \<Rightarrow> MetadataServer" where
  "remove_node rf addr mds = fst (submitCommand rf (empty_payload\<lparr>p_Op := OpRemoveDataNode, p_Addr := addr\<rparr>) mds)"

definition checkDataNodeHealth :: "raft_node \<Rightarrow> time \<Rightarrow> MetadataServer \<Rightarrow> MetadataServer" where
  "checkDataNodeHealth rf now mds = fold (\<lambda>(addr, last). remove_node rf addr) (deadNodes now mds) mds"

fun collectFileIDsRecursive :: "nat \<Rightarrow> entry_heap \<Rightarrow> ptr \<Rightarrow> string list \<Rightarrow> string list option" where
  "collectFileIDsRecursive 0 h p ids = None"
| "collectFileIDsRecursive (Suc fuel) h p ids =
     (case store h p of
        None \<Rightarrow> Some ids
      | Some e \<Rightarrow>
          if \<not> isDir e then Some (if fileID e \<noteq> '''' then List.insert (fileID e) ids else ids)
          else fold_opt (\<lambda>(name, c). collectFileIDsRecursive fuel h c) (children e) ids)"

definition collectValidFileIDs :: "MetadataServer \<Rightarrow> string list option" where
  "collectValidFileIDs mds =
     collectFileIDsRecursive (next_ptr (mds_heap mds)) (mds_heap mds) (mds_root mds) []"

text \<open>The decision on one listed file, and the loop over the listing.\<close>

definition removable :: "string list \<Rightarrow> time \<Rightarrow> NodeFile \<Rightarrow> bool" where
  "removable validFileIDs cutoff nf =
     (let fid = TrimPrefix (nf_Path nf) ''/data/'' in
      if fid \<noteq> '''' \<and> List.member validFileIDs fid then False
      else if nf_ModTime nf > cutoff then False
      else True)"

fun gc_loop :: "string \<Rightarrow> string list \<Rightarrow> time \<Rightarrow> NodeFile list \<Rightarrow> cluster \<Rightarrow> cluster" where
  "gc_loop addr ids cutoff [] cl = cl"
| "gc_loop addr ids cutoff (nf # nfs) cl =
     gc_loop addr ids cutoff nfs
       (if removable ids cutoff nf then fst (call_node addr (\<lambda>dn. DeleteData dn (nf_Path nf)) cl) else cl)"

definition garbageCollectNode :: "string \<Rightarrow> string list \<Rightarrow> time \<Rightarrow> cluster \<Rightarrow> cluster" where
  "garbageCollectNode addr validFileIDs gcStart cl =
     (case dial_node addr cl of
        (cl, Some e) \<Rightarrow> cl
      | (cl, None) \<Rightarrow>
          (case call_node addr ListAllPaths cl of
             (cl, Inl e) \<Rightarrow> cl
           | (cl, Inr nodeFiles) \<Rightarrow> gc_loop addr validFileIDs (gcStart - gcSafetyWindow) nodeFiles cl))"

text \<open>\<open>None\<close> is running out of fuel.\<close>

definition runGC :: "raft_node \<Rightarrow> time \<Rightarrow> time \<Rightarrow> MetadataServer \<times> cluster \<Rightarrow> (MetadataServer \<times> cluster) option" where
  "runGC rf gcStart now s =
     (let mds = checkDataNodeHealth rf now (fst s) in
      case collectValidFileIDs mds of
        None \<Rightarrow> None
      | Some ids \<Rightarrow>
          Some (mds, fold (\<lambda>addr. garbageCollectNode addr ids gcStart) (dataNodes mds) (snd s)))"

text \<open>One tick of the background goroutine, and the RPC, whose goroutine is taken to finish.\<close>

definition startGC_tick :: "raft_node \<Rightarrow> time \<Rightarrow> time \<Rightarrow> MetadataServer \<times> cluster \<Rightarrow> (MetadataServer \<times> cluster) option" where
  "startGC_tick rf gcStart now s = (if \<not> rf_IsLeader rf then Some s else runGC rf gcStart now s)"

definition TriggerGC ::
  "raft_node \<Rightarrow> time \<Rightarrow> time \<Rightarrow> MetadataServer \<times> cluster \<Rightarrow> (MetadataServer \<times> cluster) option \<times> bool reply" where
  "TriggerGC rf gcStart now s =
     (case checkLeader rf of
        Some e \<Rightarrow> (Some s, Inl e)
      | None \<Rightarrow> (runGC rf gcStart now s, Inr True))"

subsection \<open>Collecting the FileIDs\<close>

lemma fold_opt_adds:
  assumes "\<And>x b. x \<in> set xs \<Longrightarrow> \<exists>b'. f x b = Some b' \<and> set b' = set b \<union> g x"
  shows "\<exists>b'. fold_opt f xs b = Some b' \<and> set b' = set b \<union> (\<Union>x \<in> set xs. g x)"
  using assms
proof (induction xs arbitrary: b)
  case (Cons x xs)
  then obtain b1 where b1: "f x b = Some b1" "set b1 = set b \<union> g x" by fastforce
  obtain b2 where "fold_opt f xs b1 = Some b2" "set b2 = set b1 \<union> (\<Union>x \<in> set xs. g x)"
    using Cons.IH [of b1] Cons.prems by auto
  with b1 show ?case by auto
qed simp

definition ids_below :: "entry_heap \<Rightarrow> ptr \<Rightarrow> string set" where
  "ids_below h p = {f. f \<noteq> '''' \<and> (\<exists>ps. file_id (view h p) ps = Some f)}"

lemma file_id_view: "file_id (view h p) ps = Some f \<longleftrightarrow>
    (\<exists>q e. walk h p ps = Some q \<and> store h q = Some e \<and> \<not> isDir e \<and> fileID e = f)"
  by (auto simp: file_id_def view_def attrs_at_def split: option.splits)

lemma ids_below_file:
  assumes "heap_ok h root" "store h p = Some e" "\<not> isDir e"
  shows "ids_below h p = (if fileID e \<noteq> '''' then {fileID e} else {})"
proof -
  have "children e = []" using heap_ok_leaf [OF assms(1,2,3)] .
  then have "walk h p ps = Some q \<longleftrightarrow> ps = [] \<and> q = p" for ps q
    using assms(2) by (cases ps) (auto simp: child_def)
  then show ?thesis using assms(2,3) by (auto simp: ids_below_def file_id_view)
qed

lemma ids_below_dir:
  assumes "heap_ok h root" "store h p = Some e" "isDir e"
  shows "ids_below h p = (\<Union>x \<in> set (children e). ids_below h (snd x))"
proof -
  have c: "child h p n = Some q \<longleftrightarrow> (n, q) \<in> set (children e)" for n q
    using heap_ok_map [OF assms(1,2)] assms(2) by (simp add: child_def)
  have "(\<exists>ps. file_id (view h p) ps = Some f) \<longleftrightarrow>
      (\<exists>x \<in> set (children e). \<exists>ps. file_id (view h (snd x)) ps = Some f)" for f
  proof
    assume "\<exists>ps. file_id (view h p) ps = Some f"
    then obtain ps q e' where w: "walk h p ps = Some q" "store h q = Some e'" "\<not> isDir e'" "fileID e' = f"
      by (auto simp: file_id_view)
    with assms(2,3) obtain n ns where ps: "ps = n # ns" by (cases ps) auto
    with w(1) obtain r where "child h p n = Some r" "walk h r ns = Some q" by (auto split: option.splits)
    with w have "file_id (view h r) ns = Some f" "(n, r) \<in> set (children e)" by (auto simp: file_id_view c)
    then show "\<exists>x \<in> set (children e). \<exists>ps. file_id (view h (snd x)) ps = Some f"
      by (intro bexI [of _ "(n, r)"]) auto
  next
    assume "\<exists>x \<in> set (children e). \<exists>ps. file_id (view h (snd x)) ps = Some f"
    then obtain n r ps q e' where "(n, r) \<in> set (children e)" "walk h r ps = Some q"
      "store h q = Some e'" "\<not> isDir e'" "fileID e' = f" by (auto simp: file_id_view)
    then have "walk h p (n # ps) = Some q" using c [of n r] by simp
    with \<open>store h q = Some e'\<close> \<open>\<not> isDir e'\<close> \<open>fileID e' = f\<close>
    show "\<exists>ps. file_id (view h p) ps = Some f" unfolding file_id_view by blast
  qed
  then show ?thesis by (auto simp: ids_below_def)
qed

text \<open>With fuel for the longest remaining path the recursion collects exactly the FileIDs below.\<close>

lemma collect_enough:
  assumes ok: "heap_ok h root"
  shows "walk h root ps = Some p \<Longrightarrow> next_ptr h \<le> fuel + length ps \<Longrightarrow>
    \<exists>ids'. collectFileIDsRecursive fuel h p ids = Some ids' \<and> set ids' = set ids \<union> ids_below h p"
proof (induction fuel arbitrary: ps p ids)
  case 0
  with walk_length_bound [OF ok] show ?case by fastforce
next
  case (Suc fuel)
  obtain e where e: "store h p = Some e" using walk_store [OF ok Suc.prems(1)] by blast
  show ?case
  proof (cases "isDir e")
    case False
    then show ?thesis using e ids_below_file [OF ok e] by simp
  next
    case True
    have "\<exists>b'. (\<lambda>(name, c). collectFileIDsRecursive fuel h c) x b = Some b' \<and> set b' = set b \<union> ids_below h (snd x)"
      if "x \<in> set (children e)" for x b
    proof -
      obtain n c where x: "x = (n, c)" by (cases x)
      with that heap_ok_map [OF ok e] have "child h p n = Some c" using e by (simp add: child_def)
      then have "walk h root (ps @ [n]) = Some c" using Suc.prems(1) by (simp add: walk_snoc)
      with Suc.IH [of "ps @ [n]" c] Suc.prems(2) x show ?thesis by auto
    qed
    from fold_opt_adds [of "children e", OF this] e True ids_below_dir [OF ok e True]
    show ?thesis by simp
  qed
qed

lemma collect_used:
  assumes "mds_inv mds"
  shows "\<exists>ids. collectValidFileIDs mds = Some ids \<and> set ids = used_ids (mds_view mds) - {''''}"
proof -
  have ok: "heap_ok (mds_heap mds) (mds_root mds)" using assms by (simp add: mds_inv_def)
  from collect_enough [OF ok, of "[]" "mds_root mds" "next_ptr (mds_heap mds)" "[]"]
  show ?thesis by (auto simp: collectValidFileIDs_def ids_below_def used_ids_def)
qed

subsection \<open>The health check\<close>

lemma remove_node_reachable: "raft_contract rf \<Longrightarrow> reachable mds \<Longrightarrow> reachable (remove_node rf addr mds)"
  using submit_reply_reachable [of rf mds "empty_payload\<lparr>p_Op := OpRemoveDataNode, p_Addr := addr\<rparr>" undefined]
  by (cases "rf_Do rf OpRemoveDataNode (Marshal_payload (empty_payload\<lparr>p_Op := OpRemoveDataNode, p_Addr := addr\<rparr>)) mds")
     (simp add: remove_node_def submitCommand_def submit_reply_state)

lemma checkDataNodeHealth_reachable:
  "raft_contract rf \<Longrightarrow> reachable mds \<Longrightarrow> reachable (checkDataNodeHealth rf now mds)"
proof -
  assume rf: "raft_contract rf"
  have "reachable mds \<Longrightarrow> reachable (fold (\<lambda>(addr, last). remove_node rf addr) dead mds)" for dead mds
    using remove_node_reachable [OF rf] by (induction dead arbitrary: mds) auto
  then show "reachable mds \<Longrightarrow> reachable (checkDataNodeHealth rf now mds)"
    by (simp add: checkDataNodeHealth_def)
qed

text \<open>On a cluster of one node that applies at once, removal is immediate.\<close>

lemma remove_node_local:
  assumes "utf8_ok addr"
  shows "remove_node (local_node t) addr mds =
    mds\<lparr>dataNodes := remove1 addr (dataNodes mds), lastHeartbeat := map_del addr (lastHeartbeat mds)\<rparr>"
proof -
  have "payload_utf8 (empty_payload\<lparr>p_Op := OpRemoveDataNode, p_Addr := addr\<rparr>)"
    using assms by (simp add: payload_utf8_def empty_payload_def OpRemoveDataNode_def) code_simp
  then show ?thesis
    by (simp add: remove_node_def submitCommand_def local_node_def local_do_def Apply_def Unmarshal_Marshal
        wire_payload_utf8 apply_payload_def applyRemoveDataNode_def op_defs Let_def)
qed

lemma remove_all_local:
  assumes "list_all (\<lambda>(a, t). utf8_ok a) dead" "distinct (dataNodes mds)"
  shows "fold (\<lambda>(addr, last). remove_node (local_node t) addr) dead mds =
    mds\<lparr>dataNodes := filter (\<lambda>a. a \<notin> fst ` set dead) (dataNodes mds),
        lastHeartbeat := filter (\<lambda>(a, t). a \<notin> fst ` set dead) (lastHeartbeat mds)\<rparr>"
  using assms
proof (induction dead arbitrary: mds)
  case (Cons x dead)
  obtain a u where x: "x = (a, u)" by (cases x)
  let ?m = "mds\<lparr>dataNodes := remove1 a (dataNodes mds), lastHeartbeat := map_del a (lastHeartbeat mds)\<rparr>"
  have r: "remove_node (local_node t) a mds = ?m" using Cons.prems x by (simp add: remove_node_local)
  have f: "filter (\<lambda>b. b \<notin> fst ` set dead) (remove1 a (dataNodes mds)) =
      filter (\<lambda>b. b \<noteq> a \<and> b \<notin> fst ` set dead) (dataNodes mds)"
    using Cons.prems(2) by (simp add: distinct_remove1_removeAll removeAll_filter_not_eq) (rule filter_cong, auto)
  have g: "filter (\<lambda>(b, t). b \<notin> fst ` set dead) (map_del a (lastHeartbeat mds)) =
      filter (\<lambda>(b, t). b \<noteq> a \<and> b \<notin> fst ` set dead) (lastHeartbeat mds)"
    by (simp add: AList.delete_eq) (rule filter_cong, auto)
  show ?case using Cons.IH [of ?m] Cons.prems x r f g by simp
qed simp

end
