(* ===== verification/GC_Properties.thy ===== *)
theory GC_Properties
  imports Orphan_GC
begin

section \<open>Properties of garbage collection\<close>

text \<open>
  What a cycle of \<open>internal/metadata/gc.go\<close> may delete, what it must delete, and when it goes
  wrong. A disk is described by \<open>files\<close>, the contents of the files on it; \<open>orphan\<close> is the
  specification of the files a cycle is to remove.
\<close>

definition orphan :: "DataNode \<Rightarrow> string set \<Rightarrow> time \<Rightarrow> disk \<Rightarrow> string list \<Rightarrow> bool" where
  "orphan dn used cutoff fs q \<longleftrightarrow> (\<exists>rest d t. q = components (dataDir dn) @ rest \<and>
     node fs q = Some (FileNode d t) \<and> \<not> HasSuffix (last rest) ''.tmp'' \<and> t \<le> cutoff \<and>
     TrimPrefix (join_path rest) ''/data/'' \<notin> used - {''''} \<and> (\<exists>r. resolvePath dn (join_path rest) = Inr r))"

definition node_ready :: "DataNode \<Rightarrow> os_state \<Rightarrow> bool" where
  "node_ready dn os \<longleftrightarrow> node_ok dn os \<and> node (os_files os) (components (dataDir dn)) = Some DirNode"

definition cluster_ok :: "cluster \<Rightarrow> bool" where
  "cluster_ok cl \<longleftrightarrow> (\<forall>addr dn os. cl_nodes cl addr = Some (dn, os) \<longrightarrow> node_ready dn os)"

subsection \<open>One deletion, one node\<close>

lemma no_panic: "snd (DeleteData dn p os) \<noteq> Inl DnPanic" "snd (ListAllPaths dn os) \<noteq> Inl DnPanic"
  by (auto simp: DeleteData_def ListAllPaths_def resolvePath_def Let_def split: sum.split prod.split)

lemma DeleteData_node_ok:
  assumes "node_ok dn os"
  shows "node_ok dn (fst (DeleteData dn p os))"
proof -
  have "serving dn os (fst (DeleteData dn p os))" by (rule serving.delete [OF serving.start])
  then show ?thesis using serving_kept assms by (auto simp: kept_def)
qed

lemma DeleteData_either:
  assumes "node_ok dn os"
  shows "files (fst (DeleteData dn p os)) = files os \<or>
    (\<exists>r. resolvePath dn p = Inr r) \<and> files (fst (DeleteData dn p os)) = (files os)(target dn p := None)"
proof -
  obtain os' r where run: "DeleteData dn p os = (os', r)" by fastforce
  have ok: "dn_ok dn" "os_ok os" using assms by (simp_all add: node_ok_def)
  show ?thesis
  proof (cases r)
    case (Inl e)
    then show ?thesis using DeleteData_files(2) [OF ok run] run by simp
  next
    case (Inr b)
    moreover have "\<exists>r. resolvePath dn p = Inr r"
      using run Inr by (cases "resolvePath dn p") (auto simp: DeleteData_def)
    ultimately show ?thesis using DeleteData_files(3) [OF ok run] run by simp
  qed
qed

lemma DeleteData_works:
  assumes "node_ok dn os" "healthy os" "resolvePath dn p = Inr r"
  shows "healthy (fst (DeleteData dn p os)) \<and> files (fst (DeleteData dn p os)) = (files os)(target dn p := None)"
proof -
  have ok: "dn_ok dn" "os_ok os" using assms by (simp_all add: node_ok_def)
  have h: "healthy (fst (DeleteData dn p os))"
    using assms(2,3)
    by (auto simp: DeleteData_def os_Remove_def Let_def split: sum.split prod.split inode.split)
  show ?thesis
  proof (cases "files os (target dn p)")
    case (Some d)
    then obtain os' where "DeleteData dn p os = (os', Inr True)"
      using assms(2,3) stat_file [OF ok(2) Some] resolvePath_lands(1) [OF ok(1) assms(3)]
      by (auto simp: DeleteData_def os_Remove_def Let_def)
    then show ?thesis using DeleteData_files(3) [OF ok] h by auto
  next
    case None
    then have "(files os)(target dn p := None) = files os" by (simp add: fun_upd_idem)
    then show ?thesis using DeleteData_either [OF assms(1), of p] h by auto
  qed
qed

lemma call_delete:
  assumes "cl_nodes cl addr = Some (dn, os)" "node_ok dn os"
  shows "\<exists>os'. cl_nodes (fst (call_node addr (\<lambda>dn. DeleteData dn p) cl)) = (cl_nodes cl)(addr \<mapsto> (dn, os')) \<and>
    node_ok dn os' \<and> (files os' = files os \<or>
      (\<exists>r. resolvePath dn p = Inr r) \<and> files os' = (files os)(target dn p := None))"
proof -
  obtain cl' r where c: "call_node addr (\<lambda>dn. DeleteData dn p) cl = (cl', r)" by fastforce
  from call_node_effect [OF c assms(1)] no_panic(1) [of dn p os]
  have "cl_nodes cl' = cl_nodes cl \<or> cl_nodes cl' = (cl_nodes cl)(addr \<mapsto> (dn, fst (DeleteData dn p os)))"
    by auto
  moreover have "cl_nodes cl = (cl_nodes cl)(addr \<mapsto> (dn, os))" using assms(1) by (simp add: fun_upd_idem)
  ultimately show ?thesis
    using c assms(2) DeleteData_either [OF assms(2), of p] DeleteData_node_ok [OF assms(2), of p] by auto
qed

text \<open>The loop may lose any of its deletions but deletes nothing that is not removable.\<close>

definition to_delete :: "DataNode \<Rightarrow> string list \<Rightarrow> time \<Rightarrow> NodeFile list \<Rightarrow> string list \<Rightarrow> bool" where
  "to_delete dn ids cutoff nfs q \<longleftrightarrow> (\<exists>nf \<in> set nfs. removable ids cutoff nf \<and>
     (\<exists>r. resolvePath dn (nf_Path nf) = Inr r) \<and> q = target dn (nf_Path nf))"

lemma gc_loop_safe:
  assumes "cl_nodes cl addr = Some (dn, os)" "node_ok dn os"
  shows "\<exists>os'. cl_nodes (gc_loop addr ids cutoff nfs cl) = (cl_nodes cl)(addr \<mapsto> (dn, os')) \<and> node_ok dn os' \<and>
    (\<forall>q. files os' q = files os q \<or> to_delete dn ids cutoff nfs q \<and> files os' q = None)"
  using assms
proof (induction nfs arbitrary: cl os)
  case Nil
  then show ?case by (auto intro!: exI [of _ os] simp: fun_upd_idem)
next
  case (Cons nf nfs)
  let ?cl = "if removable ids cutoff nf then fst (call_node addr (\<lambda>dn. DeleteData dn (nf_Path nf)) cl) else cl"
  obtain os1 where 1: "cl_nodes ?cl = (cl_nodes cl)(addr \<mapsto> (dn, os1))" "node_ok dn os1"
    "files os1 = files os \<or> removable ids cutoff nf \<and> (\<exists>r. resolvePath dn (nf_Path nf) = Inr r) \<and>
       files os1 = (files os)(target dn (nf_Path nf) := None)"
  proof (cases "removable ids cutoff nf")
    case True
    then show ?thesis using call_delete [OF Cons.prems, of "nf_Path nf"] that by auto
  next
    case False
    moreover have "cl_nodes cl = (cl_nodes cl)(addr \<mapsto> (dn, os))" using Cons.prems(1) by (simp add: fun_upd_idem)
    ultimately show ?thesis using that [of os] Cons.prems(2) by auto
  qed
  then have "cl_nodes ?cl addr = Some (dn, os1)" by simp
  from Cons.IH [OF this 1(2)] obtain os2 where 2:
    "cl_nodes (gc_loop addr ids cutoff nfs ?cl) = (cl_nodes ?cl)(addr \<mapsto> (dn, os2))" "node_ok dn os2"
    "\<forall>q. files os2 q = files os1 q \<or> to_delete dn ids cutoff nfs q \<and> files os2 q = None"
    by blast
  have "files os2 q = files os q \<or> to_delete dn ids cutoff (nf # nfs) q \<and> files os2 q = None" for q
    using 2(3)[rule_format, of q] 1(3) by (auto simp: to_delete_def)
  then show ?case using 1(1) 2(1,2) by (intro exI [of _ os2]) simp
qed

lemma gc_loop_exact:
  assumes "cl_nodes cl addr = Some (dn, os)" "node_ok dn os" "healthy os" "cl_net cl addr = []"
  shows "\<exists>os'. gc_loop addr ids cutoff nfs cl = cl\<lparr>cl_nodes := (cl_nodes cl)(addr \<mapsto> (dn, os'))\<rparr> \<and>
    (\<forall>q. files os' q = (if to_delete dn ids cutoff nfs q then None else files os q))"
  using assms
proof (induction nfs arbitrary: cl os)
  case Nil
  then have "(cl_nodes cl)(addr \<mapsto> (dn, os)) = cl_nodes cl" by (simp add: fun_upd_idem)
  then show ?case by (intro exI [of _ os]) (simp add: to_delete_def)
next
  case (Cons nf nfs)
  let ?p = "nf_Path nf"
  show ?case
  proof (cases "removable ids cutoff nf")
    case False
    then have "to_delete dn ids cutoff (nf # nfs) = to_delete dn ids cutoff nfs" by (auto simp: to_delete_def)
    then show ?thesis using Cons.IH [OF Cons.prems] False by simp
  next
    case True
    let ?os = "fst (DeleteData dn ?p os)"
    have reach: "reaches cl addr" using Cons.prems by (simp add: reaches_def)
    have cl: "fst (call_node addr (\<lambda>dn. DeleteData dn ?p) cl) = cl\<lparr>cl_nodes := (cl_nodes cl)(addr \<mapsto> (dn, ?os))\<rparr>"
      using call_working [OF reach Cons.prems(1), where f = "\<lambda>dn. DeleteData dn ?p" and os' = ?os
          and r = "snd (DeleteData dn ?p os)"] no_panic(1) [of dn ?p os] by simp
    have step: "healthy ?os \<and> files ?os =
        (if \<exists>r. resolvePath dn ?p = Inr r then (files os)(target dn ?p := None) else files os)"
    proof (cases "resolvePath dn ?p")
      case (Inl e)
      then show ?thesis using Cons.prems by (simp add: DeleteData_def)
    next
      case (Inr r)
      then show ?thesis using DeleteData_works [OF Cons.prems(2,3) Inr] by simp
    qed
    let ?cl = "cl\<lparr>cl_nodes := (cl_nodes cl)(addr \<mapsto> (dn, ?os))\<rparr>"
    have "cl_nodes ?cl addr = Some (dn, ?os)" "cl_net ?cl addr = []" using Cons.prems by simp_all
    from Cons.IH [OF this(1) DeleteData_node_ok [OF Cons.prems(2)] conjunct1 [OF step] this(2)]
    obtain os2 where "gc_loop addr ids cutoff nfs ?cl = ?cl\<lparr>cl_nodes := (cl_nodes ?cl)(addr \<mapsto> (dn, os2))\<rparr>"
      "\<forall>q. files os2 q = (if to_delete dn ids cutoff nfs q then None else files ?os q)" by blast
    moreover from this(2) step have
      "\<forall>q. files os2 q = (if to_delete dn ids cutoff (nf # nfs) q then None else files os q)"
      using True by (auto simp: to_delete_def split: if_splits)
    moreover from calculation(1) True cl have
      "gc_loop addr ids cutoff (nf # nfs) cl = cl\<lparr>cl_nodes := (cl_nodes cl)(addr \<mapsto> (dn, os2))\<rparr>"
      by simp
    ultimately show ?thesis by blast
  qed
qed

text \<open>What is to be deleted from an exact listing is what is orphaned.\<close>

lemma to_delete_orphan:
  assumes ready: "node_ready dn os" and run: "ListAllPaths dn os = (os', Inr nfs)"
  shows "to_delete dn ids cutoff nfs q \<longleftrightarrow> orphan dn (set ids) cutoff (os_files os) q"
proof -
  have ok: "node_ok dn os" "node (os_files os) (components (dataDir dn)) = Some DirNode"
    using ready by (simp_all add: node_ready_def)
  have mem: "nf \<in> set nfs \<longleftrightarrow> (\<exists>rest d t. rest \<noteq> [] \<and> list_all plain_name rest \<and>
      node (os_files os) (components (dataDir dn) @ rest) = Some (FileNode d t) \<and>
      \<not> HasSuffix (last rest) ''.tmp'' \<and> nf = \<lparr>nf_Path = join_path rest, nf_ModTime = t\<rparr>)" for nf
    by (rule ListAllPaths_files(2) [OF ok(1) run ok(2) refl])
  have plain: "rest \<noteq> [] \<and> list_all plain_name rest"
    if "node (os_files os) (components (dataDir dn) @ rest) = Some (FileNode d t)" for rest d t
  proof -
    have "list_all plain_name (components (dataDir dn) @ rest)"
      using ok(1) that unfolding node_ok_def names_ok_def by (metis option.distinct(1))
    then show ?thesis using that ok(2) by auto
  qed
  have rem: "removable ids cutoff \<lparr>nf_Path = join_path rest, nf_ModTime = t\<rparr> \<longleftrightarrow>
      t \<le> cutoff \<and> TrimPrefix (join_path rest) ''/data/'' \<notin> set ids - {''''}" for rest t
    by (auto simp: removable_def Let_def)
  show ?thesis
  proof
    assume "to_delete dn ids cutoff nfs q"
    then obtain nf where nf: "nf \<in> set nfs" "removable ids cutoff nf" "\<exists>r. resolvePath dn (nf_Path nf) = Inr r"
      "q = target dn (nf_Path nf)" unfolding to_delete_def by blast
    then obtain rest d t where r: "rest \<noteq> []" "list_all plain_name rest"
      "node (os_files os) (components (dataDir dn) @ rest) = Some (FileNode d t)" "\<not> HasSuffix (last rest) ''.tmp''"
      "removable ids cutoff \<lparr>nf_Path = join_path rest, nf_ModTime = t\<rparr>"
      "\<exists>r. resolvePath dn (join_path rest) = Inr r" "q = target dn (join_path rest)"
      using nf(1) unfolding mem by auto
    then have "q = components (dataDir dn) @ rest" by (simp add: target_def virtual_join_path)
    then show "orphan dn (set ids) cutoff (os_files os) q" using r rem unfolding orphan_def by blast
  next
    assume "orphan dn (set ids) cutoff (os_files os) q"
    then obtain rest d t where o: "q = components (dataDir dn) @ rest" "node (os_files os) q = Some (FileNode d t)"
      "\<not> HasSuffix (last rest) ''.tmp''" "t \<le> cutoff" "TrimPrefix (join_path rest) ''/data/'' \<notin> set ids - {''''}"
      "\<exists>r. resolvePath dn (join_path rest) = Inr r"
      unfolding orphan_def by blast
    note p = plain [OF o(2) [unfolded o(1)]]
    let ?nf = "\<lparr>nf_Path = join_path rest, nf_ModTime = t\<rparr>"
    have "?nf \<in> set nfs" unfolding mem using o(1,2,3) p by blast
    moreover have "q = target dn (join_path rest)" using o(1) p by (simp add: target_def virtual_join_path)
    ultimately show "to_delete dn ids cutoff nfs q"
      unfolding to_delete_def using rem o(4,5,6) by (intro bexI [of _ ?nf]) simp_all
  qed
qed

lemma collect_node_safe:
  assumes "cl_nodes cl addr = Some (dn, os)" "node_ready dn os"
  shows "\<exists>os'. cl_nodes (garbageCollectNode addr ids gcStart cl) = (cl_nodes cl)(addr \<mapsto> (dn, os')) \<and> node_ok dn os' \<and>
    (\<forall>q. files os' q = files os q \<or>
       orphan dn (set ids) (gcStart - gcSafetyWindow) (os_files os) q \<and> files os' q = None)"
proof -
  have same: "cl_nodes cl = (cl_nodes cl)(addr \<mapsto> (dn, os))" using assms(1) by (simp add: fun_upd_idem)
  have ok: "node_ok dn os" using assms(2) by (simp add: node_ready_def)
  obtain cl1 d where 1: "dial_node addr cl = (cl1, d)" by fastforce
  note n1 = dial_node_nodes [OF 1]
  obtain cl2 r where 2: "call_node addr ListAllPaths cl1 = (cl2, r)" by fastforce
  obtain os1 lr where 3: "ListAllPaths dn os = (os1, lr)" by fastforce
  have f1: "os_files os1 = os_files os" using reads_keep_files(2) [of dn os] 3 by simp
  have n2: "\<exists>os2. cl_nodes cl2 = (cl_nodes cl)(addr \<mapsto> (dn, os2)) \<and> os_files os2 = os_files os \<and>
      (\<forall>x. r = Inr x \<longrightarrow> lr = Inr x)"
    using call_node_effect [OF 2, of dn os] n1 assms(1) no_panic(2) [of dn os] 3 f1 same by auto
  then obtain os2 where os2: "cl_nodes cl2 = (cl_nodes cl)(addr \<mapsto> (dn, os2))" "os_files os2 = os_files os"
    "\<And>x. r = Inr x \<Longrightarrow> lr = Inr x" by blast
  show ?thesis
  proof (cases "\<exists>nfs. d = None \<and> r = Inr nfs")
    case False
    then have "garbageCollectNode addr ids gcStart cl = (if d = None then cl2 else cl1)"
      using 1 2 by (auto simp: garbageCollectNode_def split: option.split sum.split)
    then show ?thesis using os2(1,2) n1 same ok by (cases "d = None") (auto simp: node_ok_def)
  next
    case True
    then obtain nfs where nfs: "d = None" "r = Inr nfs" by blast
    then have gc: "garbageCollectNode addr ids gcStart cl = gc_loop addr ids (gcStart - gcSafetyWindow) nfs cl2"
      using 1 2 by (simp add: garbageCollectNode_def)
    have "cl_nodes cl2 addr = Some (dn, os2)" "node_ok dn os2" using os2 ok by (simp_all add: node_ok_def)
    from gc_loop_safe [OF this, of ids "gcStart - gcSafetyWindow" nfs] obtain os3 where 4:
      "cl_nodes (gc_loop addr ids (gcStart - gcSafetyWindow) nfs cl2) = (cl_nodes cl2)(addr \<mapsto> (dn, os3))"
      "node_ok dn os3"
      "\<forall>q. files os3 q = files os2 q \<or> to_delete dn ids (gcStart - gcSafetyWindow) nfs q \<and> files os3 q = None"
      by blast
    have "to_delete dn ids (gcStart - gcSafetyWindow) nfs q \<longleftrightarrow>
        orphan dn (set ids) (gcStart - gcSafetyWindow) (os_files os) q" for q
      using to_delete_orphan [OF assms(2)] 3 os2(3) nfs(2) by blast
    then show ?thesis using gc os2 4 by (intro exI [of _ os3]) auto
  qed
qed

lemma collect_node_exact:
  assumes "cl_nodes cl addr = Some (dn, os)" "node_ready dn os" "healthy os" "cl_net cl addr = []"
  shows "\<exists>os'. garbageCollectNode addr ids gcStart cl = cl\<lparr>cl_nodes := (cl_nodes cl)(addr \<mapsto> (dn, os'))\<rparr> \<and>
    (\<forall>q. files os' q =
       (if orphan dn (set ids) (gcStart - gcSafetyWindow) (os_files os) q then None else files os q))"
proof -
  have ok: "node_ok dn os" "node (os_files os) (components (dataDir dn)) = Some DirNode"
    using assms(2) by (simp_all add: node_ready_def)
  have reach: "reaches cl addr" using assms(1,4) by (simp add: reaches_def)
  have p: "os_path (dataDir dn) = components (dataDir dn)" using ok(1) by (simp add: os_path_plain dn_ok_def node_ok_def)
  have "stat_path (os_files os) (components (dataDir dn)) = Inr DirNode"
    using stat_node ok by (simp add: node_ok_def)
  then obtain nfs where l: "ListAllPaths dn os = (os, Inr nfs)"
    using assms(3) by (auto simp: ListAllPaths_def os_Walk_def p Let_def)
  have same: "(cl_nodes cl)(addr \<mapsto> (dn, os)) = cl_nodes cl" using assms(1) by (simp add: fun_upd_idem)
  have "call_node addr ListAllPaths cl = (cl, Inr nfs)"
    using call_working [where f = ListAllPaths, OF reach assms(1) l] same by simp
  then have "garbageCollectNode addr ids gcStart cl = gc_loop addr ids (gcStart - gcSafetyWindow) nfs cl"
    using dial_working [OF reach] by (simp add: garbageCollectNode_def)
  then show ?thesis
    using gc_loop_exact [OF assms(1) ok(1) assms(3,4), of ids "gcStart - gcSafetyWindow" nfs]
      to_delete_orphan [OF assms(2) l] by simp
qed

subsection \<open>All nodes\<close>

lemma gc_loop_frame:
  "a \<noteq> addr \<Longrightarrow> cl_nodes (gc_loop addr ids cutoff nfs cl) a = cl_nodes cl a \<and> cl_net (gc_loop addr ids cutoff nfs cl) a = cl_net cl a"
  by (induction nfs arbitrary: cl) (auto simp: call_node_frame)

lemma collect_node_other:
  assumes "a \<noteq> addr"
  shows "cl_nodes (garbageCollectNode addr ids gcStart cl) a = cl_nodes cl a \<and>
    cl_net (garbageCollectNode addr ids gcStart cl) a = cl_net cl a"
  using dial_node_frame [OF assms, of cl] call_node_frame [OF assms, of ListAllPaths "fst (dial_node addr cl)"]
    gc_loop_frame [OF assms]
  by (auto simp: garbageCollectNode_def split: prod.split option.split sum.split)

lemma collect_all_other:
  "a \<notin> set addrs \<Longrightarrow> cl_nodes (fold (\<lambda>addr. garbageCollectNode addr ids gcStart) addrs cl) a = cl_nodes cl a \<and>
     cl_net (fold (\<lambda>addr. garbageCollectNode addr ids gcStart) addrs cl) a = cl_net cl a"
  using collect_node_other by (induction addrs arbitrary: cl) auto

lemma collect_all_safe:
  assumes "distinct addrs" "cl_nodes cl addr = Some (dn, os)" "node_ready dn os"
  shows "\<exists>os'. cl_nodes (fold (\<lambda>addr. garbageCollectNode addr ids gcStart) addrs cl) addr = Some (dn, os') \<and>
    node_ok dn os' \<and> (\<forall>q. files os' q = files os q \<or>
       orphan dn (set ids) (gcStart - gcSafetyWindow) (os_files os) q \<and> files os' q = None)"
  using assms(1,2)
proof (induction addrs arbitrary: cl)
  case Nil
  then show ?case using assms(3) by (auto simp: node_ready_def)
next
  case (Cons a addrs)
  show ?case
  proof (cases "a = addr")
    case True
    then show ?thesis
      using collect_node_safe [OF Cons.prems(2) assms(3), of ids gcStart] Cons.prems(1)
        collect_all_other [of addr addrs ids gcStart "garbageCollectNode a ids gcStart cl"] by auto
  next
    case False
    then have "cl_nodes (garbageCollectNode a ids gcStart cl) addr = Some (dn, os)"
      using collect_node_other [of addr a ids gcStart cl] Cons.prems(2) by simp
    from Cons.IH [OF _ this] Cons.prems(1) show ?thesis by simp
  qed
qed

lemma collect_all_exact:
  assumes "distinct addrs" "addr \<in> set addrs" "cl_nodes cl addr = Some (dn, os)" "node_ready dn os" "healthy os"
    "cl_net cl addr = []"
  shows "\<exists>os'. cl_nodes (fold (\<lambda>addr. garbageCollectNode addr ids gcStart) addrs cl) addr = Some (dn, os') \<and>
    (\<forall>q. files os' q =
       (if orphan dn (set ids) (gcStart - gcSafetyWindow) (os_files os) q then None else files os q))"
  using assms(1,2,3,6)
proof (induction addrs arbitrary: cl)
  case (Cons a addrs)
  show ?case
  proof (cases "a = addr")
    case True
    then obtain os' where "garbageCollectNode a ids gcStart cl = cl\<lparr>cl_nodes := (cl_nodes cl)(addr \<mapsto> (dn, os'))\<rparr>"
      "\<forall>q. files os' q = (if orphan dn (set ids) (gcStart - gcSafetyWindow) (os_files os) q then None else files os q)"
      using collect_node_exact [OF Cons.prems(3) assms(4,5) Cons.prems(4), of ids gcStart] by blast
    then show ?thesis
      using Cons.prems(1) True collect_all_other [of addr addrs ids gcStart "garbageCollectNode a ids gcStart cl"]
      by (intro exI [of _ os']) simp
  next
    case False
    then have "cl_nodes (garbageCollectNode a ids gcStart cl) addr = Some (dn, os)"
      "cl_net (garbageCollectNode a ids gcStart cl) addr = []"
      using collect_node_other [of addr a ids gcStart cl] Cons.prems by simp_all
    from Cons.IH [OF _ _ this] Cons.prems(1,2) False show ?thesis by simp
  qed
qed simp

lemma data_path: "plain_name fid \<Longrightarrow> join_path [''data'', fid] = ''/data/'' @ fid \<and> virtual (''/data/'' @ fid) = [''data'', fid]"
proof -
  assume f: "plain_name fid"
  have j: "join_path [''data'', fid] = ''/data/'' @ fid" by (simp add: join_path_def)
  have "plain_name ''data''" by code_simp
  then have "virtual (join_path [''data'', fid]) = [''data'', fid]" using f by (intro virtual_join_path) simp
  then show ?thesis by (simp add: j)
qed

lemma referenced_not_orphan:
  assumes "fid \<in> used" "fid \<noteq> ''''" "plain_name fid"
  shows "\<not> orphan dn used cutoff fs (target dn (''/data/'' @ fid))"
proof
  assume "orphan dn used cutoff fs (target dn (''/data/'' @ fid))"
  then obtain rest where "components (dataDir dn) @ virtual (''/data/'' @ fid) = components (dataDir dn) @ rest"
    "TrimPrefix (join_path rest) ''/data/'' \<notin> used - {''''}"
    unfolding orphan_def target_def by blast
  then have "TrimPrefix (''/data/'' @ fid) ''/data/'' \<notin> used - {''''}" using data_path [OF assms(3)] by simp
  then show False using assms(1,2) unfolding TrimPrefix_append by simp
qed

lemma orphan_cong: "used - {''''} = used' - {''''} \<Longrightarrow> orphan dn used = orphan dn used'"
  by (intro ext) (simp add: orphan_def)

lemma runGC_ids:
  assumes "raft_contract rf" "reachable mds"
  shows "\<exists>ids. reachable (checkDataNodeHealth rf now mds) \<and> distinct (dataNodes (checkDataNodeHealth rf now mds)) \<and>
    runGC rf gcStart now (mds, cl) = Some (checkDataNodeHealth rf now mds,
      fold (\<lambda>addr. garbageCollectNode addr ids gcStart) (dataNodes (checkDataNodeHealth rf now mds)) cl) \<and>
    (\<forall>dn. orphan dn (set ids) = orphan dn (used_ids (mds_view (checkDataNodeHealth rf now mds))))"
proof -
  let ?m = "checkDataNodeHealth rf now mds"
  have r: "reachable ?m" by (rule checkDataNodeHealth_reachable [OF assms])
  then have inv: "mds_inv ?m" by (rule reachable_inv)
  obtain ids where i: "collectValidFileIDs ?m = Some ids" "set ids = used_ids (mds_view ?m) - {''''}"
    using collect_used [OF inv] by blast
  have "orphan dn (set ids) = orphan dn (used_ids (mds_view ?m))" for dn by (rule orphan_cong) (simp add: i(2))
  moreover have "distinct (dataNodes ?m)" using inv by (simp add: mds_inv_def)
  ultimately show ?thesis using r i(1) by (auto simp: runGC_def Let_def)
qed

subsection \<open>The properties\<close>

text \<open>C34. The traversal of the tree ends and finds every FileID: in each reachable state the fuel
  suffices, and the collected set is exactly the set of non-empty FileIDs of the files in the tree.\<close>

theorem collects_all_FileIDs:
  assumes "reachable mds"
  shows "\<exists>ids. collectValidFileIDs mds = Some ids \<and> set ids = used_ids (mds_view mds) - {''''}"
  by (rule collect_used [OF reachable_inv [OF assms]])

theorem collects_all_FileIDs_witness:
  "\<exists>ids. collectValidFileIDs sample_tree = Some ids \<and> set ids = used_ids (mds_view sample_tree) - {''''}"
  by (rule collects_all_FileIDs [OF sample_tree_reachable])

text \<open>C31. A cycle never deletes what it must not: whatever faults the network and the disks have and
  whatever Raft applies meanwhile, it ends, and a file that is gone afterwards was an orphan: its
  name is no FileID of the tree and it is older than the safety window. The data of every file
  of the tree at the path of its FileID are untouched.\<close>

theorem runGC_deletes_only_orphans:
  assumes "raft_contract rf" "reachable mds" "cluster_ok cl"
  shows "\<exists>mds' cl'. runGC rf gcStart now (mds, cl) = Some (mds', cl') \<and> reachable mds' \<and>
    (\<forall>addr dn os. cl_nodes cl addr = Some (dn, os) \<longrightarrow>
       (\<exists>os'. cl_nodes cl' addr = Some (dn, os') \<and> node_ok dn os' \<and>
          (\<forall>q. files os' q = files os q \<or> files os' q = None \<and>
             orphan dn (used_ids (mds_view mds')) (gcStart - gcSafetyWindow) (os_files os) q) \<and>
          (\<forall>fid \<in> used_ids (mds_view mds'). fid \<noteq> '''' \<longrightarrow> plain_name fid \<longrightarrow>
             files os' (target dn (''/data/'' @ fid)) = files os (target dn (''/data/'' @ fid)))))"
proof -
  let ?m = "checkDataNodeHealth rf now mds"
  obtain ids where st: "reachable ?m" "distinct (dataNodes ?m)"
    "runGC rf gcStart now (mds, cl) = Some (?m, fold (\<lambda>addr. garbageCollectNode addr ids gcStart) (dataNodes ?m) cl)"
    "\<And>dn. orphan dn (set ids) = orphan dn (used_ids (mds_view ?m))"
    using runGC_ids [OF assms(1,2)] by blast
  let ?cl = "fold (\<lambda>addr. garbageCollectNode addr ids gcStart) (dataNodes ?m) cl"
  have "\<exists>os'. cl_nodes ?cl addr = Some (dn, os') \<and> node_ok dn os' \<and>
      (\<forall>q. files os' q = files os q \<or> files os' q = None \<and>
         orphan dn (used_ids (mds_view ?m)) (gcStart - gcSafetyWindow) (os_files os) q) \<and>
      (\<forall>fid \<in> used_ids (mds_view ?m). fid \<noteq> '''' \<longrightarrow> plain_name fid \<longrightarrow>
         files os' (target dn (''/data/'' @ fid)) = files os (target dn (''/data/'' @ fid)))"
    if n: "cl_nodes cl addr = Some (dn, os)" for addr dn os
  proof -
    have "node_ready dn os" using assms(3) n unfolding cluster_ok_def by blast
    from collect_all_safe [OF st(2) n this, of ids gcStart] st(4) referenced_not_orphan
    show ?thesis by (auto 0 4)
  qed
  then show ?thesis using st(1,3) by blast
qed

text \<open>C32. A cycle deletes all it should: on a registered data node that answers and whose disk is
  healthy, exactly the orphans are gone afterwards.\<close>

theorem runGC_deletes_all_orphans:
  assumes "raft_contract rf" "reachable mds" "runGC rf gcStart now (mds, cl) = Some (mds', cl')"
    and "addr \<in> set (dataNodes mds')" "cl_nodes cl addr = Some (dn, os)" "node_ready dn os" "healthy os"
    and "cl_net cl addr = []"
  shows "\<exists>os'. cl_nodes cl' addr = Some (dn, os') \<and> (\<forall>q. files os' q =
    (if orphan dn (used_ids (mds_view mds')) (gcStart - gcSafetyWindow) (os_files os) q then None else files os q))"
proof -
  let ?m = "checkDataNodeHealth rf now mds"
  obtain ids where st: "distinct (dataNodes ?m)"
    "runGC rf gcStart now (mds, cl) = Some (?m, fold (\<lambda>addr. garbageCollectNode addr ids gcStart) (dataNodes ?m) cl)"
    "\<And>dn. orphan dn (set ids) = orphan dn (used_ids (mds_view ?m))"
    using runGC_ids [OF assms(1,2)] by blast
  then have m: "mds' = ?m" "cl' = fold (\<lambda>addr. garbageCollectNode addr ids gcStart) (dataNodes ?m) cl"
    using assms(3) by simp_all
  show ?thesis
    using collect_all_exact [OF st(1) assms(4) [unfolded m(1)] assms(5-8), of ids gcStart] st(3) m by simp
qed

text \<open>C33. The health check removes exactly the data nodes whose last heartbeat is more than ten
  minutes old, on a server that applies its commands at once, and leaves the tree alone.\<close>

theorem dead_nodes_removed:
  assumes "mds_inv mds" "list_all utf8_ok (dataNodes mds)" "mds' = checkDataNodeHealth (local_node t) now mds"
  shows "mds_view mds' = mds_view mds \<and> dataNodes mds' =
    filter (\<lambda>a. \<exists>last. map_get (lastHeartbeat mds) a = Some last \<and> now - heartbeatTimeout \<le> last) (dataNodes mds)"
proof -
  have inv: "distinct (dataNodes mds)" "map_ok (lastHeartbeat mds)"
    "set (dataNodes mds) = dom (map_get (lastHeartbeat mds))" using assms(1) by (simp_all add: mds_inv_def)
  have mem: "(a, u) \<in> set (lastHeartbeat mds) \<longleftrightarrow> map_get (lastHeartbeat mds) a = Some u" for a u
    using inv(2) by simp
  have dead: "(a, u) \<in> set (deadNodes now mds) \<longleftrightarrow> map_get (lastHeartbeat mds) a = Some u \<and> u < now - heartbeatTimeout"
    for a u by (auto simp: deadNodes_def Let_def mem)
  have "a \<in> set (dataNodes mds)" if "map_get (lastHeartbeat mds) a = Some u" for a u
    using that inv(3) by auto
  then have u: "list_all (\<lambda>(a, t). utf8_ok a) (deadNodes now mds)"
    using assms(2) dead by (auto simp: list_all_iff)
  have img: "a \<in> fst ` set (deadNodes now mds) \<longleftrightarrow>
      (\<exists>u. map_get (lastHeartbeat mds) a = Some u \<and> u < now - heartbeatTimeout)" for a
    using dead by (auto simp: image_iff) force
  have "filter (\<lambda>a. a \<notin> fst ` set (deadNodes now mds)) (dataNodes mds) =
      filter (\<lambda>a. \<exists>last. map_get (lastHeartbeat mds) a = Some last \<and> now - heartbeatTimeout \<le> last) (dataNodes mds)"
    using inv(3) by (intro filter_cong refl) (auto simp: img)
  then show ?thesis
    using remove_all_local [OF u inv(1), of t] assms(3) by (simp add: checkDataNodeHealth_def)
qed

subsection \<open>A cycle on the sample cluster\<close>

text \<open>One data node with the data of the file and an orphan; the cycle runs 100 seconds later.\<close>

definition two_os :: os_state where
  "two_os = fst (StoreData sample_dn \<lparr>st_Path = ''/data/i2'', st_Content = [9]\<rparr> stored_os)"

definition sample_cluster :: cluster where
  "sample_cluster = \<lparr>cl_nodes = (\<lambda>a. if a = ''n1'' then Some (sample_dn, two_os) else None), cl_net = (\<lambda>a. [])\<rparr>"

lemma two_os_ready: "node_ready sample_dn two_os"
proof -
  have "serving sample_dn stored_os two_os"
    unfolding two_os_def by (rule serving.store [OF serving.start])
  then have "node_ok sample_dn two_os" using serving_kept stored_os_ok by (auto simp: kept_def)
  moreover have "node (os_files two_os) (components (dataDir sample_dn)) = Some DirNode" by code_simp
  ultimately show ?thesis by (simp add: node_ready_def)
qed

lemma sample_cluster_ok: "cluster_ok sample_cluster"
  using two_os_ready by (auto simp: cluster_ok_def sample_cluster_def split: if_splits)

theorem runGC_deletes_only_orphans_witness:
  "\<exists>mds' cl' os'. runGC (local_node 5) (10 ^ 11) (10 ^ 11) (sample_nodes, sample_cluster) = Some (mds', cl') \<and>
     cl_nodes cl' ''n1'' = Some (sample_dn, os') \<and> node_ok sample_dn os'"
proof -
  have n: "cl_nodes sample_cluster ''n1'' = Some (sample_dn, two_os)" by (simp add: sample_cluster_def)
  show ?thesis
    using runGC_deletes_only_orphans [OF local_node_contract sample_nodes_reachable sample_cluster_ok,
        of 5 "10 ^ 11" "10 ^ 11"] n by blast
qed

lemma sample_cycle:
  "map_option (\<lambda>(mds, cl). dataNodes mds) (runGC (local_node 5) (10 ^ 11) (10 ^ 11) (sample_nodes, sample_cluster)) = Some [''n1'', ''n2'']"
  by code_simp

theorem runGC_deletes_all_orphans_witness:
  "\<exists>(cl' :: cluster) os'. cl_nodes cl' ''n1'' = Some (sample_dn, os') \<and> files os' [''var'', ''dn'', ''data'', ''i2''] = None"
proof -
  obtain mds' cl' where run: "runGC (local_node 5) (10 ^ 11) (10 ^ 11) (sample_nodes, sample_cluster) = Some (mds', cl')"
    "dataNodes mds' = [''n1'', ''n2'']"
    using sample_cycle by auto
  have n: "cl_nodes sample_cluster ''n1'' = Some (sample_dn, two_os)" "cl_net sample_cluster ''n1'' = []"
    by (simp_all add: sample_cluster_def)
  have h: "healthy two_os" by code_simp
  have m: "mds' = checkDataNodeHealth (local_node 5) (10 ^ 11) sample_nodes"
    using run(1) by (auto simp: runGC_def Let_def split: option.splits)
  have ids: "collectValidFileIDs (checkDataNodeHealth (local_node 5) (10 ^ 11) sample_nodes) = Some [''i1'']" by code_simp
  have "reachable mds'" unfolding m by (rule checkDataNodeHealth_reachable [OF local_node_contract sample_nodes_reachable])
  then have u: "used_ids (mds_view mds') - {''''} = {''i1''}"
    using collect_used [OF reachable_inv, of mds'] ids m by auto
  have f: "node (os_files two_os) [''var'', ''dn'', ''data'', ''i2''] = Some (FileNode [9] 7)"
    "components (dataDir sample_dn) = [''var'', ''dn'']" "\<not> HasSuffix (last [''data'', ''i2'']) ''.tmp''"
    "(7 :: time) \<le> 10 ^ 11 - gcSafetyWindow" "TrimPrefix (join_path [''data'', ''i2'']) ''/data/'' = ''i2''"
    "resolvePath sample_dn (join_path [''data'', ''i2'']) = Inr ''/var/dn/data/i2''"
    by code_simp+
  let ?q = "[''var'', ''dn'', ''data'', ''i2'']"
  have orph: "orphan sample_dn (used_ids (mds_view mds')) (10 ^ 11 - gcSafetyWindow) (os_files two_os) ?q"
    unfolding orphan_def u using f by (intro exI [of _ "[''data'', ''i2'']"] exI [of _ "[9]"] exI [of _ 7]) simp
  have a: "''n1'' \<in> set (dataNodes mds')" using run(2) by simp
  obtain os' where o: "cl_nodes cl' ''n1'' = Some (sample_dn, os')" "\<forall>q. files os' q =
      (if orphan sample_dn (used_ids (mds_view mds')) (10 ^ 11 - gcSafetyWindow) (os_files two_os) q
       then None else files two_os q)"
    using runGC_deletes_all_orphans [OF local_node_contract sample_nodes_reachable run(1) a n(1) two_os_ready h n(2)]
    by blast
  from o(2) have "files os' ?q = None" by (rule allE [of _ ?q]) (simp only: orph if_True)
  with o(1) show ?thesis by blast
qed

theorem dead_nodes_removed_witness:
  "dataNodes (checkDataNodeHealth (local_node 5) (heartbeatTimeout + 4) sample_nodes) = [''n2'']"
proof -
  have l: "list_all utf8_ok (dataNodes sample_nodes)" unfolding sample_nodes_registry by (rule sample_nodes_utf8(3))
  have h: "map_get (lastHeartbeat sample_nodes) ''n1'' = Some 3" "map_get (lastHeartbeat sample_nodes) ''n2'' = Some 4"
    by code_simp+
  show ?thesis
    using dead_nodes_removed [OF sample_nodes_inv l refl, of 5 "heartbeatTimeout + 4"] h
    by (simp add: sample_nodes_registry)
qed

subsection \<open>Garbage collection after an overwrite\<close>

text \<open>The file is overwritten, its new data stored where \<open>CreateFile\<close> said, and completed.\<close>

definition sample_overwrite :: CreateFileArgs where
  "sample_overwrite = \<lparr>cf_Path = ''/d/f'', cf_Size = 9, cf_CreateMode = OverwriteIfExists\<rparr>"

definition overwritten :: MetadataServer where
  "overwritten = fst (CompleteFile (local_node 6) ''/d/f''
     (fst (CreateFile (local_node 5) (Inr [1, 2]) sample_overwrite sample_nodes)))"

definition overwritten_cluster :: cluster where
  "overwritten_cluster = fst (dial_call ''n1'' (\<lambda>dn. StoreData dn \<lparr>st_Path = ''/data/0102'', st_Content = [4, 4]\<rparr>) sample_cluster)"

text \<open>The same on one state, step by step: after an overwrite the new data lie under the FileID of the
  second \<open>CreateFile\<close> while the tree holds the first, so a cycle more than thirty seconds later
  deletes the only copy of a complete file.\<close>

theorem gc_deletes_overwritten_data:
  "map_sum id fl_Status (GetFileLocation overwritten ''/d/f'') = Inr StatusComplete \<and>
   \<lparr>Addr = ''n1'', RemotePath = ''/data/0102''\<rparr> \<in> set (case GetFileLocation overwritten ''/d/f'' of Inr l \<Rightarrow> fl_Replicas l | Inl e \<Rightarrow> []) \<and>
   snd (dial_call ''n1'' (\<lambda>dn. GetData dn ''/data/0102'') overwritten_cluster) = Inr [4, 4] \<and>
   map_option (\<lambda>(mds, cl). snd (dial_call ''n1'' (\<lambda>dn. GetData dn ''/data/0102'') cl))
     (runGC (local_node 7) (10 ^ 11) (10 ^ 11) (overwritten, overwritten_cluster)) =
     Some (Inl (NodeError (DnNotFound ''/data/0102'')))"
proof (intro conjI)
  show "map_sum id fl_Status (GetFileLocation overwritten ''/d/f'') = Inr StatusComplete" by code_simp
  show "\<lparr>Addr = ''n1'', RemotePath = ''/data/0102''\<rparr> \<in>
      set (case GetFileLocation overwritten ''/d/f'' of Inr l \<Rightarrow> fl_Replicas l | Inl e \<Rightarrow> [])" by code_simp
  show "snd (dial_call ''n1'' (\<lambda>dn. GetData dn ''/data/0102'') overwritten_cluster) = Inr [4, 4]" by code_simp
  show "map_option (\<lambda>(mds, cl). snd (dial_call ''n1'' (\<lambda>dn. GetData dn ''/data/0102'') cl))
      (runGC (local_node 7) (10 ^ 11) (10 ^ 11) (overwritten, overwritten_cluster)) =
      Some (Inl (NodeError (DnNotFound ''/data/0102'')))" by code_simp
qed

end
