(* ===== verification/Client_World.thy ===== *)
theory Client_World
  imports Orphan_GC
begin

section \<open>What a client talks to\<close>

text \<open>
  A client process (\<open>internal/client/client.go\<close>) reaches metadata servers and data nodes over
  the network and reads and writes files of its own machine. \<open>world\<close> holds the metadata servers
  by address, each with its Raft state, the data nodes, the network faults of both, the local
  disk, the random numbers the servers will draw, and the clock. Errors are strings, because the
  client parses the text of an error to find the leader.
\<close>

record world =
  w_mds :: "string \<Rightarrow> (raft_node \<times> MetadataServer) option"
  w_mdsnet :: "string \<Rightarrow> net_fault list"
  w_cluster :: cluster
  w_local :: os_state
  w_rand :: "(string + byte list) list"
  w_clock :: time

type_synonym 'a client_result = "world \<times> (string + 'a)"

subsection \<open>Error texts\<close>

text \<open>The system part of the error texts; \<open>os.PathError\<close> puts the operation and path before it.\<close>

fun os_error_text :: "os_error \<Rightarrow> string" where
  "os_error_text ENOENT = ''no such file or directory''"
| "os_error_text ENOTDIR = ''not a directory''"
| "os_error_text EISDIR = ''is a directory''"
| "os_error_text ENOTEMPTY = ''directory not empty''"
| "os_error_text EINVAL = ''invalid argument''"
| "os_error_text EFBIG = ''file too large''"
| "os_error_text EIO = ''input/output error''"
| "os_error_text ENegOffset = ''negative offset''"

fun dn_error_text :: "dn_error \<Rightarrow> string" where
  "dn_error_text (DnInvalidPath p) = ''invalid path: '' @ p"
| "dn_error_text (DnCreateDataDir e) = ''failed to create data dir: '' @ os_error_text e"
| "dn_error_text (DnCreateParent e) = ''failed to create parent dir: '' @ os_error_text e"
| "dn_error_text (DnWrite e) = ''failed to write data: '' @ os_error_text e"
| "dn_error_text (DnRename e) = ''failed to rename temp file: '' @ os_error_text e"
| "dn_error_text (DnNotFound p) = ''data not found: '' @ p"
| "dn_error_text (DnRead e) = ''failed to read data: '' @ os_error_text e"
| "dn_error_text (DnDelete e) = ''failed to delete data: '' @ os_error_text e"
| "dn_error_text (DnWalk e) = ''walk data dir failed: '' @ os_error_text e"
| "dn_error_text (DnOpen e) = ''failed to open data: '' @ os_error_text e"
| "dn_error_text (DnReadRange e) = ''failed to read range: '' @ os_error_text e"
| "dn_error_text (DnOpenWrite e) = ''failed to open data for write: '' @ os_error_text e"
| "dn_error_text (DnWriteRange e) = ''failed to write range: '' @ os_error_text e"
| "dn_error_text (DnShortWrite n m) = ''partial write short: wrote '' @ Itoa n @ '', expected '' @ Itoa m"
| "dn_error_text (DnTruncate e) = ''failed to truncate data: '' @ os_error_text e"
| "dn_error_text (DnOpenSync e) = ''failed to open data for sync: '' @ os_error_text e"
| "dn_error_text (DnSync e) = ''failed to sync data: '' @ os_error_text e"
| "dn_error_text DnPanic = ''''"

fun call_error_text :: "call_error \<Rightarrow> string" where
  "call_error_text (NoConnection e) = e"
| "call_error_text (NodeError e) = dn_error_text e"

text \<open>\<open>%w\<close> of an error that may be nil.\<close>

fun wrapped :: "string option \<Rightarrow> string" where
  "wrapped (Some e) = e"
| "wrapped None = ''%!w(<nil>)''"

subsection \<open>Calling a metadata server\<close>

text \<open>
  The methods of the service as the network sees them: each runs on the server's state and may
  use what the server can reach.
\<close>

type_synonym 'a mds_method = "raft_node \<Rightarrow> MetadataServer \<Rightarrow> world \<Rightarrow> world \<times> MetadataServer \<times> 'a reply"

definition write_method :: "(raft_node \<Rightarrow> MetadataServer \<Rightarrow> MetadataServer \<times> 'a reply) \<Rightarrow> 'a mds_method" where
  "write_method f rf mds w = (case f rf mds of (mds, r) \<Rightarrow> (w, mds, r))"

definition read_method :: "(MetadataServer \<Rightarrow> 'a reply) \<Rightarrow> 'a mds_method" where
  "read_method f rf mds w = (w, mds, f mds)"

definition draw_rand :: "world \<Rightarrow> world \<times> (string + byte list)" where
  "draw_rand w = (case w_rand w of [] \<Rightarrow> (w, Inl ''EOF'') | r # rs \<Rightarrow> (w\<lparr>w_rand := rs\<rparr>, r))"

definition create_method :: "CreateFileArgs \<Rightarrow> CreateFileReply mds_method" where
  "create_method args rf mds w =
     (let (w, rnd) = draw_rand w; (mds, r) = CreateFile rf rnd args mds in (w, mds, r))"

definition gc_method :: "bool mds_method" where
  "gc_method rf mds w =
     (case TriggerGC rf (w_clock w) (w_clock w) (mds, w_cluster w) of
        (Some (mds, cl), r) \<Rightarrow> (w\<lparr>w_cluster := cl\<rparr>, mds, r)
      | (None, r) \<Rightarrow> (w, mds, r))"

definition dial_mds :: "string \<Rightarrow> world \<Rightarrow> world \<times> string option" where
  "dial_mds addr w =
     (let (net, f) = draw_net addr (w_mdsnet w); w' = w\<lparr>w_mdsnet := net\<rparr> in
      if w_mds w addr = None then (w', Some (refused addr)) else (w', fault_text f))"

definition call_mds :: "string \<Rightarrow> 'a mds_method \<Rightarrow> world \<Rightarrow> 'a client_result" where
  "call_mds addr m w =
     (let (net, flt) = draw_net addr (w_mdsnet w); w = w\<lparr>w_mdsnet := net\<rparr> in
      case w_mds w addr of
        None \<Rightarrow> (w, Inl ''connection is shut down'')
      | Some (rf, mds) \<Rightarrow>
          (case flt of
             DialFail e \<Rightarrow> (w, Inl e)
           | RequestLost e \<Rightarrow> (w, Inl e)
           | _ \<Rightarrow>
               (case m rf mds w of
                  (w, mds, r) \<Rightarrow>
                    (w\<lparr>w_mds := (w_mds w)(addr \<mapsto> (rf, mds))\<rparr>,
                     case fault_text flt of Some e \<Rightarrow> Inl e | None \<Rightarrow> map_sum error_text id r))))"

subsection \<open>Following the leader\<close>

definition redirect_prefix :: string where
  "redirect_prefix = ''not leader, redirect to ''"

definition extractLeaderAddr :: "string \<Rightarrow> string" where
  "extractLeaderAddr errMsg =
     (case Index errMsg redirect_prefix of
        Some idx \<Rightarrow> TrimSpace (drop (idx + length redirect_prefix) errMsg)
      | None \<Rightarrow> '''')"

text \<open>\<open>datanode.go\<close> has a copy of its own.\<close>

definition dn_extractLeaderAddr :: "string \<Rightarrow> string" where
  "dn_extractLeaderAddr errMsg =
     (let pre = ''not leader, redirect to '' in
      case Index errMsg pre of
        Some idx \<Rightarrow> TrimSpace (drop (idx + length pre) errMsg)
      | None \<Rightarrow> '''')"

lemma dn_extractLeaderAddr [simp]: "dn_extractLeaderAddr = extractLeaderAddr"
  by (rule ext) (simp add: dn_extractLeaderAddr_def extractLeaderAddr_def redirect_prefix_def Let_def split: option.split)

text \<open>The client and the heartbeat of a data node both try at most three servers.\<close>

fun redirect_loop :: "nat \<Rightarrow> string \<Rightarrow> 'a mds_method \<Rightarrow> string \<Rightarrow> world \<Rightarrow> 'a client_result" where
  "redirect_loop 0 method m addr w = (w, Inl (''redirect retries exhausted for method '' @ method))"
| "redirect_loop (Suc retries) method m addr w =
     (case dial_mds addr w of
        (w, Some e) \<Rightarrow> (w, Inl (''cannot connect to metadata server at '' @ addr @ '': '' @ e))
      | (w, None) \<Rightarrow>
          (case call_mds addr m w of
             (w, Inr r) \<Rightarrow> (w, Inr r)
           | (w, Inl err) \<Rightarrow>
               (let leader = extractLeaderAddr err in
                if leader \<noteq> '''' \<and> leader \<noteq> addr then redirect_loop retries method m leader w
                else (w, Inl err))))"

fun heartbeat_loop :: "nat \<Rightarrow> DataNode \<Rightarrow> string \<Rightarrow> world \<Rightarrow> world" where
  "heartbeat_loop 0 dn addr w = w"
| "heartbeat_loop (Suc retries) dn addr w =
     (case dial_mds addr w of
        (w, Some e) \<Rightarrow> w
      | (w, None) \<Rightarrow>
          (case call_mds addr (write_method (\<lambda>rf. Heartbeat rf (dn_addr dn))) w of
             (w, Inr r) \<Rightarrow> w
           | (w, Inl err) \<Rightarrow>
               (let leader = dn_extractLeaderAddr err in
                if leader \<noteq> '''' \<and> leader \<noteq> addr then heartbeat_loop retries dn leader w else w)))"

definition sendHeartbeat :: "DataNode \<Rightarrow> world \<Rightarrow> world" where
  "sendHeartbeat dn w = heartbeat_loop 3 dn (mdsAddr dn) w"

subsection \<open>The leader is found\<close>

definition mds_reaches :: "world \<Rightarrow> string \<Rightarrow> bool" where
  "mds_reaches w addr \<longleftrightarrow> w_mds w addr \<noteq> None \<and> w_mdsnet w addr = []"

lemma dial_mds_working: "mds_reaches w addr \<Longrightarrow> dial_mds addr w = (w, None)"
  by (auto simp: dial_mds_def draw_net_def mds_reaches_def)

lemma call_mds_working:
  assumes "mds_reaches w addr" "w_mds w addr = Some (rf, mds)" "m rf mds w = (w', mds', r)"
  shows "call_mds addr m w = (w'\<lparr>w_mds := (w_mds w')(addr \<mapsto> (rf, mds'))\<rparr>, map_sum error_text id r)"
  using assms by (simp add: call_mds_def draw_net_def mds_reaches_def)

lemma HasPrefix_self: "HasPrefix (p @ t) p"
  by (simp add: HasPrefix_def)

lemma extract_redirect: "TrimSpace l = l \<Longrightarrow> extractLeaderAddr (error_text (ErrNotLeader l)) = l"
proof -
  assume t: "TrimSpace l = l"
  have e: "error_text (ErrNotLeader l) = redirect_prefix @ l" by (simp add: redirect_prefix_def)
  have "Index (redirect_prefix @ l) redirect_prefix = Some 0"
    using HasPrefix_self [of redirect_prefix l] by (cases "redirect_prefix @ l") (auto simp: redirect_prefix_def)
  then show ?thesis unfolding extractLeaderAddr_def e using t by simp
qed

end
