(* ===== verification/Fs_Client.thy ===== *)
theory Fs_Client
  imports Client_World
begin

section \<open>The client\<close>

text \<open>
  The operations of \<open>Client\<close> in \<open>internal/client/client.go\<close>, one definition each. The parallel
  calls to the replicas of a file are made in the order of the replicas: they go to different
  addresses, where calls commute (\<open>local_steps_commute\<close>). \<open>PutFile\<close> reports the error that
  arrives first; here that is the error of the first replica that failed.
\<close>

record Client =
  c_mdsAddr :: string

definition NewClient :: "string \<Rightarrow> Client" where
  "NewClient addr = \<lparr>c_mdsAddr = addr\<rparr>"

definition dialMDS :: "Client \<Rightarrow> world \<Rightarrow> world \<times> string option" where
  "dialMDS c w =
     (case dial_mds (c_mdsAddr c) w of
        (w, Some e) \<Rightarrow> (w, Some (''cannot connect to metadata server at '' @ c_mdsAddr c @ '': '' @ e))
      | (w, None) \<Rightarrow> (w, None))"

definition callMDSWithRedirect :: "Client \<Rightarrow> string \<Rightarrow> 'a mds_method \<Rightarrow> world \<Rightarrow> 'a client_result" where
  "callMDSWithRedirect c method m w = redirect_loop 3 method m (c_mdsAddr c) w"

text \<open>A read operation asks the configured server, leader or not.\<close>

definition ask_mds :: "Client \<Rightarrow> (MetadataServer \<Rightarrow> 'a reply) \<Rightarrow> world \<Rightarrow> 'a client_result" where
  "ask_mds c f w =
     (case dialMDS c w of
        (w, Some e) \<Rightarrow> (w, Inl e)
      | (w, None) \<Rightarrow> call_mds (c_mdsAddr c) (read_method f) w)"

definition with_context :: "string \<Rightarrow> 'a client_result \<Rightarrow> 'a client_result" where
  "with_context ctx r = (case r of (w, Inl e) \<Rightarrow> (w, Inl (ctx @ '': '' @ e)) | (w, Inr x) \<Rightarrow> (w, Inr x))"

subsection \<open>Metadata operations\<close>

definition client_Mkdir :: "Client \<Rightarrow> string \<Rightarrow> world \<Rightarrow> bool client_result" where
  "client_Mkdir c path w =
     with_context ''mkdir failed''
       (callMDSWithRedirect c ''MetadataService.Mkdir'' (write_method (\<lambda>rf. Mkdir rf path)) w)"

definition client_CompleteFile :: "Client \<Rightarrow> string \<Rightarrow> world \<Rightarrow> bool client_result" where
  "client_CompleteFile c path w =
     with_context ''complete file failed''
       (callMDSWithRedirect c ''MetadataService.CompleteFile'' (write_method (\<lambda>rf. CompleteFile rf path)) w)"

definition client_Rename :: "Client \<Rightarrow> string \<Rightarrow> string \<Rightarrow> world \<Rightarrow> bool client_result" where
  "client_Rename c src dst w =
     with_context ''rename failed''
       (callMDSWithRedirect c ''MetadataService.Rename''
         (write_method (\<lambda>rf. Rename rf \<lparr>SrcPath = src, DstPath = dst\<rparr>)) w)"

definition client_TriggerGC :: "Client \<Rightarrow> world \<Rightarrow> bool client_result" where
  "client_TriggerGC c w =
     with_context ''trigger GC failed'' (callMDSWithRedirect c ''MetadataService.TriggerGC'' gc_method w)"

definition updateSize :: "Client \<Rightarrow> string \<Rightarrow> int64 \<Rightarrow> world \<Rightarrow> bool client_result" where
  "updateSize c path sz w =
     callMDSWithRedirect c ''MetadataService.UpdateSize''
       (write_method (\<lambda>rf. UpdateSize rf \<lparr>us_Path = path, us_Size = sz\<rparr>)) w"

definition getFileLocation :: "Client \<Rightarrow> string \<Rightarrow> world \<Rightarrow> FileLocation client_result" where
  "getFileLocation c path w = ask_mds c (\<lambda>mds. GetFileLocation mds path) w"

text \<open>\<open>dialMDS\<close> errors are returned as they are, errors of the call with a context.\<close>

definition ask_with_context :: "Client \<Rightarrow> string \<Rightarrow> (MetadataServer \<Rightarrow> 'a reply) \<Rightarrow> world \<Rightarrow> 'a client_result" where
  "ask_with_context c ctx f w =
     (case dialMDS c w of
        (w, Some e) \<Rightarrow> (w, Inl e)
      | (w, None) \<Rightarrow> with_context ctx (call_mds (c_mdsAddr c) (read_method f) w))"

definition client_ListDir :: "Client \<Rightarrow> string \<Rightarrow> world \<Rightarrow> FileInfo list client_result" where
  "client_ListDir c path w = ask_with_context c ''list dir failed'' (\<lambda>mds. ListDir mds path) w"

definition client_Stat :: "Client \<Rightarrow> string \<Rightarrow> world \<Rightarrow> FileInfo client_result" where
  "client_Stat c path w = ask_with_context c ''stat failed'' (\<lambda>mds. Stat mds path) w"

definition client_ListDataNodes :: "Client \<Rightarrow> world \<Rightarrow> string list client_result" where
  "client_ListDataNodes c w = ask_with_context c ''list data nodes failed'' (\<lambda>mds. Inr (ListDataNodes mds)) w"

definition GetReplicas :: "Client \<Rightarrow> string \<Rightarrow> world \<Rightarrow> Replica list client_result" where
  "GetReplicas c path w =
     (case ask_with_context c ''get file location failed'' (\<lambda>mds. GetFileLocation mds path) w of
        (w, Inl e) \<Rightarrow> (w, Inl e)
      | (w, Inr loc) \<Rightarrow> (w, Inr (fl_Replicas loc)))"

subsection \<open>Calls to one replica\<close>

definition dialDataNode :: "string \<Rightarrow> cluster \<Rightarrow> cluster \<times> string option" where
  "dialDataNode addr cl =
     (case dial_node addr cl of
        (cl, Some e) \<Rightarrow> (cl, Some (''cannot connect to data node at '' @ addr @ '': '' @ e))
      | (cl, None) \<Rightarrow> (cl, None))"

definition on_replica ::
  "string \<Rightarrow> string \<Rightarrow> (DataNode \<Rightarrow> os_state \<Rightarrow> 'a dn_result) \<Rightarrow> cluster \<Rightarrow> cluster \<times> (string + 'a)" where
  "on_replica addr ctx f cl =
     (case dialDataNode addr cl of
        (cl, Some e) \<Rightarrow> (cl, Inl e)
      | (cl, None) \<Rightarrow>
          (case call_node addr f cl of
             (cl, Inl e) \<Rightarrow> (cl, Inl (ctx @ call_error_text e))
           | (cl, Inr x) \<Rightarrow> (cl, Inr x)))"

definition storeReplica :: "byte list \<Rightarrow> Replica \<Rightarrow> cluster \<Rightarrow> cluster \<times> (string + bool)" where
  "storeReplica content r =
     on_replica (Addr r) ''store data failed: ''
       (\<lambda>dn. StoreData dn \<lparr>st_Path = RemotePath r, st_Content = content\<rparr>)"

definition readReplica :: "Replica \<Rightarrow> cluster \<Rightarrow> cluster \<times> (string + byte list)" where
  "readReplica r = on_replica (Addr r) '''' (\<lambda>dn. GetData dn (RemotePath r))"

definition deleteReplica :: "Replica \<Rightarrow> cluster \<Rightarrow> cluster \<times> (string + bool)" where
  "deleteReplica r = on_replica (Addr r) '''' (\<lambda>dn. DeleteData dn (RemotePath r))"

text \<open>The buffer of \<open>len\<close> bytes: what was copied into it, and the end-of-file flag.\<close>

definition rangeRead :: "Replica \<Rightarrow> int64 \<Rightarrow> nat \<Rightarrow> cluster \<Rightarrow> cluster \<times> (string + byte list \<times> bool)" where
  "rangeRead r offset len cl =
     (case on_replica (Addr r) ''range read failed: ''
         (\<lambda>dn. RangeRead dn \<lparr>rr_Path = RemotePath r, rr_Offset = offset, rr_Length = word_of_nat len\<rparr>) cl of
        (cl, Inl e) \<Rightarrow> (cl, Inl e)
      | (cl, Inr reply) \<Rightarrow> (cl, Inr (take len (rr_Data reply), rr_EOF reply)))"

definition partialWrite :: "int64 \<Rightarrow> byte list \<Rightarrow> Replica \<Rightarrow> cluster \<Rightarrow> cluster \<times> (string + bool)" where
  "partialWrite offset bs r =
     on_replica (Addr r) ''partial write failed: ''
       (\<lambda>dn. PartialWrite dn \<lparr>pw_Path = RemotePath r, pw_Offset = offset, pw_Data = bs\<rparr>)"

definition truncateReplica :: "int64 \<Rightarrow> Replica \<Rightarrow> cluster \<Rightarrow> cluster \<times> (string + bool)" where
  "truncateReplica sz r =
     on_replica (Addr r) ''truncate failed: '' (\<lambda>dn. Truncate dn \<lparr>tr_Path = RemotePath r, tr_Size = sz\<rparr>)"

definition syncReplica :: "Replica \<Rightarrow> cluster \<Rightarrow> cluster \<times> (string + bool)" where
  "syncReplica r = on_replica (Addr r) ''sync failed: '' (\<lambda>dn. Sync dn \<lparr>sy_Path = RemotePath r\<rparr>)"

text \<open>One call per replica: the errors, \<open>None\<close> where the call succeeded.\<close>

fun each_replica :: "(Replica \<Rightarrow> cluster \<Rightarrow> cluster \<times> (string + 'a)) \<Rightarrow> Replica list \<Rightarrow> cluster \<Rightarrow> cluster \<times> string option list" where
  "each_replica f [] cl = (cl, [])"
| "each_replica f (r # rs) cl =
     (case f r cl of
        (cl, res) \<Rightarrow>
          (case each_replica f rs cl of
             (cl, errs) \<Rightarrow> (cl, (case res of Inl e \<Rightarrow> Some e | Inr x \<Rightarrow> None) # errs)))"

definition successCount :: "string option list \<Rightarrow> nat" where
  "successCount errs = length (filter (\<lambda>e. e = None) errs)"

definition firstErr :: "string option list \<Rightarrow> string option" where
  "firstErr errs = (case filter (\<lambda>e. e \<noteq> None) errs of [] \<Rightarrow> None | e # es \<Rightarrow> e)"

definition on_cluster :: "(cluster \<Rightarrow> cluster \<times> 'a) \<Rightarrow> world \<Rightarrow> world \<times> 'a" where
  "on_cluster f w = (case f (w_cluster w) of (cl, x) \<Rightarrow> (w\<lparr>w_cluster := cl\<rparr>, x))"

definition truncateAllReplicas :: "Client \<Rightarrow> string \<Rightarrow> int64 \<Rightarrow> world \<Rightarrow> world \<times> string option" where
  "truncateAllReplicas c path sz w =
     (case getFileLocation c path w of
        (w, Inl e) \<Rightarrow> (w, Some e)
      | (w, Inr loc) \<Rightarrow>
          (case on_cluster (each_replica (truncateReplica sz) (fl_Replicas loc)) w of
             (w, errs) \<Rightarrow> (w, firstErr errs)))"

subsection \<open>Files\<close>

definition client_Delete :: "Client \<Rightarrow> string \<Rightarrow> world \<Rightarrow> unit client_result" where
  "client_Delete c path w =
     (case callMDSWithRedirect c ''MetadataService.Delete'' (write_method (\<lambda>rf. Delete rf path)) w of
        (w, Inl e) \<Rightarrow> (w, Inl (''delete metadata failed: '' @ e))
      | (w, Inr reply) \<Rightarrow>
          if \<not> dr_IsDir reply \<and> length (dr_Replicas reply) > 0
          then (case on_cluster (each_replica deleteReplica (dr_Replicas reply)) w of (w, errs) \<Rightarrow> (w, Inr ()))
          else (w, Inr ()))"

definition PutFile :: "Client \<Rightarrow> string \<Rightarrow> string \<Rightarrow> CreateMode list \<Rightarrow> world \<Rightarrow> unit client_result" where
  "PutFile c localPath remotePath opts w =
     (let createMode = fold (\<lambda>mode cfg. mode) opts CreateIfNotExist in
      case os_ReadFile localPath (w_local w) of
        (os, Inl e) \<Rightarrow> (w\<lparr>w_local := os\<rparr>, Inl (''read local file failed: '' @ os_error_text e))
      | (os, Inr content) \<Rightarrow>
     (case callMDSWithRedirect c ''MetadataService.CreateFile''
         (create_method \<lparr>cf_Path = remotePath, cf_Size = word_of_nat (length content), cf_CreateMode = createMode\<rparr>)
         (w\<lparr>w_local := os\<rparr>) of
        (w, Inl e) \<Rightarrow> (w, Inl (''create metadata failed: '' @ e))
      | (w, Inr reply) \<Rightarrow>
     (case on_cluster (each_replica (storeReplica content) (cr_Replicas reply)) w of
        (w, errs) \<Rightarrow>
          if successCount errs = 0
          then (case client_Delete c remotePath w of
                  (w, delErr) \<Rightarrow>
                    (w, Inl (''all '' @ Itoa (length (cr_Replicas reply)) @ '' replica stores failed: '' @ wrapped (firstErr errs))))
          else (case callMDSWithRedirect c ''MetadataService.CompleteFile''
                    (write_method (\<lambda>rf. CompleteFile rf remotePath)) w of
                  (w, res) \<Rightarrow> (w, Inr ())))))"

text \<open>
  The loop over the replicas stops at the first that answers. The reply is decoded into a nil
  slice, and an empty slice stays nil: \<open>None\<close> is the nil content that the code tests for.
\<close>

definition decoded :: "byte list \<Rightarrow> byte list option" where
  "decoded bs = (if bs = [] then None else Some bs)"

fun first_content :: "Replica list \<Rightarrow> string option \<Rightarrow> cluster \<Rightarrow> cluster \<times> byte list option \<times> string option" where
  "first_content [] lastErr cl = (cl, None, lastErr)"
| "first_content (r # rs) lastErr cl =
     (case readReplica r cl of
        (cl, Inl e) \<Rightarrow> first_content rs (Some e) cl
      | (cl, Inr bs) \<Rightarrow> (cl, decoded bs, lastErr))"

definition write_local :: "string \<Rightarrow> byte list \<Rightarrow> world \<Rightarrow> unit client_result" where
  "write_local localPath content w =
     (case os_WriteFile localPath content (w_local w) of
        (os, Inl e) \<Rightarrow> (w\<lparr>w_local := os\<rparr>, Inl (''write local file failed: '' @ os_error_text e))
      | (os, Inr u) \<Rightarrow> (w\<lparr>w_local := os\<rparr>, Inr ()))"

definition GetFile :: "Client \<Rightarrow> string \<Rightarrow> string \<Rightarrow> world \<Rightarrow> unit client_result" where
  "GetFile c remotePath localPath w =
     (case ask_with_context c ''get file location failed'' (\<lambda>mds. GetFileLocation mds remotePath) w of
        (w, Inl e) \<Rightarrow> (w, Inl e)
      | (w, Inr loc) \<Rightarrow>
          if fl_Status loc = ''pending'' then write_local localPath [] w
          else (case on_cluster (first_content (fl_Replicas loc) None) w of
                  (w, None, lastErr) \<Rightarrow>
                    (w, Inl (''all '' @ Itoa (length (fl_Replicas loc)) @ '' replicas failed, last error: '' @ wrapped lastErr))
                | (w, Some content, lastErr) \<Rightarrow> write_local localPath content w))"

end
