(* ===== verification/File_Handle.thy ===== *)
theory File_Handle
  imports Fs_Client
begin

unbundle bit_operations_syntax

section \<open>Open files\<close>

text \<open>
  \<open>Client.Open\<close> (\<open>internal/client/client.go\<close>) and the methods of \<open>FileHandle\<close>
  (\<open>internal/client/file_handle.go\<close>). A handle is a value that the methods return updated; its
  lock makes the update of size and status one step. There is no nil handle: \<open>Close\<close> of one returns
  without an effect.
\<close>

definition O_CREAT :: int64 where "O_CREAT = 0x40"
definition O_EXCL :: int64 where "O_EXCL = 0x80"
definition O_TRUNC :: int64 where "O_TRUNC = 0x200"

record FileHandle =
  fh_client :: Client
  fh_path :: string
  fh_fileID :: string
  fh_flags :: int64
  fh_replicas :: "Replica list"
  fh_size :: int64
  fh_status :: string

subsection \<open>Open\<close>

text \<open>
  What \<open>Open\<close> knows before it asks for the location: the size, and for a created file the
  replicas and the status.
\<close>

definition open_missing :: "Client \<Rightarrow> string \<Rightarrow> int64 \<Rightarrow> world \<Rightarrow> (int64 \<times> (Replica list \<times> string) option) client_result" where
  "open_missing c path flags w =
     (if flags AND O_CREAT = 0 then (w, Inl (''open: no such file or directory: '' @ path))
      else (case callMDSWithRedirect c ''MetadataService.CreateFile''
                (create_method \<lparr>cf_Path = path, cf_Size = 0, cf_CreateMode = CreateIfNotExist\<rparr>) w of
              (w, Inl e) \<Rightarrow> (w, Inl (''open: create failed: '' @ e))
            | (w, Inr reply) \<Rightarrow> (w, Inr (0, Some (cr_Replicas reply, ''pending'')))))"

definition open_existing ::
  "Client \<Rightarrow> string \<Rightarrow> int64 \<Rightarrow> FileInfo \<Rightarrow> world \<Rightarrow> (int64 \<times> (Replica list \<times> string) option) client_result" where
  "open_existing c path flags info w =
     (if flags AND O_EXCL \<noteq> 0 then (w, Inl (''open: file already exists (O_EXCL): '' @ path))
      else if fi_IsDir info then (w, Inl (''open: is a directory: '' @ path))
      else if flags AND O_TRUNC \<noteq> 0 then
        (case truncateAllReplicas c path 0 w of
           (w, Some e) \<Rightarrow> (w, Inl (''open: truncate replicas failed: '' @ e))
         | (w, None) \<Rightarrow>
             (case updateSize c path 0 w of
                (w, Inl e) \<Rightarrow> (w, Inl (''open: update size failed: '' @ e))
              | (w, Inr u) \<Rightarrow> (w, Inr (0, None))))
      else (w, Inr (fi_Size info, None)))"

definition client_Open :: "Client \<Rightarrow> string \<Rightarrow> int64 \<Rightarrow> world \<Rightarrow> FileHandle client_result" where
  "client_Open c path flags w =
     (case client_Stat c path w of
        (w, st) \<Rightarrow>
     (case (case st of
              Inl e \<Rightarrow> if \<not> Contains e ''not found'' then (w, Inl (''open: stat failed: '' @ e))
                       else open_missing c path flags w
            | Inr info \<Rightarrow> open_existing c path flags info w) of
        (w, Inl e) \<Rightarrow> (w, Inl e)
      | (w, Inr (sz, created)) \<Rightarrow>
     (case getFileLocation c path w of
        (w, Inl e) \<Rightarrow> (w, Inl (''open: get location failed: '' @ e))
      | (w, Inr loc) \<Rightarrow>
          (let replicas = (case created of Some (rs, s) \<Rightarrow> if rs = [] then fl_Replicas loc else rs | None \<Rightarrow> fl_Replicas loc);
               status = (case created of Some (rs, s) \<Rightarrow> s | None \<Rightarrow> fl_Status loc)
           in (w, Inr \<lparr>fh_client = c, fh_path = path, fh_fileID = fl_FileID loc, fh_flags = flags,
                 fh_replicas = replicas, fh_size = sz, fh_status = status\<rparr>)))))"

subsection \<open>Reading and writing\<close>

text \<open>The replicas in turn; the bytes read and whether the end of the file was reached.\<close>

fun read_loop :: "int64 \<Rightarrow> nat \<Rightarrow> Replica list \<Rightarrow> string option \<Rightarrow> cluster \<Rightarrow> cluster \<times> (string option + byte list \<times> bool)" where
  "read_loop offset len [] lastErr cl = (cl, Inl lastErr)"
| "read_loop offset len (r # rs) lastErr cl =
     (case rangeRead r offset len cl of
        (cl, Inr (bs, eof)) \<Rightarrow> (cl, Inr (bs, eof))
      | (cl, Inl e) \<Rightarrow> read_loop offset len rs (Some e) cl)"

definition ReadAt :: "FileHandle \<Rightarrow> nat \<Rightarrow> int64 \<Rightarrow> world \<Rightarrow> (byte list \<times> bool) client_result" where
  "ReadAt fh len offset w =
     (if sint offset < 0 then (w, Inl ''readat: negative offset'')
      else if length (fh_replicas fh) = 0 then (w, Inl (''readat: no replicas for file '' @ fh_path fh))
      else (case on_cluster (read_loop offset len (fh_replicas fh) None) w of
              (w, Inr r) \<Rightarrow> (w, Inr r)
            | (w, Inl lastErr) \<Rightarrow>
                (w, Inl (''readat: all '' @ Itoa (length (fh_replicas fh)) @ '' replicas failed, last error: ''
                         @ wrapped lastErr))))"

definition failed_text :: "string \<Rightarrow> FileHandle \<Rightarrow> string option list \<Rightarrow> string" where
  "failed_text op fh errs =
     op @ '': '' @ Itoa (length (fh_replicas fh) - successCount errs) @ ''/'' @ Itoa (length (fh_replicas fh))
       @ '' replicas failed, first error: '' @ wrapped (firstErr errs)"

definition WriteAt :: "FileHandle \<Rightarrow> byte list \<Rightarrow> int64 \<Rightarrow> world \<Rightarrow> (FileHandle \<times> nat) client_result" where
  "WriteAt fh bs offset w =
     (if sint offset < 0 then (w, Inl ''writeat: negative offset'')
      else if length (fh_replicas fh) = 0 then (w, Inl (''writeat: no replicas for file '' @ fh_path fh))
      else (case on_cluster (each_replica (partialWrite offset bs) (fh_replicas fh)) w of
              (w, errs) \<Rightarrow>
                if successCount errs \<noteq> length (fh_replicas fh) then (w, Inl (failed_text ''writeat'' fh errs))
                else
                  (let newEnd = offset + word_of_nat (length bs);
                       needUpdate = (sint newEnd > sint (fh_size fh));
                       fh = (if needUpdate then fh\<lparr>fh_size := newEnd\<rparr> else fh);
                       fh = (if fh_status fh = ''pending'' then fh\<lparr>fh_status := ''complete''\<rparr> else fh)
                   in if needUpdate
                      then (case updateSize (fh_client fh) (fh_path fh) newEnd w of (w, res) \<Rightarrow> (w, Inr (fh, length bs)))
                      else (w, Inr (fh, length bs)))))"

definition Close :: "FileHandle \<Rightarrow> world \<Rightarrow> unit client_result" where
  "Close fh w =
     (if fh_status fh = ''pending'' then
        (case client_CompleteFile (fh_client fh) (fh_path fh) w of
           (w, Inl e) \<Rightarrow> (w, Inl (''close: complete file failed: '' @ e))
         | (w, Inr u) \<Rightarrow> (w, Inr ()))
      else (w, Inr ()))"

definition fh_Truncate :: "FileHandle \<Rightarrow> int64 \<Rightarrow> world \<Rightarrow> FileHandle client_result" where
  "fh_Truncate fh sz w =
     (if sint sz < 0 then (w, Inl ''truncate: negative size'')
      else (case truncateAllReplicas (fh_client fh) (fh_path fh) sz w of
              (w, Some e) \<Rightarrow> (w, Inl (''truncate: replica truncate failed: '' @ e))
            | (w, None) \<Rightarrow>
                (case updateSize (fh_client fh) (fh_path fh) sz w of
                   (w, Inl e) \<Rightarrow> (w, Inl (''truncate: update size failed: '' @ e))
                 | (w, Inr u) \<Rightarrow> (w, Inr (fh\<lparr>fh_size := sz\<rparr>)))))"

definition fh_Sync :: "FileHandle \<Rightarrow> world \<Rightarrow> unit client_result" where
  "fh_Sync fh w =
     (case on_cluster (each_replica syncReplica (fh_replicas fh)) w of
        (w, errs) \<Rightarrow>
          if successCount errs \<noteq> length (fh_replicas fh) then (w, Inl (failed_text ''sync'' fh errs))
          else (w, Inr ()))"

end
