(* ===== verification/Replica_Store.thy ===== *)
theory Replica_Store
  imports File_Handle
begin

section \<open>What the client relies on\<close>

text \<open>
  The client (\<open>internal/client/client.go\<close>, \<open>file_handle.go\<close>) uses the data service through
  its interface \<open>DataService\<close>. \<open>blob_store\<close> states what it needs of one node for whole files,
  \<open>range_store\<close> adds the range operations; both are interpreted on the data node. \<open>replica_op\<close>
  is what the loops over the replicas need of one call; it is interpreted on the calls of the
  client.
\<close>

subsection \<open>One node\<close>

locale blob_store =
  fixes ok :: "'n \<Rightarrow> bool"
    and blob :: "'n \<Rightarrow> string \<Rightarrow> byte list option"
    and put :: "string \<Rightarrow> byte list \<Rightarrow> 'n \<Rightarrow> 'n \<times> ('e + bool)"
    and get :: "string \<Rightarrow> 'n \<Rightarrow> 'n \<times> ('e + byte list)"
  assumes put_law: "ok n \<Longrightarrow> put p c n = (n', r) \<Longrightarrow> ok n' \<and>
      (case r of Inl e \<Rightarrow> blob n' p = blob n p | Inr b \<Rightarrow> blob n' p = Some c)"
    and get_law: "ok n \<Longrightarrow> get p n = (n', g) \<Longrightarrow> ok n' \<and> blob n' = blob n \<and> (\<forall>c. g = Inr c \<longrightarrow> blob n p = Some c)"
begin

text \<open>Nothing but the stored content, or nothing, is ever at a path that was free.\<close>

lemma put_only: "ok n \<Longrightarrow> put p c n = (n', r) \<Longrightarrow> blob n p \<in> {None, Some c} \<Longrightarrow> blob n' p \<in> {None, Some c}"
  using put_law [of n p c n' r] by (auto split: sum.splits)

lemma put_get:
  "ok n \<Longrightarrow> put p c n = (n1, Inr b) \<Longrightarrow> ok n2 \<Longrightarrow> blob n2 p = blob n1 p \<Longrightarrow> get p n2 = (n3, Inr d) \<Longrightarrow> d = c"
  using put_law [of n p c n1 "Inr b"] get_law [of n2 p n3 "Inr d"] by simp

end

locale range_store = blob_store +
  fixes wr :: "string \<Rightarrow> int64 \<Rightarrow> byte list \<Rightarrow> 'a \<Rightarrow> 'a \<times> ('b + bool)"
    and rd :: "string \<Rightarrow> int64 \<Rightarrow> int64 \<Rightarrow> 'a \<Rightarrow> 'a \<times> ('b + RangeReadReply)"
  assumes wr_law: "ok n \<Longrightarrow> wr p off bs n = (n', Inr b) \<Longrightarrow> ok n' \<and> 0 \<le> sint off \<and>
      blob n' p = Some (write_at (nat (sint off)) bs (case blob n p of None \<Rightarrow> [] | Some d \<Rightarrow> d))"
    and rd_law: "ok n \<Longrightarrow> rd p off len n = (n', Inr reply) \<Longrightarrow> ok n' \<and> blob n' = blob n \<and>
      (\<forall>d. blob n p = Some d \<longrightarrow> rr_Data reply = take (nat (sint len)) (drop (nat (sint off)) d) \<and>
         (rr_EOF reply \<longleftrightarrow> int (length (rr_Data reply)) < sint len))"
begin

text \<open>A file that holds a range returns it, and is not at its end.\<close>

lemma read_range:
  assumes "ok n" "blob n p = Some d" "take (length bs) (drop (nat (sint off)) d) = bs" "length bs < 2 ^ 63"
    and "rd p off (word_of_nat (length bs)) n = (n', Inr reply)"
  shows "rr_Data reply = bs \<and> \<not> rr_EOF reply"
  using rd_law [OF assms(1,5)] assms(2-4) sint_length [OF assms(4)] by simp

lemma write_range:
  assumes "ok n" "wr p off bs n = (n', Inr b)"
  shows "\<exists>d. blob n' p = Some d \<and> take (length bs) (drop (nat (sint off)) d) = bs"
  using wr_law [OF assms] read_back by blast

end

type_synonym node = "DataNode \<times> os_state"

definition st_ok :: "node \<Rightarrow> bool" where
  "st_ok n = node_ok (fst n) (snd n)"

definition st_blob :: "node \<Rightarrow> string \<Rightarrow> byte list option" where
  "st_blob n p = files (snd n) (target (fst n) p)"

definition on_node :: "(DataNode \<Rightarrow> os_state \<Rightarrow> 'a dn_result) \<Rightarrow> node \<Rightarrow> node \<times> (dn_error + 'a)" where
  "on_node f n = (case f (fst n) (snd n) of (os, r) \<Rightarrow> ((fst n, os), r))"

lemma serving_ok: "st_ok (dn, os) \<Longrightarrow> serving dn os os' \<Longrightarrow> st_ok (dn, os')"
  using serving_kept by (auto simp: st_ok_def kept_def)

lemma st_ok_dn: "st_ok n \<Longrightarrow> dn_ok (fst n) \<and> os_ok (snd n)"
  by (simp add: st_ok_def node_ok_def)

interpretation dn_blobs: blob_store st_ok st_blob
  "\<lambda>p c. on_node (\<lambda>dn. StoreData dn \<lparr>st_Path = p, st_Content = c\<rparr>)" "\<lambda>p. on_node (\<lambda>dn. GetData dn p)"
proof
  fix n n' :: node and p c r
  assume ok: "st_ok n" and run: "on_node (\<lambda>dn. StoreData dn \<lparr>st_Path = p, st_Content = c\<rparr>) n = (n', r)"
  obtain dn os os' where n: "n = (dn, os)" "n' = (dn, os')"
    "StoreData dn \<lparr>st_Path = p, st_Content = c\<rparr> os = (os', r)"
    using run by (cases n) (auto simp: on_node_def split: prod.splits)
  have "serving dn os os'" using serving.store [OF serving.start, of dn os] n(3) by (metis fst_conv)
  moreover have "replaced (target dn p) c os os' r"
    using StoreData_replaced [OF _ _ n(3)] st_ok_dn [OF ok] n(1) by simp
  ultimately show "st_ok n' \<and> (case r of Inl e \<Rightarrow> st_blob n' p = st_blob n p | Inr b \<Rightarrow> st_blob n' p = Some c)"
    using serving_ok ok n(1,2) by (auto simp: replaced_def st_blob_def split: sum.splits)
next
  fix n n' :: node and p r
  assume ok: "st_ok n" and run: "on_node (\<lambda>dn. GetData dn p) n = (n', r)"
  obtain dn os os' where n: "n = (dn, os)" "n' = (dn, os')" "GetData dn p os = (os', r)"
    using run by (cases n) (auto simp: on_node_def split: prod.splits)
  have "serving dn os os'" using serving.get [OF serving.start, of dn os] n(3) by (metis fst_conv)
  moreover have "os_files os' = os_files os" "\<And>d. r = Inr d \<Longrightarrow> files os (target dn p) = Some d"
    using GetData_files [OF _ _ n(3)] st_ok_dn [OF ok] n(1) by auto
  ultimately show "st_ok n' \<and> st_blob n' = st_blob n \<and> (\<forall>c. r = Inr c \<longrightarrow> st_blob n p = Some c)"
    using serving_ok ok n(1,2) by (auto simp: st_blob_def)
qed

interpretation dn_ranges: range_store st_ok st_blob
  "\<lambda>p c. on_node (\<lambda>dn. StoreData dn \<lparr>st_Path = p, st_Content = c\<rparr>)" "\<lambda>p. on_node (\<lambda>dn. GetData dn p)"
  "\<lambda>p off bs. on_node (\<lambda>dn. PartialWrite dn \<lparr>pw_Path = p, pw_Offset = off, pw_Data = bs\<rparr>)"
  "\<lambda>p off len. on_node (\<lambda>dn. RangeRead dn \<lparr>rr_Path = p, rr_Offset = off, rr_Length = len\<rparr>)"
proof
  fix n n' :: node and p off bs b
  assume ok: "st_ok n"
    and run: "on_node (\<lambda>dn. PartialWrite dn \<lparr>pw_Path = p, pw_Offset = off, pw_Data = bs\<rparr>) n = (n', Inr b)"
  obtain dn os os' where n: "n = (dn, os)" "n' = (dn, os')"
    "PartialWrite dn \<lparr>pw_Path = p, pw_Offset = off, pw_Data = bs\<rparr> os = (os', Inr b)"
    using run by (cases n) (auto simp: on_node_def split: prod.splits)
  have "serving dn os os'" using serving.partial_write [OF serving.start, of dn os] n(3) by (metis fst_conv)
  then show "st_ok n' \<and> 0 \<le> sint off \<and>
      st_blob n' p = Some (write_at (nat (sint off)) bs (case st_blob n p of None \<Rightarrow> [] | Some d \<Rightarrow> d))"
    using PartialWrite_files(3) [OF _ _ n(3) refl] st_ok_dn [OF ok] serving_ok ok n(1,2) by (auto simp: st_blob_def)
next
  fix n n' :: node and p off len reply
  assume ok: "st_ok n"
    and run: "on_node (\<lambda>dn. RangeRead dn \<lparr>rr_Path = p, rr_Offset = off, rr_Length = len\<rparr>) n = (n', Inr reply)"
  obtain dn os os' where n: "n = (dn, os)" "n' = (dn, os')"
    "RangeRead dn \<lparr>rr_Path = p, rr_Offset = off, rr_Length = len\<rparr> os = (os', Inr reply)"
    using run by (cases n) (auto simp: on_node_def split: prod.splits)
  have d: "dn_ok dn" "os_ok os" using st_ok_dn [OF ok] n(1) by simp_all
  have "serving dn os os'" using serving.range_read [OF serving.start, of dn os] n(3) by (metis fst_conv)
  moreover have "os_files os' = os_files os" by (rule RangeRead_files(1) [OF d n(3)])
  moreover note RangeRead_files(2) [OF d n(3) refl]
  ultimately show "st_ok n' \<and> st_blob n' = st_blob n \<and>
      (\<forall>d. st_blob n p = Some d \<longrightarrow> rr_Data reply = take (nat (sint len)) (drop (nat (sint off)) d) \<and>
         (rr_EOF reply \<longleftrightarrow> int (length (rr_Data reply)) < sint len))"
    using serving_ok ok n(1,2) by (auto simp: st_blob_def split: option.splits)
qed

subsection \<open>One call\<close>

definition nodes_ok :: "cluster \<Rightarrow> bool" where
  "nodes_ok cl \<longleftrightarrow> (\<forall>addr n. cl_nodes cl addr = Some n \<longrightarrow> st_ok n)"

text \<open>A call from the client is a dial and a call with the errors reworded.\<close>

lemma on_replica_dial_call:
  "on_replica addr ctx f cl = (cl', r) \<Longrightarrow>
   \<exists>r'. dial_call addr f cl = (cl', r') \<and> (\<forall>x. r = Inr x \<longleftrightarrow> r' = Inr x)"
  by (auto simp: on_replica_def dialDataNode_def dial_call_def split: prod.splits option.splits sum.splits)

lemma on_replica_other: "on_replica addr ctx f cl = (cl', r) \<Longrightarrow> a \<noteq> addr \<Longrightarrow> cl_nodes cl' a = cl_nodes cl a"
  using on_replica_dial_call dial_call_other by blast

lemma on_replica_cases:
  assumes "on_replica addr ctx f cl = (cl', r)"
  obtains (lost) "cl_nodes cl' = cl_nodes cl" "\<And>x. r \<noteq> Inr x"
  | (panic) "cl_nodes cl' = (cl_nodes cl)(addr := None)" "\<And>x. r \<noteq> Inr x"
  | (ran) n n' r' where "cl_nodes cl addr = Some n" "on_node f n = (n', r')"
      "cl_nodes cl' = (cl_nodes cl)(addr \<mapsto> n')" "\<And>x. r = Inr x \<Longrightarrow> r' = Inr x"
proof -
  obtain r1 where 1: "dial_call addr f cl = (cl', r1)" "\<forall>x. r = Inr x \<longleftrightarrow> r1 = Inr x"
    using on_replica_dial_call [OF assms] by blast
  from 1(1) show ?thesis
  proof (cases rule: dial_call_cases)
    case lost
    then show ?thesis using 1(2) that(1) by blast
  next
    case panic
    then show ?thesis using 1(2) that(2) by blast
  next
    case (ran dn os)
    then show ?thesis
      using 1(2) that(3) [of "(dn, os)" "(dn, fst (f dn os))" "snd (f dn os)"]
      by (auto simp: on_node_def split: prod.splits)
  qed
qed

lemma nodes_ok_upd:
  assumes "nodes_ok cl" "cl_nodes cl' = (cl_nodes cl)(a := v)" "\<And>n. v = Some n \<Longrightarrow> st_ok n"
  shows "nodes_ok cl'"
  using assms by (auto simp: nodes_ok_def simp del: split_paired_All split: if_splits)

lemma on_replica_ok:
  assumes "nodes_ok cl" "on_replica addr ctx f cl = (cl', r)" "\<And>n n' r. st_ok n \<Longrightarrow> on_node f n = (n', r) \<Longrightarrow> st_ok n'"
  shows "nodes_ok cl'"
  using assms(2)
proof (cases rule: on_replica_cases)
  case lost
  then show ?thesis using assms(1) by (simp add: nodes_ok_def)
next
  case panic
  then show ?thesis using nodes_ok_upd [OF assms(1)] by blast
next
  case (ran n n' r')
  then have "st_ok n" using assms(1) unfolding nodes_ok_def by blast
  then have "st_ok n'" using assms(3) ran(2) by blast
  then show ?thesis using nodes_ok_upd [OF assms(1) ran(3)] by blast
qed

lemma on_replica_done:
  assumes "nodes_ok cl" "on_replica addr ctx f cl = (cl', Inr x)"
  shows "\<exists>n n'. cl_nodes cl addr = Some n \<and> st_ok n \<and> on_node f n = (n', Inr x) \<and> cl_nodes cl' = (cl_nodes cl)(addr \<mapsto> n')"
  using assms(2)
proof (cases rule: on_replica_cases)
  case (ran n n' r')
  then show ?thesis using assms(1) unfolding nodes_ok_def by blast
qed blast+

subsection \<open>One call per replica\<close>

locale replica_op =
  fixes f :: "Replica \<Rightarrow> cluster \<Rightarrow> cluster \<times> (string + 'a)" and post :: "Replica \<Rightarrow> node \<Rightarrow> bool"
  assumes local_law: "f r cl = (cl', x) \<Longrightarrow> a \<noteq> Addr r \<Longrightarrow> cl_nodes cl' a = cl_nodes cl a"
    and ok_law: "nodes_ok cl \<Longrightarrow> f r cl = (cl', x) \<Longrightarrow> nodes_ok cl'"
    and done_law: "nodes_ok cl \<Longrightarrow> f r cl = (cl', Inr y) \<Longrightarrow> \<exists>n. cl_nodes cl' (Addr r) = Some n \<and> post r n"
begin

lemma each_other: "each_replica f rs cl = (cl', errs) \<Longrightarrow> a \<notin> Addr ` set rs \<Longrightarrow> cl_nodes cl' a = cl_nodes cl a"
proof (induction rs arbitrary: cl errs)
  case (Cons r rs)
  obtain cl1 x es where "f r cl = (cl1, x)" "each_replica f rs cl1 = (cl', es)"
    using Cons.prems(1) by (auto split: prod.splits)
  then show ?case using Cons.IH [of cl1 es] Cons.prems(2) local_law [of r cl cl1 x a] by simp
qed simp

lemma each_ok: "nodes_ok cl \<Longrightarrow> each_replica f rs cl = (cl', errs) \<Longrightarrow> nodes_ok cl' \<and> length errs = length rs"
proof (induction rs arbitrary: cl errs)
  case (Cons r rs)
  obtain cl1 x es where 1: "f r cl = (cl1, x)" "each_replica f rs cl1 = (cl', es)" "length errs = Suc (length es)"
    using Cons.prems(2) by (auto split: prod.splits)
  then show ?case using Cons.IH [of cl1 es] ok_law [OF Cons.prems(1) 1(1)] by simp
qed simp

text \<open>Where a call has succeeded its effect is still there after the other calls.\<close>

lemma each_done:
  assumes "nodes_ok cl" "each_replica f rs cl = (cl', errs)" "distinct (map Addr rs)" "i < length rs" "errs ! i = None"
  shows "\<exists>n. cl_nodes cl' (Addr (rs ! i)) = Some n \<and> post (rs ! i) n"
  using assms
proof (induction rs arbitrary: cl errs i)
  case (Cons r rs)
  obtain cl1 x es where 1: "f r cl = (cl1, x)" "each_replica f rs cl1 = (cl', es)"
    "errs = (case x of Inl e \<Rightarrow> Some e | Inr y \<Rightarrow> None) # es"
    using Cons.prems(2) by (auto split: prod.splits)
  show ?case
  proof (cases i)
    case 0
    then obtain y where "x = Inr y" using Cons.prems(5) 1(3) by (cases x) auto
    then obtain n where n: "cl_nodes cl1 (Addr r) = Some n" "post r n"
      using done_law [OF Cons.prems(1)] 1(1) by blast
    have "Addr r \<notin> Addr ` set rs" using Cons.prems(3) by simp
    then show ?thesis using each_other [OF 1(2)] n 0 by simp
  next
    case (Suc j)
    then show ?thesis
      using Cons.IH [OF ok_law [OF Cons.prems(1) 1(1)] 1(2), of j] Cons.prems(3-5) 1(3) by simp
  qed
qed simp

lemma all_done:
  assumes "nodes_ok cl" "each_replica f rs cl = (cl', errs)" "distinct (map Addr rs)" "successCount errs = length rs"
    and "r \<in> set rs"
  shows "\<exists>n. cl_nodes cl' (Addr r) = Some n \<and> post r n"
proof -
  obtain i where i: "i < length rs" "rs ! i = r" using assms(5) by (auto simp: in_set_conv_nth)
  have len: "length errs = length rs" using each_ok [OF assms(1,2)] by simp
  have "\<not> (errs ! i \<noteq> None)"
  proof
    assume "errs ! i \<noteq> None"
    then have "length (filter (\<lambda>e. e = None) errs) < length errs"
      using i(1) len by (intro length_filter_less [of "errs ! i"]) simp_all
    then show False using assms(4) len by (simp add: successCount_def)
  qed
  then have "errs ! i = None" by simp
  then show ?thesis using each_done [OF assms(1,2,3) i(1)] i(2) by simp
qed

end

text \<open>What a successful store, partial write and removal leave on the node.\<close>

lemma on_node_serving:
  assumes "st_ok n" "on_node f n = (n', r)" "\<And>os. serving (fst n) os (fst (f (fst n) os))"
  shows "st_ok n'"
proof -
  have "n' = (fst n, fst (f (fst n) (snd n)))" using assms(2) by (auto simp: on_node_def split: prod.splits)
  then show ?thesis using serving_ok [of "fst n" "snd n"] assms(1,3) by simp
qed

lemma serving_step_ok:
  "st_ok n \<Longrightarrow> on_node (\<lambda>dn. StoreData dn a) n = (n', r) \<Longrightarrow> st_ok n'"
  "st_ok n \<Longrightarrow> on_node (\<lambda>dn. PartialWrite dn b) n = (n', r2) \<Longrightarrow> st_ok n'"
  "st_ok n \<Longrightarrow> on_node (\<lambda>dn. GetData dn p) n = (n', r3) \<Longrightarrow> st_ok n'"
  "st_ok n \<Longrightarrow> on_node (\<lambda>dn. RangeRead dn c) n = (n', r4) \<Longrightarrow> st_ok n'"
  by (erule on_node_serving, assumption, rule serving.intros(3-10), rule serving.start)+

interpretation store_op: replica_op "storeReplica content" "\<lambda>r n. st_ok n \<and> st_blob n (RemotePath r) = Some content"
proof
  fix r cl cl' x a assume "storeReplica content r cl = (cl', x)" "a \<noteq> Addr r"
  then show "cl_nodes cl' a = cl_nodes cl a" unfolding storeReplica_def by (rule on_replica_other)
next
  fix r cl cl' x assume "nodes_ok cl" "storeReplica content r cl = (cl', x)"
  then show "nodes_ok cl'" unfolding storeReplica_def by (rule on_replica_ok) (rule serving_step_ok(1))
next
  fix r cl cl' y assume ok: "nodes_ok cl" and run: "storeReplica content r cl = (cl', Inr y)"
  obtain n n' where "st_ok n"
    "on_node (\<lambda>dn. StoreData dn \<lparr>st_Path = RemotePath r, st_Content = content\<rparr>) n = (n', Inr y)"
    "cl_nodes cl' = (cl_nodes cl)(Addr r \<mapsto> n')"
    using on_replica_done [OF ok run [unfolded storeReplica_def]] by blast
  then show "\<exists>n. cl_nodes cl' (Addr r) = Some n \<and> st_ok n \<and> st_blob n (RemotePath r) = Some content"
    using dn_blobs.put_law [of n "RemotePath r" content n' "Inr y"] by simp
qed

definition holds_range :: "int64 \<Rightarrow> byte list \<Rightarrow> Replica \<Rightarrow> node \<Rightarrow> bool" where
  "holds_range off bs r n \<longleftrightarrow> st_ok n \<and>
     (\<exists>d. st_blob n (RemotePath r) = Some d \<and> take (length bs) (drop (nat (sint off)) d) = bs)"

interpretation write_op: replica_op "partialWrite off bs" "holds_range off bs"
proof
  fix r cl cl' x a assume "partialWrite off bs r cl = (cl', x)" "a \<noteq> Addr r"
  then show "cl_nodes cl' a = cl_nodes cl a" unfolding partialWrite_def by (rule on_replica_other)
next
  fix r cl cl' x assume "nodes_ok cl" "partialWrite off bs r cl = (cl', x)"
  then show "nodes_ok cl'" unfolding partialWrite_def by (rule on_replica_ok) (rule serving_step_ok(2))
next
  fix r cl cl' y assume ok: "nodes_ok cl" and run: "partialWrite off bs r cl = (cl', Inr y)"
  obtain n n' where n: "st_ok n"
    "on_node (\<lambda>dn. PartialWrite dn \<lparr>pw_Path = RemotePath r, pw_Offset = off, pw_Data = bs\<rparr>) n = (n', Inr y)"
    "cl_nodes cl' = (cl_nodes cl)(Addr r \<mapsto> n')"
    using on_replica_done [OF ok run [unfolded partialWrite_def]] by blast
  then show "\<exists>n. cl_nodes cl' (Addr r) = Some n \<and> holds_range off bs r n"
    using dn_ranges.write_range [OF n(1,2)] serving_step_ok(2) [OF n(1,2)] by (simp add: holds_range_def)
qed

end
