(* ===== verification/Client_Properties.thy ===== *)
theory Client_Properties
  imports Replica_Store
begin

section \<open>Properties of the client\<close>

text \<open>
  What a user of \<open>internal/client\<close> can rely on: writes find the leader, and what was written is
  read back from whichever replica answers. The last part shows, on concrete runs, where the
  client falls short of its documentation.
\<close>

subsection \<open>Finding the leader\<close>

lemma redirect_once:
  assumes "mds_reaches w a" "w_mds w a = Some (rf, mds)" "f rf mds = (mds, Inl (ErrNotLeader leader))"
    and "TrimSpace leader = leader" "leader \<noteq> ''''" "leader \<noteq> a"
    and "mds_reaches w leader" "w_mds w leader = Some (rfl, mdsl)" "f rfl mdsl = (mdsl', Inr reply)"
  shows "redirect_loop 3 method (write_method f) a w = (w\<lparr>w_mds := (w_mds w)(leader \<mapsto> (rfl, mdsl'))\<rparr>, Inr reply)"
proof -
  have same: "w\<lparr>w_mds := (w_mds w)(a \<mapsto> (rf, mds))\<rparr> = w"
    using assms(2) by (simp add: fun_upd_idem)
  have first: "call_mds a (write_method f) w = (w, Inl (error_text (ErrNotLeader leader)))"
    using call_mds_working [OF assms(1,2), of "write_method f" w mds "Inl (ErrNotLeader leader)"] assms(3) same
    by (simp add: write_method_def)
  have second: "call_mds leader (write_method f) w = (w\<lparr>w_mds := (w_mds w)(leader \<mapsto> (rfl, mdsl'))\<rparr>, Inr reply)"
    using call_mds_working [OF assms(7,8), of "write_method f" w mdsl' "Inr reply"] assms(9)
    by (simp add: write_method_def)
  show ?thesis
    unfolding numeral_3_eq_3
    using dial_mds_working [OF assms(1)] dial_mds_working [OF assms(7)] first second
      extract_redirect [OF assms(4)] assms(5,6)
    by (simp del: error_text.simps)
qed

text \<open>C10. A write sent to a follower reaches the leader: if the configured server redirects to a
  server that answers for itself, the call returns the leader's answer, with the effect of one
  run of the method there and none anywhere else.\<close>

theorem redirect_reaches_leader:
  assumes "mds_reaches w (c_mdsAddr c)" "w_mds w (c_mdsAddr c) = Some (rf, mds)"
    and "f rf mds = (mds, Inl (ErrNotLeader leader))"
    and "TrimSpace leader = leader" "leader \<noteq> ''''" "leader \<noteq> c_mdsAddr c"
    and "mds_reaches w leader" "w_mds w leader = Some (rfl, mdsl)" "f rfl mdsl = (mdsl', Inr reply)"
  shows "callMDSWithRedirect c method (write_method f) w =
    (w\<lparr>w_mds := (w_mds w)(leader \<mapsto> (rfl, mdsl'))\<rparr>, Inr reply)"
  unfolding callMDSWithRedirect_def by (rule redirect_once [where f = f, OF assms])

definition follower :: raft_node where
  "follower = (local_node 0)\<lparr>rf_IsLeader := False, rf_GetLeader := ''m1''\<rparr>"

text \<open>Two metadata servers, the second a follower, two empty data nodes, and a local file.\<close>

definition sample_local :: os_state where
  "sample_local = \<lparr>os_files = [([''a''], FileNode [7, 8] 1), ([''e''], FileNode [] 1)], os_now = 3, os_faults = []\<rparr>"

definition sample_world :: world where
  "sample_world = \<lparr>w_mds = (\<lambda>a. if a = ''m1'' then Some (local_node 5, sample_nodes)
       else if a = ''m2'' then Some (follower, sample_tree) else None),
     w_mdsnet = (\<lambda>a. []),
     w_cluster = \<lparr>cl_nodes = (\<lambda>a. if a = ''n1'' \<or> a = ''n2'' then Some (sample_dn, sample_os) else None), cl_net = (\<lambda>a. [])\<rparr>,
     w_local = sample_local, w_rand = [Inr [1, 2], Inr [3, 4]], w_clock = 9\<rparr>"

definition client1 :: Client where "client1 = NewClient ''m1''"
definition client2 :: Client where "client2 = NewClient ''m2''"

theorem redirect_reaches_leader_witness:
  "snd (callMDSWithRedirect client2 ''MetadataService.Mkdir'' (write_method (\<lambda>rf. Mkdir rf ''/x'')) sample_world) = Inr True"
proof -
  have m: "w_mds sample_world (c_mdsAddr client2) = Some (follower, sample_tree)"
    "w_mds sample_world ''m1'' = Some (local_node 5, sample_nodes)"
    "mds_reaches sample_world (c_mdsAddr client2)" "mds_reaches sample_world ''m1''" "''m1'' \<noteq> c_mdsAddr client2"
    by (simp_all add: sample_world_def client2_def NewClient_def mds_reaches_def)
  have f: "Mkdir follower ''/x'' sample_tree = (sample_tree, Inl (ErrNotLeader ''m1''))"
    by (simp add: Mkdir_def checkLeader_def follower_def local_node_def)
  have t: "TrimSpace ''m1'' = ''m1''" by (simp add: TrimSpace_printable printable_def)
  have "snd (Mkdir (local_node 5) ''/x'' sample_nodes) = Inr True" by code_simp
  from redirect_reaches_leader [where f = "\<lambda>rf. Mkdir rf ''/x''", OF m(3,1) f t _ m(5,4,2) run_eq [OF this]]
  show ?thesis by simp
qed

subsection \<open>Ranges\<close>

lemma call_keeps_cluster:
  assumes "\<And>rf mds w. w_cluster (fst (m rf mds w)) = w_cluster w"
  shows "w_cluster (fst (call_mds addr m w)) = w_cluster w"
proof -
  obtain net flt where d: "draw_net addr (w_mdsnet w) = (net, flt)" by fastforce
  show ?thesis
  proof (cases "w_mds w addr")
    case None
    then show ?thesis using d by (simp add: call_mds_def Let_def)
  next
    case (Some s)
    obtain rf mds where s: "s = (rf, mds)" by fastforce
    obtain w1 mds1 r where m: "m rf mds (w\<lparr>w_mdsnet := net\<rparr>) = (w1, mds1, r)" by (metis prod_cases3)
    have "w_cluster w1 = w_cluster w" using assms [of rf mds "w\<lparr>w_mdsnet := net\<rparr>"] m by simp
    then show ?thesis using d Some s m by (cases flt) (simp_all add: call_mds_def Let_def)
  qed
qed

lemma redirect_keeps_cluster:
  assumes "\<And>rf mds w. w_cluster (fst (m rf mds w)) = w_cluster w"
  shows "w_cluster (fst (redirect_loop n method m addr w)) = w_cluster w"
proof (induction n arbitrary: addr w)
  case (Suc n)
  obtain w1 d where 1: "dial_mds addr w = (w1, d)" by fastforce
  have c1: "w_cluster w1 = w_cluster w" using 1 by (auto simp: dial_mds_def Let_def split: prod.splits if_splits)
  obtain w2 r where 2: "call_mds addr m w1 = (w2, r)" by fastforce
  have "w_cluster w2 = w_cluster w" using call_keeps_cluster [of m addr w1] assms 2 c1 by simp
  then show ?case using Suc 1 2 c1 by (auto simp: Let_def split: option.split sum.split)
qed simp

lemma updateSize_keeps_cluster: "w_cluster (fst (updateSize c path sz w)) = w_cluster w"
  unfolding updateSize_def callMDSWithRedirect_def
  by (rule redirect_keeps_cluster) (simp add: write_method_def split: prod.split)

text \<open>A range held by every replica that is still there.\<close>

definition range_held :: "int64 \<Rightarrow> byte list \<Rightarrow> Replica list \<Rightarrow> cluster \<Rightarrow> bool" where
  "range_held off bs rs cl \<longleftrightarrow> (\<forall>r \<in> set rs. \<forall>n. cl_nodes cl (Addr r) = Some n \<longrightarrow> holds_range off bs r n)"

lemma range_held_upd:
  assumes "range_held off bs rs cl" "cl_nodes cl' = (cl_nodes cl)(a := v)"
    and "\<And>r n. r \<in> set rs \<Longrightarrow> Addr r = a \<Longrightarrow> v = Some n \<Longrightarrow> holds_range off bs r n"
  shows "range_held off bs rs cl'"
  using assms by (auto simp: range_held_def simp del: split_paired_All split: if_splits)

lemma read_keeps_blobs:
  "st_ok n \<Longrightarrow> on_node (\<lambda>dn. RangeRead dn \<lparr>rr_Path = p, rr_Offset = off, rr_Length = len\<rparr>) n = (n', g) \<Longrightarrow>
   st_blob n' = st_blob n"
  using RangeRead_files(1) [of "fst n" "snd n"] st_ok_dn [of n]
  by (auto simp: on_node_def st_blob_def split: prod.splits)

lemma rangeRead_step:
  assumes "range_held off bs rs cl" "nodes_ok cl" "r \<in> set rs" "length bs < 2 ^ 63"
    and "rangeRead r off (length bs) cl = (cl', res)"
  shows "range_held off bs rs cl' \<and> nodes_ok cl' \<and> (\<forall>x. res = Inr x \<longrightarrow> x = (bs, False))"
proof -
  let ?f = "\<lambda>dn. RangeRead dn \<lparr>rr_Path = RemotePath r, rr_Offset = off, rr_Length = word_of_nat (length bs)\<rparr>"
  obtain res1 where run: "on_replica (Addr r) ''range read failed: '' ?f cl = (cl', res1)"
    "res = (case res1 of Inl e \<Rightarrow> Inl e | Inr reply \<Rightarrow> Inr (take (length bs) (rr_Data reply), rr_EOF reply))"
    using assms(5) by (auto simp: rangeRead_def split: prod.splits sum.splits)
  have ok: "nodes_ok cl'" by (rule on_replica_ok [OF assms(2) run(1)]) (rule serving_step_ok(4))
  from run(1) show ?thesis
  proof (cases rule: on_replica_cases)
    case lost
    then show ?thesis using assms(1) ok run(2) by (cases res1) (auto simp: range_held_def)
  next
    case panic
    then show ?thesis using range_held_upd [OF assms(1) panic(1)] ok run(2) by (cases res1) auto
  next
    case (ran n n' r')
    have st: "st_ok n" using assms(2) ran(1) unfolding nodes_ok_def by blast
    note same = read_keeps_blobs [OF st ran(2)]
    have "st_ok n'" using serving_step_ok(4) [OF st ran(2)] .
    then have "holds_range off bs q n'" if "q \<in> set rs" "Addr q = Addr r" for q
      using assms(1) that ran(1) same unfolding range_held_def holds_range_def by metis
    then have held: "range_held off bs rs cl'" using range_held_upd [OF assms(1) ran(3)] by blast
    have "holds_range off bs r n" using assms(1,3) ran(1) unfolding range_held_def by blast
    then obtain d where d: "st_blob n (RemotePath r) = Some d" "take (length bs) (drop (nat (sint off)) d) = bs"
      unfolding holds_range_def by blast
    have "x = (bs, False)" if res: "res = Inr x" for x
    proof -
      obtain reply where r1: "res1 = Inr reply" "x = (take (length bs) (rr_Data reply), rr_EOF reply)"
        using res run(2) by (cases res1) auto
      then have "r' = Inr reply" using ran(4) by blast
      with ran(2) show ?thesis using dn_ranges.read_range [OF st d assms(4)] r1(2) by simp
    qed
    then show ?thesis using held ok by blast
  qed
qed

lemma read_loop_held:
  assumes "range_held off bs all cl" "nodes_ok cl" "set rs \<subseteq> set all" "length bs < 2 ^ 63"
    and "read_loop off (length bs) rs lastErr cl = (cl', Inr x)"
  shows "x = (bs, False)"
  using assms(1,2,3,5)
proof (induction rs arbitrary: cl lastErr)
  case (Cons r rs)
  obtain cl1 res where 1: "rangeRead r off (length bs) cl = (cl1, res)" by fastforce
  have "r \<in> set all" using Cons.prems(3) by simp
  note step = rangeRead_step [OF Cons.prems(1,2) this assms(4) 1]
  show ?case
  proof (cases res)
    case (Inl e)
    then show ?thesis using Cons.IH [of cl1 "Some e"] step Cons.prems(3,4) 1 by simp
  next
    case (Inr y)
    then show ?thesis using step Cons.prems(4) 1 by (cases y) simp
  qed
qed simp

lemma write_then_read:
  assumes "nodes_ok (w_cluster w)" "distinct (map Addr (fh_replicas fh))" "length bs < 2 ^ 63"
    and "WriteAt fh bs off w = (w1, Inr (fh', n))"
    and "cl_nodes (w_cluster w2) = cl_nodes (w_cluster w1)" "ReadAt fh' (length bs) off w2 = (w3, Inr (got, eof))"
  shows "n = length bs \<and> got = bs \<and> \<not> eof"
proof -
  let ?rs = "fh_replicas fh"
  obtain cl1 errs where each: "each_replica (partialWrite off bs) ?rs (w_cluster w) = (cl1, errs)" by fastforce
  let ?w = "w\<lparr>w_cluster := cl1\<rparr>"
  have succ: "successCount errs = length ?rs" and n: "n = length bs" and rs: "fh_replicas fh' = ?rs"
    and w1: "w1 = ?w \<or> (\<exists>sz. w1 = fst (updateSize (fh_client fh') (fh_path fh') sz ?w))"
    using assms(4) each
    by (auto simp: WriteAt_def on_cluster_def Let_def split: if_splits prod.splits) (metis fst_conv)+
  have cl1: "w_cluster w1 = cl1" using w1 updateSize_keeps_cluster by auto
  have ok1: "nodes_ok cl1" using write_op.each_ok [OF assms(1) each] by blast
  have "\<exists>n. cl_nodes cl1 (Addr r) = Some n \<and> holds_range off bs r n" if "r \<in> set ?rs" for r
    by (rule write_op.all_done [OF assms(1) each assms(2) succ that])
  then have "range_held off bs ?rs cl1" unfolding range_held_def by fastforce
  then have held: "range_held off bs ?rs (w_cluster w2)" using assms(5) cl1 by (simp add: range_held_def)
  have ok2: "nodes_ok (w_cluster w2)" using ok1 assms(5) cl1 by (simp add: nodes_ok_def)
  obtain cl3 where "read_loop off (length bs) ?rs None (w_cluster w2) = (cl3, Inr (got, eof))"
    using assms(6) rs by (auto simp: ReadAt_def on_cluster_def split: if_splits prod.splits sum.splits)
  from read_loop_held [OF held ok2 subset_refl assms(3) this] n show ?thesis by simp
qed

text \<open>C11. What a successful \<open>WriteAt\<close> has written, every later successful \<open>ReadAt\<close> of the range
  returns, from whichever replica and whatever network and disk faults came before it: all
  replicas of the file hold the bytes.\<close>

theorem written_range_read_from_any_replica:
  assumes "nodes_ok (w_cluster w)" "distinct (map Addr (fh_replicas fh))" "length bs < 2 ^ 63"
    and "WriteAt fh bs off w = (w1, Inr (fh', n))"
    and "cl_nodes (w_cluster w2) = cl_nodes (w_cluster w1)" "ReadAt fh' (length bs) off w2 = (w3, Inr (got, eof))"
  shows "n = length bs \<and> got = bs \<and> \<not> eof"
  using write_then_read [OF assms] .

text \<open>An open file with replicas on both data nodes.\<close>

definition sample_handle :: FileHandle where
  "sample_handle = \<lparr>fh_client = client1, fh_path = ''/d/f'', fh_fileID = ''i1'', fh_flags = 0,
     fh_replicas = [\<lparr>Addr = ''n1'', RemotePath = ''/data/i9''\<rparr>, \<lparr>Addr = ''n2'', RemotePath = ''/data/i9''\<rparr>],
     fh_size = 0, fh_status = ''pending''\<rparr>"

definition written_world :: world where
  "written_world = fst (WriteAt sample_handle [7, 9] 3 sample_world)"

definition written_handle :: FileHandle where
  "written_handle = sample_handle\<lparr>fh_size := 5, fh_status := ''complete''\<rparr>"

lemma sample_nodes_ok: "nodes_ok (w_cluster sample_world)"
  using sample_os_ok by (auto simp: nodes_ok_def sample_world_def st_ok_def split: if_splits)

lemma sample_write_runs: "snd (WriteAt sample_handle [7, 9] 3 sample_world) = Inr (written_handle, 2)"
  by code_simp

lemma sample_read_runs: "map_sum id (\<lambda>x. ()) (snd (ReadAt written_handle 2 3 written_world)) = Inr ()"
  by code_simp

theorem written_range_read_from_any_replica_witness:
  "map_sum id fst (snd (ReadAt written_handle 2 3 written_world)) = Inr [7, 9]"
proof -
  obtain w3 got eof where read: "ReadAt written_handle 2 3 written_world = (w3, Inr (got, eof))"
    using sample_read_runs
    by (cases "ReadAt written_handle 2 3 written_world"; cases "snd (ReadAt written_handle 2 3 written_world)") auto
  have d: "distinct (map Addr (fh_replicas sample_handle))" by code_simp
  have run: "WriteAt sample_handle [7, 9] 3 sample_world = (written_world, Inr (written_handle, 2))"
    using run_eq [OF sample_write_runs] by (simp add: written_world_def)
  have "ReadAt written_handle (length [7, 9 :: byte]) 3 written_world = (w3, Inr (got, eof))" using read by (simp add: numeral_2_eq_2)
  from written_range_read_from_any_replica [OF sample_nodes_ok d _ run refl this] read show ?thesis by simp
qed

end
