(* ===== verification/File_Transfer.thy ===== *)
theory File_Transfer
  imports Client_Properties
begin

section \<open>Uploading and downloading whole files\<close>

text \<open>
  \<open>PutFile\<close> and \<open>GetFile\<close> (\<open>internal/client/client.go\<close>) against the data nodes and, on a
  cluster whose leader applies commands at once, end to end.
\<close>

subsection \<open>The data\<close>

text \<open>At the paths of the replicas there is nothing or the content, wherever a node is left.\<close>

definition only_content :: "byte list \<Rightarrow> Replica list \<Rightarrow> cluster \<Rightarrow> bool" where
  "only_content c rs cl \<longleftrightarrow>
     (\<forall>r \<in> set rs. \<forall>n. cl_nodes cl (Addr r) = Some n \<longrightarrow> st_blob n (RemotePath r) \<in> {None, Some c})"

lemma only_content_upd:
  assumes "only_content c rs cl" "cl_nodes cl' = (cl_nodes cl)(a := v)"
    and "\<And>r n. r \<in> set rs \<Longrightarrow> Addr r = a \<Longrightarrow> v = Some n \<Longrightarrow> st_blob n (RemotePath r) \<in> {None, Some c}"
  shows "only_content c rs cl'"
  unfolding only_content_def
proof (intro ballI allI impI)
  fix r n assume r: "r \<in> set rs" "cl_nodes cl' (Addr r) = Some n"
  show "st_blob n (RemotePath r) \<in> {None, Some c}"
  proof (cases "Addr r = a")
    case True
    then show ?thesis using assms(2,3) r by simp
  next
    case False
    then have "cl_nodes cl (Addr r) = Some n" using assms(2) r(2) by simp
    then show ?thesis using assms(1) r(1) unfolding only_content_def by blast
  qed
qed

lemma storeReplica_only:
  assumes "only_content c all cl" "nodes_ok cl" "r \<in> set all" "inj_on Addr (set all)" "storeReplica c r cl = (cl', x)"
  shows "only_content c all cl'"
  using assms(5) unfolding storeReplica_def
proof (cases rule: on_replica_cases)
  case lost
  then show ?thesis using assms(1) by (simp add: only_content_def)
next
  case panic
  then show ?thesis using only_content_upd [OF assms(1)] by blast
next
  case (ran n n' r')
  have st: "st_ok n" using assms(2) ran(1) unfolding nodes_ok_def by blast
  have "st_blob n (RemotePath r) \<in> {None, Some c}" using assms(1,3) ran(1) unfolding only_content_def by blast
  then have new: "st_blob n' (RemotePath r) \<in> {None, Some c}" by (rule dn_blobs.put_only [OF st ran(2)])
  show ?thesis
  proof (rule only_content_upd [OF assms(1) ran(3)])
    fix q m assume q: "q \<in> set all" "Addr q = Addr r" "Some n' = Some m"
    then have "q = r" using assms(3,4) by (simp add: inj_on_def)
    then show "st_blob m (RemotePath q) \<in> {None, Some c}" using new q(3) by simp
  qed
qed

lemma each_store_only:
  assumes "only_content c all cl" "nodes_ok cl" "set rs \<subseteq> set all" "inj_on Addr (set all)"
    and "each_replica (storeReplica c) rs cl = (cl', errs)"
  shows "only_content c all cl'"
  using assms(1,2,3,5)
proof (induction rs arbitrary: cl errs)
  case (Cons r rs)
  obtain cl1 x es where 1: "storeReplica c r cl = (cl1, x)" "each_replica (storeReplica c) rs cl1 = (cl', es)"
    using Cons.prems(4) by (auto split: prod.splits)
  have "r \<in> set all" using Cons.prems(3) by simp
  from storeReplica_only [OF Cons.prems(1,2) this assms(4) 1(1)] store_op.ok_law [OF Cons.prems(2) 1(1)]
  show ?case using Cons.IH [of cl1 es] Cons.prems(3) 1(2) by simp
qed simp

lemma readReplica_step:
  assumes "only_content c all cl" "nodes_ok cl" "r \<in> set all" "readReplica r cl = (cl', res)"
  shows "only_content c all cl' \<and> nodes_ok cl' \<and> (\<forall>bs. res = Inr bs \<longrightarrow> bs = c)"
proof -
  have ok: "nodes_ok cl'"
    using assms(4) unfolding readReplica_def by (rule on_replica_ok [OF assms(2)]) (rule serving_step_ok(3))
  from assms(4) show ?thesis unfolding readReplica_def
  proof (cases rule: on_replica_cases)
    case lost
    then show ?thesis using assms(1) ok by (simp add: only_content_def)
  next
    case panic
    then show ?thesis using only_content_upd [OF assms(1)] ok by blast
  next
    case (ran n n' r')
    have st: "st_ok n" using assms(2) ran(1) unfolding nodes_ok_def by blast
    note g = dn_blobs.get_law [OF st ran(2)]
    have "only_content c all cl'"
    proof (rule only_content_upd [OF assms(1) ran(3)])
      fix q m assume "q \<in> set all" "Addr q = Addr r" "Some n' = Some m"
      then show "st_blob m (RemotePath q) \<in> {None, Some c}"
        using g assms(1) ran(1) unfolding only_content_def by (metis option.inject)
    qed
    moreover have "bs = c" if "res = Inr bs" for bs
    proof -
      have "st_blob n (RemotePath r) = Some bs" using g ran(4) [OF that] by blast
      moreover have "st_blob n (RemotePath r) \<in> {None, Some c}"
        using assms(1,3) ran(1) unfolding only_content_def by blast
      ultimately show ?thesis by simp
    qed
    ultimately show ?thesis using ok by blast
  qed
qed

lemma first_content_only:
  assumes "only_content c all cl" "nodes_ok cl" "set rs \<subseteq> set all" "first_content rs lastErr cl = (cl', res, e)"
  shows "res = None \<or> res = Some c"
  using assms
proof (induction rs arbitrary: cl lastErr)
  case (Cons r rs)
  obtain cl1 x where 1: "readReplica r cl = (cl1, x)" by fastforce
  have "r \<in> set all" using Cons.prems(3) by simp
  note step = readReplica_step [OF Cons.prems(1,2) this 1]
  show ?case
  proof (cases x)
    case (Inl err)
    then show ?thesis using Cons.IH [of cl1 "Some err"] step Cons.prems(3,4) 1 by simp
  next
    case (Inr bs)
    then show ?thesis using step Cons.prems(4) 1 by (cases "c = []") (auto simp: decoded_def)
  qed
qed simp

text \<open>A replica that holds the content, on a node that answers and a disk without faults.\<close>

definition answers :: "byte list \<Rightarrow> Replica \<Rightarrow> cluster \<Rightarrow> bool" where
  "answers c r cl \<longleftrightarrow> (\<exists>dn os real. cl_nodes cl (Addr r) = Some (dn, os) \<and> cl_net cl (Addr r) = [] \<and> healthy os \<and>
     st_ok (dn, os) \<and> st_blob (dn, os) (RemotePath r) = Some c \<and> resolvePath dn (RemotePath r) = Inr real)"

lemma answers_read: "answers c r cl \<Longrightarrow> \<exists>cl'. readReplica r cl = (cl', Inr c)"
proof -
  assume "answers c r cl"
  then obtain dn os real where a: "cl_nodes cl (Addr r) = Some (dn, os)" "cl_net cl (Addr r) = []" "healthy os"
    "st_ok (dn, os)" "st_blob (dn, os) (RemotePath r) = Some c" "resolvePath dn (RemotePath r) = Inr real"
    unfolding answers_def by blast
  have reach: "reaches cl (Addr r)" using a(1,2) by (simp add: reaches_def)
  have "GetData dn (RemotePath r) os = (os, Inr c)"
    using GetData_healthy [OF _ _ a(3,6)] st_ok_dn [OF a(4)] a(5) by (simp add: st_blob_def)
  then show ?thesis
    using call_working [where f = "\<lambda>dn. GetData dn (RemotePath r)", OF reach a(1)] dial_working [OF reach]
    by (simp add: readReplica_def on_replica_def dialDataNode_def)
qed

lemma readReplica_frame:
  "a \<noteq> Addr r \<Longrightarrow> cl_nodes (fst (readReplica r cl)) a = cl_nodes cl a \<and> cl_net (fst (readReplica r cl)) a = cl_net cl a"
  using dial_node_frame [of a "Addr r" cl]
    call_node_frame [of a "Addr r" "\<lambda>dn. GetData dn (RemotePath r)" "fst (dial_node (Addr r) cl)"]
  by (auto simp: readReplica_def on_replica_def dialDataNode_def split: prod.splits option.splits sum.splits)

lemma first_content_available:
  assumes "answers c q cl" "q \<in> set rs" "distinct (map Addr rs)" "c \<noteq> []"
    and "only_content c all cl" "nodes_ok cl" "set rs \<subseteq> set all"
    and "first_content rs lastErr cl = (cl', res, e)"
  shows "res = Some c"
  using assms(1,2,3,5-)
proof (induction rs arbitrary: cl lastErr)
  case (Cons r rs)
  obtain cl1 x where 1: "readReplica r cl = (cl1, x)" by fastforce
  have "r \<in> set all" using Cons.prems(6) by simp
  note step = readReplica_step [OF Cons.prems(4,5) this 1]
  show ?case
  proof (cases x)
    case (Inl err)
    then have "q \<noteq> r" using answers_read Cons.prems(1) 1 by fastforce
    then have q: "q \<in> set rs" "Addr q \<noteq> Addr r" using Cons.prems(2,3) by (auto simp: image_iff)
    then have "answers c q cl1"
      using Cons.prems(1) readReplica_frame [OF q(2), of cl] 1 by (simp add: answers_def)
    then show ?thesis using Cons.IH [of cl1 "Some err"] step Cons.prems(3,6,7) q(1) Inl 1 by simp
  next
    case (Inr bs)
    then show ?thesis using step Cons.prems(7) assms(4) 1 by (auto simp: decoded_def split: if_splits)
  qed
qed simp

text \<open>Upload and download of the data agree under faults: after the content has been stored, with
  whatever success, at replica paths that were free, a download returns nothing or exactly that
  content, and it does return a non-empty content when a replica whose store succeeded answers.\<close>

theorem uploaded_content_is_downloaded:
  assumes "nodes_ok cl" "distinct (map Addr rs)"
    and "\<And>r n. r \<in> set rs \<Longrightarrow> cl_nodes cl (Addr r) = Some n \<Longrightarrow> st_blob n (RemotePath r) = None"
    and "each_replica (storeReplica content) rs cl = (cl1, errs)"
    and "cl_nodes cl2 = cl_nodes cl1" "first_content rs None cl2 = (cl3, res, e)"
  shows "(res = None \<or> res = Some content) \<and>
    (content \<noteq> [] \<longrightarrow> (\<exists>r \<in> set rs. answers content r cl2) \<longrightarrow> res = Some content)"
proof -
  have inj: "inj_on Addr (set rs)" using assms(2) by (simp add: distinct_map)
  have "only_content content rs cl" using assms(3) unfolding only_content_def by blast
  from each_store_only [OF this assms(1) subset_refl inj assms(4)]
  have only: "only_content content rs cl2" by (simp add: only_content_def assms(5))
  have ok: "nodes_ok cl2" using store_op.each_ok [OF assms(1,4)] assms(5) by (simp add: nodes_ok_def)
  show ?thesis
    using first_content_only [OF only ok subset_refl assms(6)]
      first_content_available [OF _ _ assms(2) _ only ok subset_refl assms(6)] by blast
qed

subsection \<open>End to end\<close>

text \<open>A leader that applies commands at once: the submission is the application.\<close>

lemma local_submit:
  assumes "payload_utf8 p"
  shows "submit_reply (local_node t) p r mds =
    (case apply_payload t (p_Op p) p mds of
       (mds', None) \<Rightarrow> (mds', Inr r)
     | (mds', Some e) \<Rightarrow> (mds', Inl (ErrRaftDo (error_text e))))"
  using wire_payload_utf8 [OF assms]
  by (auto simp: submit_reply_def submitCommand_def local_node_def local_do_def Apply_def Unmarshal_Marshal Let_def
      split: prod.split option.split)

lemma CreateFile_local:
  assumes "mds_inv mds" "CreateFile (local_node t) (Inr buf) args mds = (mds', Inr reply)"
    and "utf8_ok (cf_Path args)" "list_all utf8_ok (dataNodes mds)"
  shows "mds_inv mds' \<and> (\<exists>e. mds_view mds' (splitPath (cf_Path args)) = Some e \<and> \<not> isDir e \<and> replicas e = cr_Replicas reply \<and>
      (mds_view mds (splitPath (cf_Path args)) = None \<longrightarrow> fileID e = EncodeToString buf)) \<and>
    distinct (map Addr (cr_Replicas reply)) \<and> (\<forall>r \<in> set (cr_Replicas reply). RemotePath r = ''/data/'' @ EncodeToString buf) \<and>
    (mds_view mds (splitPath (cf_Path args)) \<noteq> None \<longrightarrow> file_id (mds_view mds') = file_id (mds_view mds))"
proof -
  obtain reps where sub: "submit_reply (local_node t) (created_payload args buf reps) \<lparr>cr_Replicas = reps\<rparr> mds = (mds', Inr reply)"
    and u: "payload_utf8 (created_payload args buf reps)" and reps: "distinct (map Addr reps)"
    "\<forall>r \<in> set reps. RemotePath r = ''/data/'' @ EncodeToString buf"
    using CreateFile_submits [OF assms] by blast
  let ?p = "created_payload args buf reps"
  have ap: "apply_payload t OpCreateFile ?p mds = (mds', None)" "reply = \<lparr>cr_Replicas = reps\<rparr>"
    using sub local_submit [OF u, of t "\<lparr>cr_Replicas = reps\<rparr>" mds] by (auto split: prod.splits option.splits)
  then have c: "applyCreateFile t ?p mds = (mds', None)" by (simp add: apply_payload_def op_defs)
  have "mds_inv mds'" using apply_payload_inv [OF assms(1), of t OpCreateFile ?p] ap(1) by simp
  moreover have "\<exists>e. mds_view mds' (splitPath (cf_Path args)) = Some e \<and> \<not> isDir e \<and> replicas e = reps \<and>
      (mds_view mds (splitPath (cf_Path args)) = None \<longrightarrow> fileID e = EncodeToString buf)"
    using created_view [OF assms(1) c] by (auto simp: file_entry_def split: option.splits)
  moreover have "file_id (mds_view mds') = file_id (mds_view mds)" if "mds_view mds (splitPath (cf_Path args)) \<noteq> None"
  proof -
    have "(mds_view mds', None) = spec_create t ?p (mds_view mds)"
      using applyCreateFile_refines [OF _ c] assms(1) by (simp add: mds_inv_def)
    then show ?thesis using that
      by (auto simp: spec_create_def Let_def file_id_overwrite split: if_splits option.splits)
  qed
  ultimately show ?thesis using ap(2) reps by simp
qed

lemma CompleteFile_local:
  assumes "mds_inv mds" "mds_view mds (splitPath path) = Some e" "\<not> isDir e" "utf8_ok path"
  shows "\<exists>mds' e'. CompleteFile (local_node t) path mds = (mds', Inr True) \<and> mds_inv mds' \<and>
    mds_view mds' (splitPath path) = Some e' \<and> \<not> isDir e' \<and> replicas e' = replicas e \<and> fileID e' = fileID e \<and> entry_status e' = StatusComplete \<and>
    file_id (mds_view mds') = file_id (mds_view mds)"
proof -
  let ?p = "empty_payload\<lparr>p_Op := OpCompleteFile, p_Path := path\<rparr>"
  have "utf8_ok OpCompleteFile" unfolding OpCompleteFile_def by code_simp
  then have u: "payload_utf8 ?p" using assms(4) by (simp add: payload_utf8_def empty_payload_def)
  obtain mds' err where run: "applyCompleteFile t ?p mds = (mds', err)" by fastforce
  have ok: "mds_ok mds" using assms(1) by (simp add: mds_inv_def)
  have "(mds_view mds', err) = spec_complete t ?p (mds_view mds)" using applyCompleteFile_refines [OF ok run] by simp
  then have v: "err = None" "mds_view mds' = (mds_view mds)(splitPath path \<mapsto> e\<lparr>entry_status := StatusComplete, modTime := t\<rparr>)"
    using assms(2,3) by (simp_all add: spec_complete_def)
  have "file_id (mds_view mds') = file_id (mds_view mds)"
    using v(2) assms(2,3) by (intro ext) (simp add: file_id_def)
  have ap: "apply_payload t OpCompleteFile ?p mds = (mds', None)"
    using run v(1) by (simp add: apply_payload_def op_defs)
  then have "mds_inv mds'" using apply_payload_inv [OF assms(1), of t OpCompleteFile ?p] by simp
  moreover have "CompleteFile (local_node t) path mds = (mds', Inr True)"
    using local_submit [OF u, of t True mds] ap by (simp add: CompleteFile_def checkLeader_def local_node_def)
  ultimately show ?thesis using v(2) assms(3) \<open>file_id (mds_view mds') = file_id (mds_view mds)\<close> by auto
qed

lemma GetFileLocation_view:
  assumes "mds_inv mds" "mds_view mds (splitPath path) = Some e" "\<not> isDir e"
  shows "\<exists>fid. GetFileLocation mds path = Inr \<lparr>fl_FileID = fid, fl_Replicas = replicas e, fl_Status = entry_status e\<rparr>"
  using lookup_entry_view [OF assms(1), of path] assms(2,3) by (auto simp: GetFileLocation_def)

text \<open>A call on a working server whose method does not touch the rest of the world.\<close>

lemma redirect_direct:
  assumes "mds_reaches w a" "w_mds w a = Some (rf, mds)" "f rf mds = (mds', Inr reply)"
  shows "redirect_loop 3 method (write_method f) a w = (w\<lparr>w_mds := (w_mds w)(a \<mapsto> (rf, mds'))\<rparr>, Inr reply)"
proof -
  have "call_mds a (write_method f) w = (w\<lparr>w_mds := (w_mds w)(a \<mapsto> (rf, mds'))\<rparr>, Inr reply)"
    using call_mds_working [OF assms(1,2), of "write_method f" w mds' "Inr reply"] assms(3) by (simp add: write_method_def)
  then show ?thesis using dial_mds_working [OF assms(1)] by (simp add: numeral_3_eq_3)
qed

lemma ask_direct:
  assumes "mds_reaches w (c_mdsAddr c)" "w_mds w (c_mdsAddr c) = Some (rf, mds)" "f mds = Inr x"
  shows "ask_with_context c ctx f w = (w, Inr x)"
proof -
  have "w\<lparr>w_mds := (w_mds w)(c_mdsAddr c \<mapsto> (rf, mds))\<rparr> = w" using assms(2) by (simp add: fun_upd_idem)
  then have "call_mds (c_mdsAddr c) (read_method f) w = (w, Inr x)"
    using call_mds_working [OF assms(1,2), of "read_method f" w mds "Inr x"] assms(3) by (simp add: read_method_def)
  then show ?thesis
    using dial_mds_working [OF assms(1)] by (simp add: ask_with_context_def dialMDS_def with_context_def)
qed

lemma ask_refused:
  assumes "mds_reaches w (c_mdsAddr c)" "w_mds w (c_mdsAddr c) = Some (rf, mds)" "f mds = Inl e"
  shows "ask_with_context c ctx f w = (w, Inl (ctx @ '': '' @ error_text e))"
proof -
  have "w\<lparr>w_mds := (w_mds w)(c_mdsAddr c \<mapsto> (rf, mds))\<rparr> = w" using assms(2) by (simp add: fun_upd_idem)
  then have "call_mds (c_mdsAddr c) (read_method f) w = (w, Inl (error_text e))"
    using call_mds_working [OF assms(1,2), of "read_method f" w mds "Inl e"] assms(3) by (simp add: read_method_def)
  then show ?thesis
    using dial_mds_working [OF assms(1)] by (simp add: ask_with_context_def dialMDS_def with_context_def)
qed

text \<open>With one metadata server, a call that succeeds has succeeded there at the first try.\<close>

lemma single_server:
  assumes "\<And>b. b \<noteq> a \<Longrightarrow> w_mds w b = None" "mds_reaches w a" "w_mds w a = Some (rf, mds)"
    and "m rf mds w = (w', mds', r)" "w_mds w' = w_mds w"
    and "redirect_loop 3 method m a w = (w1, Inr reply)"
  shows "r = Inr reply \<and> w1 = w'\<lparr>w_mds := (w_mds w)(a \<mapsto> (rf, mds'))\<rparr>"
proof -
  let ?w = "w'\<lparr>w_mds := (w_mds w)(a \<mapsto> (rf, mds'))\<rparr>"
  have call: "call_mds a m w = (?w, map_sum error_text id r)"
    using call_mds_working [where m = m, OF assms(2,3,4)] assms(5) by simp
  show ?thesis
  proof (cases r)
    case (Inr x)
    then show ?thesis
      using assms(6) dial_mds_working [OF assms(2)] call by (simp add: numeral_3_eq_3)
  next
    case (Inl e)
    have "redirect_loop (Suc (Suc 0)) method m l ?w \<noteq> (w1, Inr reply)" if "l \<noteq> a" for l
    proof -
      have "w_mds ?w l = None" using assms(1) that by simp
      then have "\<exists>w2 e. dial_mds l ?w = (w2, Some e)" by (cases "draw_net l (w_mdsnet ?w)") (simp add: dial_mds_def)
      then show ?thesis by auto
    qed
    then show ?thesis
      using assms(6) dial_mds_working [OF assms(2)] call Inl
      by (auto simp: numeral_3_eq_3 Let_def split: if_splits)
  qed
qed

text \<open>With one metadata server a call leaves it as the method does, whatever the client is told.\<close>

definition sole_server :: "string \<Rightarrow> raft_node \<Rightarrow> MetadataServer \<Rightarrow> world \<Rightarrow> bool" where
  "sole_server a rf mds w \<longleftrightarrow> (\<forall>b. b \<noteq> a \<longrightarrow> w_mds w b = None) \<and> mds_reaches w a \<and> w_mds w a = Some (rf, mds)"

lemma dial_absent: "w_mds w l = None \<Longrightarrow> \<exists>n e. dial_mds l w = (w\<lparr>w_mdsnet := n\<rparr>, Some e) \<and> (\<forall>a. a \<noteq> l \<longrightarrow> n a = w_mdsnet w a)"
proof -
  assume l: "w_mds w l = None"
  obtain n f where d: "draw_net l (w_mdsnet w) = (n, f)" by fastforce
  then have "n a = w_mdsnet w a" if "a \<noteq> l" for a using draw_net_other that by blast
  moreover have "dial_mds l w = (w\<lparr>w_mdsnet := n\<rparr>, Some (refused l))" using d l by (simp add: dial_mds_def)
  ultimately show ?thesis by blast
qed

lemma sole_server_call:
  assumes "sole_server a rf mds w" "redirect_loop 3 method (write_method f) a w = (w1, x)"
  shows "sole_server a rf (fst (f rf mds)) w1 \<and> w_cluster w1 = w_cluster w \<and> w_local w1 = w_local w"
proof -
  obtain mds' r where r: "f rf mds = (mds', r)" by fastforce
  let ?w = "w\<lparr>w_mds := (w_mds w)(a \<mapsto> (rf, mds'))\<rparr>"
  have a: "mds_reaches w a" "w_mds w a = Some (rf, mds)" "w_mds w b = None" if "b \<noteq> a" for b
    using assms(1) that by (simp_all add: sole_server_def)
  have reach: "mds_reaches w a" "w_mds w a = Some (rf, mds)" using assms(1) by (simp_all add: sole_server_def)
  have call: "call_mds a (write_method f) w = (?w, map_sum error_text id r)"
    using call_mds_working [OF reach, of "write_method f" w mds' r] r by (simp add: write_method_def)
  have keep: "sole_server a rf mds' ?w" using assms(1) by (simp add: sole_server_def mds_reaches_def)
  show ?thesis
  proof (cases "w1 = ?w")
    case True
    then show ?thesis using keep r by simp
  next
    case False
    then obtain l where l: "l \<noteq> a" "redirect_loop (Suc (Suc 0)) method (write_method f) l ?w = (w1, x)"
      using assms(2) call dial_mds_working [OF reach(1)]
      by (auto simp: numeral_3_eq_3 Let_def split: sum.splits if_splits)
    have "w_mds ?w l = None" using a(3) l(1) by simp
    then obtain n e where d: "dial_mds l ?w = (?w\<lparr>w_mdsnet := n\<rparr>, Some e)" "\<forall>b. b \<noteq> l \<longrightarrow> n b = w_mdsnet ?w b"
      using dial_absent by blast
    then have "w1 = ?w\<lparr>w_mdsnet := n\<rparr>" using l(2) by simp
    moreover have "n a = w_mdsnet w a" using d(2) l(1) by simp
    ultimately show ?thesis using keep r by (simp add: sole_server_def mds_reaches_def)
  qed
qed

lemma only_content_fresh:
  assumes "\<And>addr n. cl_nodes cl addr = Some n \<Longrightarrow> st_blob n p = None" "\<forall>r \<in> set rs. RemotePath r = p"
  shows "only_content c rs cl"
  using assms by (auto simp: only_content_def simp del: split_paired_All)

lemma local_read:
  assumes "os_ok os" "os_ReadFile path os = (os', Inr d)"
  shows "files os (os_path path) = Some d \<and> os_files os' = os_files os"
  using os_ReadFile_ok [OF assms] os_read_files(1) [of path os] assms(2) by simp

text \<open>What a successful upload leaves: a complete file, and the content offered to its replicas.\<close>

lemma put_result:
  assumes server: "sole_server (c_mdsAddr c) (local_node t) mds w" "mds_inv mds"
    and utf8: "utf8_ok remote" "list_all utf8_ok (dataNodes mds)" and rnd: "w_rand w = Inr buf # rnd"
    and ok: "os_ok (w_local w)" "files (w_local w) (os_path src) = Some content"
    and put: "PutFile c src remote opts w = (w1, Inr ())"
  shows "\<exists>mds1 e errs. sole_server (c_mdsAddr c) (local_node t) mds1 w1 \<and> mds_inv mds1 \<and>
    mds_view mds1 (splitPath remote) = Some e \<and> \<not> isDir e \<and> entry_status e = StatusComplete \<and>
    (mds_view mds (splitPath remote) = None \<longrightarrow> fileID e = EncodeToString buf) \<and>
    distinct (map Addr (replicas e)) \<and> (\<forall>r \<in> set (replicas e). RemotePath r = ''/data/'' @ EncodeToString buf) \<and>
    each_replica (storeReplica content) (replicas e) (w_cluster w) = (w_cluster w1, errs) \<and> successCount errs \<noteq> 0 \<and>
    os_files (w_local w1) = os_files (w_local w) \<and>
    (mds_view mds (splitPath remote) \<noteq> None \<longrightarrow> file_id (mds_view mds1) = file_id (mds_view mds))"
proof -
  let ?a = "c_mdsAddr c"
  have w: "\<And>b. b \<noteq> ?a \<Longrightarrow> w_mds w b = None" "mds_reaches w ?a" "w_mds w ?a = Some (local_node t, mds)"
    using server(1) by (simp_all add: sole_server_def)
  obtain os d where r: "os_ReadFile src (w_local w) = (os, Inr d)"
    using put by (cases "os_ReadFile src (w_local w)"; cases "snd (os_ReadFile src (w_local w))") (auto simp: PutFile_def Let_def)
  then have d: "d = content" "os_files os = os_files (w_local w)" using local_read [OF ok(1) r] ok(2) by simp_all
  define args where "args = \<lparr>cf_Path = remote, cf_Size = word_of_nat (length content),
    cf_CreateMode = fold (\<lambda>mode cfg. mode) opts CreateIfNotExist\<rparr>"
  let ?w = "w\<lparr>w_local := os\<rparr>"
  obtain wc reply where create: "redirect_loop 3 ''MetadataService.CreateFile'' (create_method args) ?a ?w = (wc, Inr reply)"
    using put r d(1)
    by (cases "redirect_loop 3 ''MetadataService.CreateFile'' (create_method args) ?a ?w";
        cases "snd (redirect_loop 3 ''MetadataService.CreateFile'' (create_method args) ?a ?w)")
       (auto simp: PutFile_def Let_def callMDSWithRedirect_def args_def)
  obtain mds0 rc where cf: "CreateFile (local_node t) (Inr buf) args mds = (mds0, rc)" by fastforce
  have "create_method args (local_node t) mds ?w = (?w\<lparr>w_rand := rnd\<rparr>, mds0, rc)"
    using rnd cf by (simp add: create_method_def draw_rand_def)
  from single_server [where m = "create_method args", OF _ _ _ this _ create] w
  have rc: "rc = Inr reply" and wc: "wc = ?w\<lparr>w_rand := rnd, w_mds := (w_mds w)(?a \<mapsto> (local_node t, mds0))\<rparr>"
    by (simp_all add: mds_reaches_def)
  let ?rs = "cr_Replicas reply"
  obtain e where mds0: "mds_inv mds0" "mds_view mds0 (splitPath remote) = Some e" "\<not> isDir e" "replicas e = ?rs"
    "mds_view mds (splitPath remote) = None \<longrightarrow> fileID e = EncodeToString buf"
    "distinct (map Addr ?rs)" "\<forall>r \<in> set ?rs. RemotePath r = ''/data/'' @ EncodeToString buf"
    "mds_view mds (splitPath remote) \<noteq> None \<longrightarrow> file_id (mds_view mds0) = file_id (mds_view mds)"
    using CreateFile_local [OF server(2) cf [unfolded rc]] utf8 by (auto simp: args_def)
  obtain cl1 errs where each: "each_replica (storeReplica content) ?rs (w_cluster w) = (cl1, errs)" by fastforce
  let ?ws = "wc\<lparr>w_cluster := cl1\<rparr>"
  obtain mds1 e1 where cp: "CompleteFile (local_node t) remote mds0 = (mds1, Inr True)" and mds1: "mds_inv mds1"
    "mds_view mds1 (splitPath remote) = Some e1" "\<not> isDir e1" "replicas e1 = ?rs" "fileID e1 = fileID e"
    "entry_status e1 = StatusComplete" "file_id (mds_view mds1) = file_id (mds_view mds0)"
    using CompleteFile_local [OF mds0(1,2,3) utf8(1), of t] mds0(4) by metis
  have reach: "mds_reaches ?ws ?a" "w_mds ?ws ?a = Some (local_node t, mds0)"
    using w(2,3) wc by (simp_all add: mds_reaches_def)
  note complete = redirect_direct [where f = "\<lambda>rf. CompleteFile rf remote", OF reach cp, of "''MetadataService.CompleteFile''"]
  have "w1 = ?ws\<lparr>w_mds := (w_mds ?ws)(?a \<mapsto> (local_node t, mds1))\<rparr> \<and> successCount errs \<noteq> 0"
    using put r d(1) create each complete wc
    by (auto simp: PutFile_def Let_def callMDSWithRedirect_def args_def [symmetric] on_cluster_def split: if_splits prod.splits)
  moreover from this have "sole_server ?a (local_node t) mds1 w1"
    using w wc by (simp add: sole_server_def mds_reaches_def)
  ultimately show ?thesis using mds0(5-8) mds1 each wc d(2) by (intro exI [of _ mds1] exI [of _ e1] exI [of _ errs]) simp
qed

text \<open>A download of a complete file is the first answer of its replicas, written to the local disk.\<close>

lemma get_result:
  assumes "sole_server (c_mdsAddr c) rf mds w" "mds_inv mds" "mds_view mds (splitPath remote) = Some e" "\<not> isDir e"
    and "entry_status e = StatusComplete" "first_content (replicas e) None (w_cluster w) = (cl, res, err)"
  shows "GetFile c remote dst w =
    (case res of
       None \<Rightarrow> (w\<lparr>w_cluster := cl\<rparr>,
         Inl (''all '' @ Itoa (length (replicas e)) @ '' replicas failed, last error: '' @ wrapped err))
     | Some d \<Rightarrow> write_local dst d (w\<lparr>w_cluster := cl\<rparr>))"
proof -
  obtain fid where loc: "GetFileLocation mds remote = Inr \<lparr>fl_FileID = fid, fl_Replicas = replicas e, fl_Status = StatusComplete\<rparr>"
    using GetFileLocation_view [OF assms(2,3,4)] assms(5) by auto
  have "ask_with_context c ''get file location failed'' (\<lambda>mds. GetFileLocation mds remote) w =
      (w, Inr \<lparr>fl_FileID = fid, fl_Replicas = replicas e, fl_Status = StatusComplete\<rparr>)"
    using ask_direct [where f = "\<lambda>mds. GetFileLocation mds remote", OF _ _ loc] assms(1) by (simp add: sole_server_def)
  then show ?thesis
    using assms(6) by (simp add: GetFile_def on_cluster_def StatusComplete_def split: option.split)
qed

text \<open>A download after an upload writes what was uploaded, if both succeed.\<close>

lemma transfer_content:
  assumes server: "sole_server (c_mdsAddr c) (local_node t) mds w" "mds_inv mds"
    and utf8: "utf8_ok remote" "list_all utf8_ok (dataNodes mds)"
    and fresh: "w_rand w = Inr buf # rnd"
    "\<And>addr n. cl_nodes (w_cluster w) addr = Some n \<Longrightarrow> st_blob n (''/data/'' @ EncodeToString buf) = None"
    and ok: "nodes_ok (w_cluster w)" "os_ok (w_local w)" "files (w_local w) (os_path src) = Some content"
    and put: "PutFile c src remote opts w = (w1, Inr ())" and get: "GetFile c remote dst w1 = (w2, Inr ())"
  shows "files (w_local w2) (os_path dst) = Some content"
proof -
  obtain mds1 e errs where p: "sole_server (c_mdsAddr c) (local_node t) mds1 w1" "mds_inv mds1"
    "mds_view mds1 (splitPath remote) = Some e" "\<not> isDir e" "entry_status e = StatusComplete"
    "distinct (map Addr (replicas e))" "\<forall>r \<in> set (replicas e). RemotePath r = ''/data/'' @ EncodeToString buf"
    "each_replica (storeReplica content) (replicas e) (w_cluster w) = (w_cluster w1, errs)"
    "os_files (w_local w1) = os_files (w_local w)"
    using put_result [OF server utf8 fresh(1) ok(2,3) put] by blast
  obtain cl res err where first: "first_content (replicas e) None (w_cluster w1) = (cl, res, err)" using prod_cases3 by blast
  have "only_content content (replicas e) (w_cluster w)" by (rule only_content_fresh [OF fresh(2) p(7)])
  moreover have "inj_on Addr (set (replicas e))" using p(6) by (simp add: distinct_map)
  ultimately have "only_content content (replicas e) (w_cluster w1)"
    using each_store_only [OF _ ok(1) subset_refl _ p(8)] by blast
  moreover have "nodes_ok (w_cluster w1)" using store_op.each_ok [OF ok(1) p(8)] by blast
  ultimately have "res = None \<or> res = Some content" by (rule first_content_only [OF _ _ subset_refl first])
  then have "write_local dst content (w1\<lparr>w_cluster := cl\<rparr>) = (w2, Inr ())"
    using get get_result [OF p(1-5) first, of dst] by auto
  then obtain os where "os_WriteFile dst content (w_local w1) = (os, Inr ())" "w_local w2 = os"
    by (auto simp: write_local_def split: prod.splits sum.splits)
  then show ?thesis using os_WriteFile_ok [of "w_local w1" dst content os "Inr ()", OF _ _ refl] ok(2) p(9) by simp
qed

text \<open>C5. What is uploaded is downloaded, end to end: with one metadata server that applies its
  commands at once and a working network to it, but any faults of the data nodes, their disks and
  the network to them, if an upload to a path and a download from it both succeed, the local
  file that the download wrote has the content of the file that was uploaded.\<close>

theorem put_then_get:
  assumes server: "sole_server (c_mdsAddr c) (local_node t) mds w" "mds_inv mds"
    and utf8: "utf8_ok remote" "list_all utf8_ok (dataNodes mds)"
    and fresh: "w_rand w = Inr buf # rnd"
    "\<And>addr n. cl_nodes (w_cluster w) addr = Some n \<Longrightarrow> st_blob n (''/data/'' @ EncodeToString buf) = None"
    and ok: "nodes_ok (w_cluster w)" "os_ok (w_local w)" "files (w_local w) (os_path src) = Some content"
    and put: "PutFile c src remote opts w = (w1, Inr ())" and get: "GetFile c remote dst w1 = (w2, Inr ())"
  shows "files (w_local w2) (os_path dst) = Some content"
  by (rule transfer_content [OF server utf8 fresh ok put get])

subsection \<open>A run\<close>

text \<open>One metadata server, two empty data nodes, and a local file \<open>/a\<close> of two bytes.\<close>

definition single_world :: world where
  "single_world = sample_world\<lparr>w_mds := (\<lambda>a. if a = ''m1'' then Some (local_node 5, sample_nodes) else None)\<rparr>"

definition after_put :: world where
  "after_put = fst (PutFile client1 ''/a'' ''/d/g'' [] single_world)"

lemma put_runs: "snd (PutFile client1 ''/a'' ''/d/g'' [] single_world) = Inr ()"
  by code_simp

lemma get_runs: "snd (GetFile client1 ''/d/g'' ''/b'' after_put) = Inr ()"
  by code_simp

lemma sample_local_ok: "os_ok sample_local"
proof -
  have "map_ok (os_files sample_local)" "map_get (os_files sample_local) [] = None"
    "\<forall>(q, n) \<in> set (os_files sample_local). \<forall>p \<in> set (prefixes q). p = q \<or> node (os_files sample_local) p = Some DirNode"
    by code_simp+
  then show ?thesis using disk_ok_code by simp
qed

lemma single_nodes: "cl_nodes (w_cluster single_world) addr = Some n \<Longrightarrow> n = (sample_dn, sample_os)"
  by (auto simp: single_world_def sample_world_def split: if_splits)

lemma single_fresh: "st_blob (sample_dn, sample_os) (''/data/'' @ EncodeToString [1, 2]) = None"
  by code_simp

lemma single_sole: "sole_server (c_mdsAddr client1) (local_node 5) sample_nodes single_world"
  by (simp add: client1_def NewClient_def sole_server_def mds_reaches_def single_world_def sample_world_def)

theorem put_then_get_witness:
  "files (w_local (fst (GetFile client1 ''/d/g'' ''/b'' after_put))) (os_path ''/b'') = Some [7, 8]"
proof -
  have r: "w_rand single_world = Inr [1, 2] # [Inr [3, 4]]" by (simp add: single_world_def sample_world_def)
  have ok: "nodes_ok (w_cluster single_world)" "os_ok (w_local single_world)"
    using sample_nodes_ok sample_local_ok by (simp_all add: single_world_def sample_world_def)
  have f: "files (w_local single_world) (os_path ''/a'') = Some [7, 8]" by code_simp
  have u: "list_all utf8_ok (dataNodes sample_nodes)" unfolding sample_nodes_registry by (rule sample_nodes_utf8(3))
  have fresh: "cl_nodes (w_cluster single_world) addr = Some n \<Longrightarrow> st_blob n (''/data/'' @ EncodeToString [1, 2]) = None"
    for addr n using single_nodes single_fresh by blast
  have put: "PutFile client1 ''/a'' ''/d/g'' [] single_world = (after_put, Inr ())"
    using run_eq [OF put_runs] by (simp add: after_put_def)
  show ?thesis
    by (rule put_then_get [OF single_sole sample_nodes_inv sample_nodes_utf8(1) u r fresh ok f put run_eq [OF get_runs]])
qed

text \<open>The same at the level of the replicas, with the network to the first node broken.\<close>

definition two_replicas :: "Replica list" where
  "two_replicas = [\<lparr>Addr = ''n1'', RemotePath = ''/data/i9''\<rparr>, \<lparr>Addr = ''n2'', RemotePath = ''/data/i9''\<rparr>]"

definition broken_n1 :: cluster where
  "broken_n1 = (w_cluster sample_world)\<lparr>cl_net := (\<lambda>a. [])(''n1'' := [DialFail ''timeout''])\<rparr>"

theorem uploaded_content_is_downloaded_witness:
  "fst (snd (first_content two_replicas None (fst (each_replica (storeReplica [4, 2]) two_replicas broken_n1)))) = Some [4, 2]"
proof -
  have ok: "nodes_ok broken_n1" using sample_nodes_ok by (simp add: nodes_ok_def broken_n1_def)
  have d: "distinct (map Addr two_replicas)" by code_simp
  have "st_blob (sample_dn, sample_os) ''/data/i9'' = None" by code_simp
  then have fresh: "st_blob n (RemotePath r) = None" if "r \<in> set two_replicas" "cl_nodes broken_n1 (Addr r) = Some n" for r n
    using that by (auto simp: two_replicas_def broken_n1_def sample_world_def)
  obtain cl1 errs where each: "each_replica (storeReplica [4, 2]) two_replicas broken_n1 = (cl1, errs)" by fastforce
  obtain cl3 res e where first: "first_content two_replicas None cl1 = (cl3, res, e)" using prod_cases3 by blast
  have "fst (snd (first_content two_replicas None (fst (each_replica (storeReplica [4, 2]) two_replicas broken_n1)))) \<noteq> None"
    by code_simp
  then have "res \<noteq> None" using each first by simp
  with uploaded_content_is_downloaded [OF ok d fresh each refl first] have "res = Some [4, 2]" by blast
  then show ?thesis using each first by simp
qed

end
