(* ===== verification/Pending_Files.thy ===== *)
theory Pending_Files
  imports File_Transfer
begin

section \<open>Files written through a handle\<close>

text \<open>
  \<open>Open\<close> leaves a new file pending, and only \<open>CompleteFile\<close> ends that. \<open>WriteAt\<close>
  (\<open>file_handle.go\<close>) marks the handle complete and calls \<open>UpdateSize\<close>, never
  \<open>CompleteFile\<close>; \<open>Close\<close> looks at the handle. What follows from it for the metadata, on a cluster
  whose leader applies commands at once.
\<close>

subsection \<open>Sizes\<close>

text \<open>An \<open>UpdateSize\<close>, whether it succeeds or not, leaves kind and status of every path.\<close>

definition kind_status :: "namespace \<Rightarrow> string list \<Rightarrow> (bool \<times> string) option" where
  "kind_status m ps = map_option (\<lambda>e. (isDir e, entry_status e)) (m ps)"

lemma spec_update_size_status: "kind_status (fst (spec_update_size now p m)) = kind_status m"
  by (rule ext) (auto simp: spec_update_size_def kind_status_def Let_def split: option.split)

lemma UpdateSize_local:
  assumes "mds_inv mds" "utf8_ok (us_Path args)"
  shows "mds_inv (fst (UpdateSize (local_node t) args mds)) \<and>
    kind_status (mds_view (fst (UpdateSize (local_node t) args mds))) = kind_status (mds_view mds)"
proof -
  let ?p = "empty_payload\<lparr>p_Op := OpUpdateSize, p_Path := us_Path args, p_NewSize := us_Size args\<rparr>"
  have "utf8_ok OpUpdateSize" unfolding OpUpdateSize_def by code_simp
  then have u: "payload_utf8 ?p" using assms(2) by (simp add: payload_utf8_def empty_payload_def)
  obtain mds' err where run: "applyUpdateSize t ?p mds = (mds', err)" by fastforce
  have ap: "apply_payload t OpUpdateSize ?p mds = (mds', err)" using run by (simp add: apply_payload_def op_defs)
  then have inv: "mds_inv mds'" using apply_payload_inv [OF assms(1), of t OpUpdateSize ?p] by simp
  have "(mds_view mds', err) = spec_update_size t ?p (mds_view mds)"
    using applyUpdateSize_refines [OF _ run] assms(1) by (simp add: mds_inv_def)
  then have v: "kind_status (mds_view mds') = kind_status (mds_view mds)" by (metis fst_conv spec_update_size_status)
  have "fst (submit_reply (local_node t) ?p True mds) = mds'"
    using local_submit [OF u, of t True mds] ap by (simp split: option.split)
  then show ?thesis using inv v assms(1)
    by (simp add: UpdateSize_def checkLeader_def local_node_def)
qed

text \<open>\<open>WriteAt\<close> does to the server what one \<open>UpdateSize\<close> does, or nothing.\<close>

lemma WriteAt_status:
  assumes "sole_server (c_mdsAddr (fh_client fh)) (local_node t) mds w" "mds_inv mds" "utf8_ok (fh_path fh)"
    and "WriteAt fh bs off w = (w1, Inr (fh', n))"
  shows "\<exists>mds'. sole_server (c_mdsAddr (fh_client fh)) (local_node t) mds' w1 \<and> mds_inv mds' \<and>
    kind_status (mds_view mds') = kind_status (mds_view mds) \<and> w_local w1 = w_local w \<and>
    fh_status fh' \<noteq> ''pending'' \<and> fh_client fh' = fh_client fh \<and> fh_path fh' = fh_path fh"
proof -
  obtain cl errs where e: "each_replica (partialWrite off bs) (fh_replicas fh) (w_cluster w) = (cl, errs)" by fastforce
  let ?w = "w\<lparr>w_cluster := cl\<rparr>" and ?sz = "off + word_of_nat (length bs)"
  obtain w2 x where u: "updateSize (fh_client fh) (fh_path fh) ?sz ?w = (w2, x)" by fastforce
  have fh: "fh_status fh' \<noteq> ''pending'' \<and> fh_client fh' = fh_client fh \<and> fh_path fh' = fh_path fh"
    and w1: "w1 = ?w \<or> w1 = w2"
    using assms(4) e u by (auto simp: WriteAt_def on_cluster_def Let_def split: if_splits prod.splits)
  have s: "sole_server (c_mdsAddr (fh_client fh)) (local_node t) mds ?w"
    using assms(1) by (simp add: sole_server_def mds_reaches_def)
  from w1 show ?thesis
  proof
    assume "w1 = ?w"
    then show ?thesis using s fh assms(2) by auto
  next
    assume "w1 = w2"
    then show ?thesis
      using sole_server_call [OF s u [unfolded updateSize_def callMDSWithRedirect_def]] fh
        UpdateSize_local [OF assms(2), of "\<lparr>us_Path = fh_path fh, us_Size = ?sz\<rparr>" t] assms(3)
      by auto
  qed
qed

text \<open>C13. A file written through a handle is lost to downloads: if the file of a handle is pending,
  \<open>WriteAt\<close> succeeds and the handle is closed, then \<open>Close\<close> reports success, and after a \<open>GetFile\<close>
  that reports success too the local file is empty, whatever was written, and the metadata server
  still holds the file as pending and tells clients so.\<close>

theorem written_file_downloads_empty:
  assumes server: "sole_server (c_mdsAddr (fh_client fh)) (local_node t) mds w" "mds_inv mds" "utf8_ok (fh_path fh)"
    and pending: "mds_view mds (splitPath (fh_path fh)) = Some e" "\<not> isDir e" "entry_status e = StatusPending"
    and runs: "WriteAt fh bs off w = (w1, Inr (fh', n))" "Close fh' w1 = (w2, res)"
      "GetFile (fh_client fh) (fh_path fh) dst w2 = (w3, Inr ())"
    and disk: "os_ok (w_local w)"
  shows "res = Inr () \<and> files (w_local w3) (os_path dst) = Some [] \<and>
    (\<exists>mds3 e3 loc. w_mds w3 (c_mdsAddr (fh_client fh)) = Some (local_node t, mds3) \<and>
       mds_view mds3 (splitPath (fh_path fh)) = Some e3 \<and> \<not> isDir e3 \<and> entry_status e3 = StatusPending \<and>
       GetFileLocation mds3 (fh_path fh) = Inr loc \<and> fl_Status loc = StatusPending)"
proof -
  let ?c = "fh_client fh" and ?p = "fh_path fh"
  obtain mds' where m: "sole_server (c_mdsAddr ?c) (local_node t) mds' w1" "mds_inv mds'"
    "kind_status (mds_view mds') = kind_status (mds_view mds)" "w_local w1 = w_local w" "fh_status fh' \<noteq> ''pending''"
    using WriteAt_status [OF server runs(1)] by blast
  have close: "w2 = w1" "res = Inr ()" using runs(2) m(5) by (simp_all add: Close_def)
  have "kind_status (mds_view mds') (splitPath ?p) = Some (False, StatusPending)"
    using m(3) pending by (simp add: kind_status_def)
  then obtain e' where e': "mds_view mds' (splitPath ?p) = Some e'" "\<not> isDir e'" "entry_status e' = StatusPending"
    by (auto simp: kind_status_def)
  obtain fid where loc: "GetFileLocation mds' ?p = Inr \<lparr>fl_FileID = fid, fl_Replicas = replicas e', fl_Status = StatusPending\<rparr>"
    using GetFileLocation_view [OF m(2) e'(1,2)] e'(3) by auto
  have "ask_with_context ?c ''get file location failed'' (\<lambda>mds. GetFileLocation mds ?p) w2 =
      (w2, Inr \<lparr>fl_FileID = fid, fl_Replicas = replicas e', fl_Status = StatusPending\<rparr>)"
    using ask_direct [where f = "\<lambda>mds. GetFileLocation mds ?p", OF _ _ loc] m(1) close(1) by (simp add: sole_server_def)
  then have "write_local dst [] w2 = (w3, Inr ())" using runs(3) by (simp add: GetFile_def StatusPending_def)
  then obtain os where wr: "os_WriteFile dst [] (w_local w2) = (os, Inr ())" "w_local w3 = os" "w_mds w3 = w_mds w2"
    by (auto simp: write_local_def split: prod.splits sum.splits)
  have "w_mds w3 (c_mdsAddr ?c) = Some (local_node t, mds')" using m(1) close(1) wr(3) by (simp add: sole_server_def)
  moreover have "files os (os_path dst) = Some []" using os_WriteFile_ok [OF _ wr(1) refl] disk m(4) close(1) by simp
  ultimately show ?thesis using wr(2) close(2) e' loc by auto
qed

end
