(* ===== verification/Client_Runs.thy ===== *)
theory Client_Runs
  imports Pending_Files
begin

section \<open>Where the client falls short\<close>

text \<open>
  Runs of \<open>internal/client/client.go\<close> and \<open>file_handle.go\<close> that return success, or an error,
  against what their comments and \<open>docs/filesystem-semantics.md\<close> promise. Each is a theorem on
  the model, evaluated on the sample cluster of one metadata server and two data nodes.
\<close>

subsection \<open>A replica without the file\<close>

text \<open>A replica that missed the upload hides the data: a data node without the file answers a
  range read with no bytes and end of file, not with an error, so \<open>ReadAt\<close> stops there and
  never asks the replicas that have the data.\<close>

theorem missing_replica_hides_data:
  assumes "fh_replicas fh = r # rs" "0 \<le> sint offset" "len < 2 ^ 63"
    and "reaches (w_cluster w) (Addr r)" "cl_nodes (w_cluster w) (Addr r) = Some (dn, os)"
    and "dn_ok dn" "healthy os" "resolvePath dn (RemotePath r) = Inr real"
    and "free_target os (target dn (RemotePath r))" "files os (target dn (RemotePath r)) = None"
  shows "\<exists>w'. ReadAt fh len offset w = (w', Inr ([], True))"
proof -
  let ?args = "\<lparr>rr_Path = RemotePath r, rr_Offset = offset, rr_Length = word_of_nat len\<rparr>"
  have run: "RangeRead dn ?args os = (os, Inr \<lparr>rr_Data = [], rr_EOF = True\<rparr>)"
    using RangeRead_missing [OF assms(6,7), of ?args] assms(8-10) by simp
  have "\<exists>cl'. rangeRead r offset len (w_cluster w) = (cl', Inr ([], True))"
    using call_working [where f = "\<lambda>dn. RangeRead dn ?args", OF assms(4,5) run] dial_working [OF assms(4)]
    by (simp add: rangeRead_def on_replica_def dialDataNode_def)
  then show ?thesis using assms(1,2) by (auto simp: ReadAt_def on_cluster_def)
qed

text \<open>The upload loses its connection to the first replica and still succeeds.\<close>

definition lossy_world :: world where
  "lossy_world = single_world\<lparr>w_cluster := (w_cluster single_world)\<lparr>cl_net := (\<lambda>a. [])(''n2'' := [DialFail ''timeout''])\<rparr>\<rparr>"

definition half_stored :: world where
  "half_stored = fst (PutFile client1 ''/a'' ''/d/g'' [] lossy_world)"

definition half_handle :: FileHandle where
  "half_handle = \<lparr>fh_client = client1, fh_path = ''/d/g'', fh_fileID = ''0102'', fh_flags = 0,
     fh_replicas = [\<lparr>Addr = ''n2'', RemotePath = ''/data/0102''\<rparr>, \<lparr>Addr = ''n1'', RemotePath = ''/data/0102''\<rparr>],
     fh_size = 2, fh_status = ''complete''\<rparr>"

lemma half_stored_runs:
  "snd (PutFile client1 ''/a'' ''/d/g'' [] lossy_world) = Inr ()"
  "snd (client_Open client1 ''/d/g'' 0 half_stored) = Inr half_handle"
  "snd (readReplica \<lparr>Addr = ''n1'', RemotePath = ''/data/0102''\<rparr> (w_cluster half_stored)) = Inr [7, 8]"
  by code_simp+

theorem missing_replica_hides_data_witness: "\<exists>w'. ReadAt half_handle 2 0 half_stored = (w', Inr ([], True))"
proof -
  let ?r = "\<lparr>Addr = ''n2'', RemotePath = ''/data/0102''\<rparr>"
  have n: "cl_nodes (w_cluster half_stored) ''n2'' = Some (sample_dn, sample_os)" "cl_net (w_cluster half_stored) ''n2'' = []"
    by code_simp+
  then have "reaches (w_cluster half_stored) (Addr ?r)" "cl_nodes (w_cluster half_stored) (Addr ?r) = Some (sample_dn, sample_os)"
    by (simp_all add: reaches_def)
  moreover have "healthy sample_os" "resolvePath sample_dn (RemotePath ?r) = Inr ''/var/dn/data/0102''"
    "files sample_os (target sample_dn (RemotePath ?r)) = None" "fh_replicas half_handle = ?r # tl (fh_replicas half_handle)"
    by code_simp+
  moreover have "free_target sample_os (target sample_dn (RemotePath ?r))"
  proof -
    have t: "target sample_dn (RemotePath ?r) = [''var'', ''dn'', ''data'', ''0102'']" by code_simp
    have "\<forall>q \<in> set (prefixes [''var'', ''dn'', ''data'', ''0102'']). files sample_os q = None"
      "node (os_files sample_os) [''var'', ''dn'', ''data'', ''0102''] \<noteq> Some DirNode"
      "node (os_files sample_os) (tmp_of [''var'', ''dn'', ''data'', ''0102'']) \<noteq> Some DirNode" by code_simp+
    then show ?thesis unfolding free_target_def t by (metis in_set_prefixes strict_prefix_def)
  qed
  ultimately show ?thesis
    using missing_replica_hides_data [of half_handle ?r _ 0 2 half_stored] sample_dn_ok by simp
qed

subsection \<open>Written files that stay pending\<close>

text \<open>The first \<open>WriteAt\<close> marks the handle complete, so \<open>Close\<close> does nothing.\<close>

lemma written_handle_never_completes:
  assumes "WriteAt fh bs offset w = (w1, Inr (fh', n))"
  shows "Close fh' w2 = (w2, Inr ())"
  using assms by (auto simp: WriteAt_def Close_def Let_def split: if_splits prod.splits)

definition pending_nodes :: MetadataServer where
  "pending_nodes = fst (CreateFile (local_node 5) (Inr [1, 2]) sample_args sample_nodes)"

definition pending_world :: world where
  "pending_world = single_world\<lparr>w_mds := (\<lambda>a. if a = ''m1'' then Some (local_node 5, pending_nodes) else None)\<rparr>"

definition pending_handle :: FileHandle where
  "pending_handle = \<lparr>fh_client = client1, fh_path = ''/d/g'', fh_fileID = ''0102'', fh_flags = 0,
     fh_replicas = [\<lparr>Addr = ''n2'', RemotePath = ''/data/0102''\<rparr>, \<lparr>Addr = ''n1'', RemotePath = ''/data/0102''\<rparr>],
     fh_size = 0, fh_status = ''pending''\<rparr>"

lemma pending_nodes_inv: "mds_inv pending_nodes"
  unfolding pending_nodes_def
  using CreateFile_local [OF sample_nodes_inv run_eq [OF sample_create_runs]] sample_nodes_utf8(1,3)
  by (simp add: sample_args_def sample_nodes_registry)

lemma pending_view:
  "map_option entry_status (mds_view pending_nodes (splitPath ''/d/g'')) = Some StatusPending"
  "map_option isDir (mds_view pending_nodes (splitPath ''/d/g'')) = Some False"
  by code_simp+

definition written_once :: "world \<times> (string + (FileHandle \<times> nat))" where
  "written_once = WriteAt pending_handle [7, 9] 0 pending_world"

lemma pending_runs:
  "map_sum id snd (snd written_once) = Inr 2"
  "snd (GetFile client1 ''/d/g'' ''/b'' (fst written_once)) = Inr ()"
  by code_simp+

theorem written_file_downloads_empty_witness:
  "files (w_local (fst (GetFile client1 ''/d/g'' ''/b'' (fst written_once)))) (os_path ''/b'') = Some [] \<and>
   (\<exists>mds3 loc. w_mds (fst (GetFile client1 ''/d/g'' ''/b'' (fst written_once))) ''m1'' = Some (local_node 5, mds3) \<and>
      GetFileLocation mds3 ''/d/g'' = Inr loc \<and> fl_Status loc = StatusPending)"
proof -
  have h: "fh_client pending_handle = client1" "fh_path pending_handle = ''/d/g''" "c_mdsAddr client1 = ''m1''"
    by (simp_all add: pending_handle_def client1_def NewClient_def)
  have sole: "sole_server (c_mdsAddr (fh_client pending_handle)) (local_node 5) pending_nodes pending_world"
    unfolding h by (simp add: sole_server_def mds_reaches_def pending_world_def single_world_def sample_world_def)
  obtain e where e: "mds_view pending_nodes (splitPath ''/d/g'') = Some e" "\<not> isDir e" "entry_status e = StatusPending"
    using pending_view by auto
  obtain w1 fh where wr: "WriteAt pending_handle [7, 9] 0 pending_world = (w1, Inr (fh, 2))"
    using pending_runs(1) unfolding written_once_def
    by (cases "WriteAt pending_handle [7, 9] 0 pending_world"; cases "snd (WriteAt pending_handle [7, 9] 0 pending_world)") auto
  then have w1: "fst written_once = w1" by (simp add: written_once_def)
  have get: "GetFile client1 ''/d/g'' ''/b'' w1 = (fst (GetFile client1 ''/d/g'' ''/b'' w1), Inr ())"
    using pending_runs(2) w1 by (metis prod.collapse)
  have ok: "os_ok (w_local pending_world)" using sample_local_ok by (simp add: pending_world_def single_world_def sample_world_def)
  show ?thesis
    using written_file_downloads_empty [OF sole pending_nodes_inv _ _ e(2,3) wr written_handle_never_completes [OF wr] _ ok]
      get e(1) sample_nodes_utf8(1) h w1 by fastforce
qed

definition opened :: "world \<times> FileHandle" where
  "opened = (case client_Open client1 ''/d/g'' O_CREAT single_world of (w, r) \<Rightarrow> (w, case r of Inr fh \<Rightarrow> fh | Inl e \<Rightarrow> sample_handle))"

lemma open_write_runs:
  "map_sum id snd (snd (WriteAt (snd opened) [7, 9] 0 (fst opened))) = Inr 2"
  by code_simp

subsection \<open>Other runs\<close>

text \<open>An empty file can be uploaded but not downloaded.\<close>

lemma empty_file_not_downloaded:
  "snd (PutFile client1 ''/e'' ''/d/g'' [] single_world) = Inr ()"
  "snd (GetFile client1 ''/d/g'' ''/b'' (fst (PutFile client1 ''/e'' ''/d/g'' [] single_world))) =
     Inl ''all 2 replicas failed, last error: %!w(<nil>)''"
  by code_simp+

text \<open>A file that was created and never written cannot be opened with \<open>O_TRUNC\<close>.\<close>

lemma open_trunc_unwritten_fails:
  "snd (client_Open client1 ''/d/g'' O_TRUNC (fst (Close (snd opened) (fst opened)))) =
     Inl ''open: truncate replicas failed: truncate failed: failed to truncate data: no such file or directory''"
  by code_simp

text \<open>After a rename the handle can no longer complete or truncate its file.\<close>

definition renamed :: world where
  "renamed = fst (client_Rename client1 ''/d/g'' ''/d/h'' (fst opened))"

lemma handle_lost_after_rename:
  "snd (client_Rename client1 ''/d/g'' ''/d/h'' (fst opened)) = Inr True"
  "snd (Close (snd opened) renamed) =
     Inl ''close: complete file failed: complete file failed: raft do failed: path not found: /d/g''"
  by code_simp+

end
