(* ===== verification/World_Evolution.thy ===== *)
theory World_Evolution
  imports Replica_Store
begin

section \<open>How the system evolves\<close>

text \<open>
  Clients, open files, heartbeats and garbage collection act on the metadata servers and the data
  nodes only through their services. \<open>evolves w w'\<close> says what that allows: each metadata server
  has applied a log of Raft commands, each data node that is still there has run its own methods,
  and the local disk is well formed. It is a preorder, and every operation of
  \<open>internal/client\<close>, of the heartbeat and of the garbage collection stays within it.
  \<open>world_method\<close> is the interface between the calls of a client and the methods of the metadata
  service.
\<close>

subsection \<open>Logs and services\<close>

definition logs :: "MetadataServer \<Rightarrow> MetadataServer \<Rightarrow> bool" where
  "logs mds mds' \<longleftrightarrow> (\<exists>log. mds' = run_log apply_at log mds)"

lemma logs_refl [simp]: "logs mds mds"
  unfolding logs_def by (rule exI [of _ "[]"]) simp

lemma logs_trans: "logs a b \<Longrightarrow> logs b c \<Longrightarrow> logs a c"
  unfolding logs_def by (metis run_log_append)

lemma logs_reachable: "logs mds mds' \<Longrightarrow> reachable mds \<Longrightarrow> reachable mds'"
proof -
  have "reachable mds \<Longrightarrow> reachable (run_log apply_at log mds)" for log mds
    by (induction log arbitrary: mds) (auto intro: apply_at_reachable)
  then show "logs mds mds' \<Longrightarrow> reachable mds \<Longrightarrow> reachable mds'" by (auto simp: logs_def)
qed

lemma logs_Do: "raft_contract rf \<Longrightarrow> logs mds (fst (rf_Do rf op data mds))"
  using raft_client.do_log by (auto simp: raft_contract_def logs_def)

lemma logs_submit [simp]: "raft_contract rf \<Longrightarrow> logs mds (fst (submit_reply rf p r mds))"
  by (simp add: submit_reply_state logs_Do)

definition served :: "cluster \<Rightarrow> cluster \<Rightarrow> bool" where
  "served cl cl' \<longleftrightarrow> (\<forall>a dn os'. cl_nodes cl' a = Some (dn, os') \<longrightarrow>
     (\<exists>os. cl_nodes cl a = Some (dn, os) \<and> serving dn os os'))"

lemma serving_trans: "serving dn b c \<Longrightarrow> serving dn a b \<Longrightarrow> serving dn a c"
  by (induction rule: serving.induct) (auto intro: serving.intros)

lemma served_same: "cl_nodes cl' = cl_nodes cl \<Longrightarrow> served cl cl'"
  by (auto simp: served_def intro: serving.start)

lemma served_refl [simp]: "served cl cl"
  by (simp add: served_same)

lemma served_trans: "served a b \<Longrightarrow> served b c \<Longrightarrow> served a c"
  unfolding served_def
proof (intro allI impI)
  fix n dn os'' assume ab: "\<forall>n dn os'. cl_nodes b n = Some (dn, os') \<longrightarrow> (\<exists>os. cl_nodes a n = Some (dn, os) \<and> serving dn os os')"
    and bc: "\<forall>n dn os'. cl_nodes c n = Some (dn, os') \<longrightarrow> (\<exists>os. cl_nodes b n = Some (dn, os) \<and> serving dn os os')"
    and c: "cl_nodes c n = Some (dn, os'')"
  from bc c obtain os' where b: "cl_nodes b n = Some (dn, os')" "serving dn os' os''" by blast
  from ab b(1) obtain os where "cl_nodes a n = Some (dn, os)" "serving dn os os'" by blast
  with serving_trans [OF b(2)] show "\<exists>os. cl_nodes a n = Some (dn, os) \<and> serving dn os os''" by blast
qed

lemma served_nodes_ok: "served cl cl' \<Longrightarrow> nodes_ok cl \<Longrightarrow> nodes_ok cl'"
  unfolding served_def nodes_ok_def
proof (intro allI impI)
  fix a and n :: node
  assume s: "\<forall>a dn os'. cl_nodes cl' a = Some (dn, os') \<longrightarrow> (\<exists>os. cl_nodes cl a = Some (dn, os) \<and> serving dn os os')"
    and ok: "\<forall>a n. cl_nodes cl a = Some n \<longrightarrow> st_ok n" and n: "cl_nodes cl' a = Some n"
  obtain dn os' where p: "n = (dn, os')" by fastforce
  with s n obtain os where "cl_nodes cl a = Some (dn, os)" "serving dn os os'" by blast
  then show "st_ok n" using serving_ok ok p by blast
qed

lemma served_upd:
  assumes "cl_nodes cl' = (cl_nodes cl)(a := v)" "v = None \<or> (\<exists>dn os os'. v = Some (dn, os') \<and> cl_nodes cl a = Some (dn, os) \<and> serving dn os os')"
  shows "served cl cl'"
  unfolding served_def
proof (intro allI impI)
  fix b dn os' assume "cl_nodes cl' b = Some (dn, os')"
  then show "\<exists>os. cl_nodes cl b = Some (dn, os) \<and> serving dn os os'"
    using assms by (cases "b = a") (auto intro: serving.start)
qed

text \<open>The methods that a call may run.\<close>

definition served_by :: "(DataNode \<Rightarrow> os_state \<Rightarrow> 'a dn_result) \<Rightarrow> bool" where
  "served_by f \<longleftrightarrow> (\<forall>dn os. serving dn os (fst (f dn os)))"

lemma served_methods [simp]:
  "served_by (\<lambda>dn. StoreData dn sa)" "served_by (\<lambda>dn. GetData dn p)" "served_by (\<lambda>dn. DeleteData dn p)"
  "served_by ListAllPaths" "served_by (\<lambda>dn. RangeRead dn ra)" "served_by (\<lambda>dn. PartialWrite dn wa)"
  "served_by (\<lambda>dn. Truncate dn ta)" "served_by (\<lambda>dn. Sync dn ya)"
  by (simp_all add: served_by_def serving.intros)

lemma served_call: "served_by f \<Longrightarrow> served cl (fst (call_node a f cl))"
proof -
  assume f: "served_by f"
  obtain cl' r where run: "call_node a f cl = (cl', r)" by fastforce
  show ?thesis
  proof (cases "cl_nodes cl a")
    case None
    then show ?thesis using call_node_None [OF run] run by (simp add: served_same)
  next
    case (Some n)
    obtain dn os where n: "n = (dn, os)" by fastforce
    from call_node_effect [OF run Some [unfolded n]]
    consider "cl_nodes cl' = cl_nodes cl" | "cl_nodes cl' = (cl_nodes cl)(a := None)"
      | "cl_nodes cl' = (cl_nodes cl)(a \<mapsto> (dn, fst (f dn os)))" by blast
    then have "served cl cl'"
    proof cases
      case 1 then show ?thesis by (rule served_same)
    next
      case 2 then show ?thesis by (rule served_upd) simp
    next
      case 3 then show ?thesis using f Some n by (intro served_upd) (auto simp: served_by_def)
    qed
    with run show ?thesis by simp
  qed
qed

lemma served_dial: "served cl (fst (dial_node a cl))"
  by (cases "dial_node a cl") (simp add: served_same dial_node_nodes)

lemma served_replica: "served_by f \<Longrightarrow> served cl (fst (on_replica a ctx f cl))"
proof -
  assume f: "served_by f"
  obtain cl1 d where d: "dial_node a cl = (cl1, d)" by fastforce
  have "served cl cl1" using served_dial [of cl a] d by simp
  moreover have "served cl1 (fst (call_node a f cl1))" using served_call [OF f] .
  ultimately have "served cl (fst (call_node a f cl1))" by (rule served_trans)
  then show ?thesis using \<open>served cl cl1\<close> d
    by (cases "call_node a f cl1"; cases "snd (call_node a f cl1)"; cases d) (auto simp: on_replica_def dialDataNode_def)
qed

lemma served_replica_ops [simp]:
  "served cl (fst (storeReplica content r cl))" "served cl (fst (readReplica r cl))"
  "served cl (fst (deleteReplica r cl))" "served cl (fst (partialWrite offset bs r cl))"
  "served cl (fst (truncateReplica sz r cl))" "served cl (fst (syncReplica r cl))"
  by (simp_all add: storeReplica_def readReplica_def deleteReplica_def partialWrite_def truncateReplica_def
      syncReplica_def served_replica)

end
