(* ===== verification/World_Operations.thy ===== *)
theory World_Operations
  imports World_Evolution Client_Properties
begin

section \<open>The operations of the clients keep the system well formed\<close>

text \<open>
  \<open>evolves\<close> for whole worlds, the interface \<open>world_method\<close> to the metadata service with its
  interpretations, and one lemma per operation of \<open>client.go\<close> and \<open>file_handle.go\<close>. Runs of any
  number of clients, data nodes and faults are \<open>system_run\<close>.
\<close>

definition evolves :: "world \<Rightarrow> world \<Rightarrow> bool" where
  "evolves w w' \<longleftrightarrow>
     (\<forall>a. rel_option (\<lambda>(rf, mds) (rf', mds'). (raft_contract rf \<longrightarrow> raft_contract rf') \<and> logs mds mds') (w_mds w a) (w_mds w' a)) \<and>
     served (w_cluster w) (w_cluster w') \<and> (os_ok (w_local w) \<longrightarrow> os_ok (w_local w'))"

definition contracts :: "world \<Rightarrow> bool" where
  "contracts w \<longleftrightarrow> (\<forall>a rf mds. w_mds w a = Some (rf, mds) \<longrightarrow> raft_contract rf)"

lemma rel_logs_refl [simp]: "rel_option (\<lambda>(rf, mds) (rf', mds'). (raft_contract rf \<longrightarrow> raft_contract rf') \<and> logs mds mds') x x"
  by (cases x) auto

lemma evolves_refl [simp]: "evolves w w"
  by (simp add: evolves_def)

lemma evolves_trans:
  assumes "evolves u v" "evolves v w"
  shows "evolves u w"
proof -
  have "rel_option (\<lambda>(rf, mds) (rf', mds'). (raft_contract rf \<longrightarrow> raft_contract rf') \<and> logs mds mds') (w_mds u a) (w_mds w a)" for a
  proof -
    have "rel_option (\<lambda>(rf, mds) (rf', mds'). (raft_contract rf \<longrightarrow> raft_contract rf') \<and> logs mds mds') (w_mds u a) (w_mds v a)"
      "rel_option (\<lambda>(rf, mds) (rf', mds'). (raft_contract rf \<longrightarrow> raft_contract rf') \<and> logs mds mds') (w_mds v a) (w_mds w a)"
      using assms by (simp_all add: evolves_def)
    then show ?thesis
      by (cases "w_mds u a"; cases "w_mds v a"; cases "w_mds w a") (auto intro: logs_trans)
  qed
  moreover have "served (w_cluster u) (w_cluster w)"
    using assms served_trans unfolding evolves_def by blast
  ultimately show ?thesis using assms by (simp add: evolves_def)
qed

lemma evolves_contracts: "evolves w w' \<Longrightarrow> contracts w \<Longrightarrow> contracts w'"
  unfolding contracts_def
proof (intro allI impI)
  fix a rf mds' assume e: "evolves w w'" and c: "\<forall>a rf mds. w_mds w a = Some (rf, mds) \<longrightarrow> raft_contract rf"
    and m: "w_mds w' a = Some (rf, mds')"
  have "rel_option (\<lambda>(rf, mds) (rf', mds'). (raft_contract rf \<longrightarrow> raft_contract rf') \<and> logs mds mds') (w_mds w a) (w_mds w' a)"
    using e by (simp add: evolves_def)
  then show "raft_contract rf" using c m by (cases "w_mds w a") auto
qed

text \<open>Fields that \<open>evolves\<close> does not look at, and the steps of the other three.\<close>

lemma evolves_net [simp]:
  "evolves w (v\<lparr>w_mdsnet := n\<rparr>) = evolves w v" "evolves (w\<lparr>w_mdsnet := n\<rparr>) v = evolves w v"
  "evolves w (v\<lparr>w_rand := rs\<rparr>) = evolves w v" "contracts (w\<lparr>w_mdsnet := n\<rparr>) = contracts w"
  by (simp_all add: evolves_def contracts_def)

lemma evolves_cluster: "served (w_cluster w) cl \<Longrightarrow> evolves w (w\<lparr>w_cluster := cl\<rparr>)"
  by (simp add: evolves_def)

lemma evolves_local: "(os_ok (w_local w) \<Longrightarrow> os_ok os) \<Longrightarrow> evolves w (w\<lparr>w_local := os\<rparr>)"
  by (simp add: evolves_def)

lemma evolves_server:
  assumes "evolves w w'" "w_mds w a = Some (rf, mds)" "w_mds w' = w_mds w" "logs mds mds'"
  shows "evolves w (w'\<lparr>w_mds := (w_mds w')(a \<mapsto> (rf, mds'))\<rparr>)"
  using assms by (simp add: evolves_def)

lemma evolves_on_cluster: "(\<And>cl. served cl (fst (f cl))) \<Longrightarrow> evolves w (fst (on_cluster f w))"
  using evolves_cluster [of w "fst (f (w_cluster w))"]
  by (cases "f (w_cluster w)") (simp add: on_cluster_def, metis fst_conv)

subsection \<open>The methods of the metadata service\<close>

locale world_method =
  fixes m :: "'a mds_method"
  assumes law: "raft_contract rf \<Longrightarrow> m rf mds w = (w', mds', r) \<Longrightarrow>
    w_mds w' = w_mds w \<and> evolves w w' \<and> logs mds mds'"
begin

lemma call_evolves: "contracts w \<Longrightarrow> evolves w (fst (call_mds a m w))"
proof -
  assume c: "contracts w"
  obtain net flt where d: "draw_net a (w_mdsnet w) = (net, flt)" by fastforce
  let ?w = "w\<lparr>w_mdsnet := net\<rparr>"
  show ?thesis
  proof (cases "w_mds w a")
    case None
    then show ?thesis using d by (simp add: call_mds_def)
  next
    case (Some p)
    obtain rf mds where p: "p = (rf, mds)" by fastforce
    obtain w' mds' r where run: "m rf mds ?w = (w', mds', r)" using prod_cases3 by blast
    have "raft_contract rf" using c Some p unfolding contracts_def by blast
    from law [OF this run] have "w_mds w' = w_mds w" "evolves w w'" "logs mds mds'" by simp_all
    then have "evolves w (w'\<lparr>w_mds := (w_mds w')(a \<mapsto> (rf, mds'))\<rparr>)"
      using evolves_server [of w w' a rf mds mds'] Some p by simp
    then show ?thesis using d Some p run by (simp add: call_mds_def Let_def split: net_fault.split)
  qed
qed

lemma redirect_evolves: "contracts w \<Longrightarrow> evolves w (fst (redirect_loop n method m a w))"
proof (induction n arbitrary: a w)
  case (Suc n)
  obtain w1 d where d: "dial_mds a w = (w1, d)" by fastforce
  have w1: "evolves w w1" "contracts w1"
    using d Suc.prems by (auto simp: dial_mds_def Let_def split: prod.splits if_splits)
  obtain w2 r where c: "call_mds a m w1 = (w2, r)" by fastforce
  have w2: "evolves w w2" "contracts w2"
    using evolves_trans [OF w1(1)] evolves_contracts [OF _ w1(2)] call_evolves [OF w1(2), of a] c by simp_all
  then show ?case
    using d c w1(1) Suc.IH [OF w2(2)] evolves_trans [OF w2(1)] by (simp add: Let_def split: option.split sum.split)
qed simp

lemma client_evolves [simp]: "contracts w \<Longrightarrow> evolves w (fst (callMDSWithRedirect c method m w))"
  by (simp add: callMDSWithRedirect_def redirect_evolves)

end

lemma write_world_method:
  "(\<And>rf mds. raft_contract rf \<Longrightarrow> logs mds (fst (f rf mds))) \<Longrightarrow> world_method (write_method f)"
proof
  fix rf mds w w' mds' r
  assume f: "\<And>rf mds. raft_contract rf \<Longrightarrow> logs mds (fst (f rf mds))" and rf: "raft_contract rf"
    and run: "write_method f rf mds w = (w', mds', r)"
  then show "w_mds w' = w_mds w \<and> evolves w w' \<and> logs mds mds'"
    using f [OF rf, of mds] by (auto simp: write_method_def split: prod.splits)
qed

lemmas handler_defs = Heartbeat_def Mkdir_def CompleteFile_def Delete_def Rename_def UpdateSize_def

interpretation mkdir_method: world_method "write_method (\<lambda>rf. Mkdir rf path)"
  by (rule write_world_method) (simp add: handler_defs split: option.split)

interpretation complete_method: world_method "write_method (\<lambda>rf. CompleteFile rf path)"
  by (rule write_world_method) (simp add: handler_defs split: option.split)

interpretation delete_method: world_method "write_method (\<lambda>rf. Delete rf path)"
  by (rule write_world_method) (simp add: handler_defs split: option.split)

interpretation rename_method: world_method "write_method (\<lambda>rf. Rename rf args)"
  by (rule write_world_method) (simp add: handler_defs split: option.split)

interpretation update_method: world_method "write_method (\<lambda>rf. UpdateSize rf args)"
  by (rule write_world_method) (simp add: handler_defs split: option.split)

interpretation heartbeat_method: world_method "write_method (\<lambda>rf. Heartbeat rf addr)"
  by (rule write_world_method) (simp add: handler_defs split: option.split)

interpretation ask_method: world_method "read_method f"
  by standard (auto simp: read_method_def)

interpretation make_method: world_method "create_method args"
proof
  fix rf mds w w' mds' r
  assume rf: "raft_contract rf" and run: "create_method args rf mds w = (w', mds', r)"
  obtain w1 rnd where d: "draw_rand w = (w1, rnd)" by fastforce
  have "logs mds (fst (CreateFile rf rnd args mds))"
    using rf by (simp add: CreateFile_def Let_def split: option.split sum.split)
  moreover have "evolves w w1 \<and> w_mds w1 = w_mds w" using d by (auto simp: draw_rand_def split: list.splits)
  ultimately show "w_mds w' = w_mds w \<and> evolves w w' \<and> logs mds mds'"
    using run d by (auto simp: create_method_def split: prod.splits)
qed

subsection \<open>Garbage collection\<close>

lemma logs_health: "raft_contract rf \<Longrightarrow> logs mds (checkDataNodeHealth rf now mds)"
proof -
  assume rf: "raft_contract rf"
  have step: "logs mds (remove_node rf addr mds)" for addr mds
    using logs_Do [OF rf] by (auto simp: remove_node_def submitCommand_def Let_def split: prod.split) (metis fst_conv)
  have "logs mds (fold (\<lambda>(addr, last). remove_node rf addr) dead mds)" for dead mds
    using logs_trans [OF step] by (induction dead arbitrary: mds) auto
  then show ?thesis by (simp add: checkDataNodeHealth_def)
qed

lemma served_gc_loop: "served cl (gc_loop addr ids cutoff nfs cl)"
proof (induction nfs arbitrary: cl)
  case (Cons nf nfs)
  then show ?case using served_trans [OF served_call [of "\<lambda>dn. DeleteData dn (nf_Path nf)" cl addr]] by simp
qed simp

lemma served_collect: "served cl (garbageCollectNode addr ids gcStart cl)"
proof -
  obtain cl1 d where d: "dial_node addr cl = (cl1, d)" by fastforce
  have 1: "served cl cl1" using served_dial [of cl addr] d by simp
  obtain cl2 r where c: "call_node addr ListAllPaths cl1 = (cl2, r)" by fastforce
  have 2: "served cl cl2" using served_trans [OF 1] served_call [of ListAllPaths cl1 addr] c by simp
  show ?thesis
    using 1 2 served_trans [OF 2] served_gc_loop d c
    by (simp add: garbageCollectNode_def split: option.split sum.split)
qed

lemma runGC_evolves:
  "raft_contract rf \<Longrightarrow> runGC rf gcStart now (mds, cl) = Some (mds', cl') \<Longrightarrow> logs mds mds' \<and> served cl cl'"
proof -
  have "served cl (fold (\<lambda>addr. garbageCollectNode addr ids gcStart) addrs cl)" for ids addrs cl
  proof (induction addrs arbitrary: cl)
    case (Cons a addrs)
    show ?case using served_trans [OF served_collect Cons.IH] by simp
  qed simp
  then show "raft_contract rf \<Longrightarrow> runGC rf gcStart now (mds, cl) = Some (mds', cl') \<Longrightarrow> logs mds mds' \<and> served cl cl'"
    using logs_health by (auto simp: runGC_def Let_def split: option.splits)
qed

interpretation collect_method: world_method gc_method
proof
  fix rf mds w w' mds' and r :: "bool reply"
  assume rf: "raft_contract rf" and run: "gc_method rf mds w = (w', mds', r)"
  show "w_mds w' = w_mds w \<and> evolves w w' \<and> logs mds mds'"
  proof (cases "TriggerGC rf (w_clock w) (w_clock w) (mds, w_cluster w)")
    case (Pair st r')
    show ?thesis
    proof (cases st)
      case None
      then show ?thesis using run Pair by (simp add: gc_method_def)
    next
      case (Some p)
      obtain m cl where p: "p = (m, cl)" by fastforce
      have "logs mds m \<and> served (w_cluster w) cl"
        using Pair Some p runGC_evolves [OF rf] by (auto simp: TriggerGC_def split: option.splits)
      then show ?thesis using run Pair Some p evolves_cluster by (auto simp: gc_method_def)
    qed
  qed
qed

subsection \<open>One client\<close>

text \<open>A read goes to one server, and nothing changes but the fault script.\<close>

lemma ask_evolves [simp]:
  assumes "contracts w"
  shows "evolves w (fst (ask_mds c f w))" "evolves w (fst (ask_with_context c ctx f w))"
proof -
  obtain w1 d where d: "dial_mds (c_mdsAddr c) w = (w1, d)" by fastforce
  have w1: "evolves w w1" "contracts w1"
    using d assms by (auto simp: dial_mds_def Let_def split: prod.splits if_splits)
  have w2: "evolves w (fst (call_mds (c_mdsAddr c) (read_method f) w1))"
    by (rule evolves_trans [OF w1(1) ask_method.call_evolves [OF w1(2)]])
  show "evolves w (fst (ask_mds c f w))"
    using d w1(1) w2 by (simp add: ask_mds_def dialMDS_def split: option.split)
  show "evolves w (fst (ask_with_context c ctx f w))"
    using d w1(1) w2
    by (cases "call_mds (c_mdsAddr c) (read_method f) w1"; cases d)
       (auto simp: ask_with_context_def dialMDS_def with_context_def split: sum.split)
qed

lemma fst_with_context [simp]: "fst (with_context ctx r) = fst r"
  by (simp add: with_context_def split: prod.split sum.split)

lemma fst_GetReplicas: "fst (GetReplicas c path w) =
    fst (ask_with_context c ''get file location failed'' (\<lambda>mds. GetFileLocation mds path) w)"
  by (simp add: GetReplicas_def split: prod.split sum.split)

lemma metadata_evolves [simp]:
  assumes "contracts w"
  shows "evolves w (fst (client_Mkdir c path w))" "evolves w (fst (client_CompleteFile c path w))"
    "evolves w (fst (client_Rename c src dst w))" "evolves w (fst (client_TriggerGC c w))"
    "evolves w (fst (updateSize c path sz w))" "evolves w (fst (getFileLocation c path w))"
    "evolves w (fst (client_ListDir c path w))" "evolves w (fst (client_Stat c path w))"
    "evolves w (fst (client_ListDataNodes c w))" "evolves w (fst (GetReplicas c path w))"
  using assms
  by (simp_all add: client_Mkdir_def client_CompleteFile_def client_Rename_def client_TriggerGC_def updateSize_def
      getFileLocation_def client_ListDir_def client_Stat_def client_ListDataNodes_def fst_GetReplicas)

lemma served_each: "(\<And>r cl. served cl (fst (f r cl))) \<Longrightarrow> served cl (fst (each_replica f rs cl))"
proof (induction rs arbitrary: cl)
  case (Cons r rs)
  obtain cl1 x where 1: "f r cl = (cl1, x)" by fastforce
  have "served cl cl1" using Cons.prems [of cl r] 1 by simp
  from served_trans [OF this Cons.IH [OF Cons.prems]] show ?case using 1 by (cases "each_replica f rs cl1") simp
qed simp

lemma each_evolves [simp]: "(\<And>r cl. served cl (fst (f r cl))) \<Longrightarrow> evolves w (fst (on_cluster (each_replica f rs) w))"
  by (intro evolves_on_cluster served_each)

text \<open>Sequencing: an operation from where the first one ended.\<close>

lemma evolves_then:
  assumes "evolves w w1" "contracts w" "contracts w1 \<Longrightarrow> evolves w1 w2"
  shows "evolves w w2"
  using evolves_trans [OF assms(1) assms(3)] evolves_contracts [OF assms(1,2)] by blast

subsection \<open>Files and handles\<close>

lemma served_first [simp]: "served cl (fst (first_content rs e cl))"
proof (induction rs arbitrary: e cl)
  case (Cons r rs)
  obtain cl1 x where 1: "readReplica r cl = (cl1, x)" by fastforce
  have "served cl cl1" using served_replica_ops(2) [of cl r] 1 by simp
  then show ?case using 1 served_trans [OF _ Cons.IH] by (simp split: sum.split)
qed simp

lemma served_range [simp]: "served cl (fst (rangeRead r offset len cl))"
proof -
  let ?f = "\<lambda>dn. RangeRead dn \<lparr>rr_Path = RemotePath r, rr_Offset = offset, rr_Length = word_of_nat len\<rparr>"
  have "fst (rangeRead r offset len cl) = fst (on_replica (Addr r) ''range read failed: '' ?f cl)"
    by (simp add: rangeRead_def split: prod.split sum.split)
  then show ?thesis by (simp add: served_replica)
qed

lemma served_read_loop [simp]: "served cl (fst (read_loop offset len rs e cl))"
proof (induction rs arbitrary: e cl)
  case (Cons r rs)
  obtain cl1 x where 1: "rangeRead r offset len cl = (cl1, x)" by fastforce
  have "served cl cl1" using served_range [of cl r offset len] 1 by simp
  then show ?case using 1 served_trans [OF _ Cons.IH] by (simp split: sum.split prod.split)
qed simp

lemma truncateAll_evolves [simp]:
  assumes "contracts w"
  shows "evolves w (fst (truncateAllReplicas c path sz w))"
proof -
  obtain w1 r where g: "getFileLocation c path w = (w1, r)" by fastforce
  have 1: "evolves w w1" using metadata_evolves(6) [OF assms, of c path] g by simp
  show ?thesis
  proof (cases r)
    case (Inr loc)
    have "evolves w1 (fst (on_cluster (each_replica (truncateReplica sz) (fl_Replicas loc)) w1))" by simp
    from evolves_trans [OF 1 this] g Inr show ?thesis
      by (cases "on_cluster (each_replica (truncateReplica sz) (fl_Replicas loc)) w1") (simp add: truncateAllReplicas_def)
  qed (use 1 g in \<open>simp add: truncateAllReplicas_def\<close>)
qed

lemma delete_evolves [simp]:
  assumes "contracts w"
  shows "evolves w (fst (client_Delete c path w))"
proof -
  obtain w1 r where g: "callMDSWithRedirect c ''MetadataService.Delete'' (write_method (\<lambda>rf. Delete rf path)) w = (w1, r)"
    by fastforce
  have 1: "evolves w w1" using delete_method.client_evolves [OF assms, of c "''MetadataService.Delete''" path] g by simp
  show ?thesis
  proof (cases r)
    case (Inr reply)
    have "evolves w1 (fst (on_cluster (each_replica deleteReplica (dr_Replicas reply)) w1))" by simp
    from evolves_trans [OF 1 this] 1 g Inr show ?thesis
      by (cases "on_cluster (each_replica deleteReplica (dr_Replicas reply)) w1") (simp add: client_Delete_def)
  qed (use 1 g in \<open>simp add: client_Delete_def\<close>)
qed

lemma local_evolves [simp]: "evolves w (fst (write_local path content w))"
proof -
  obtain os r where run: "os_WriteFile path content (w_local w) = (os, r)" by fastforce
  have "evolves w (w\<lparr>w_local := os\<rparr>)" using os_WriteFile_ok [OF _ run refl] by (intro evolves_local) simp
  then show ?thesis using run by (simp add: write_local_def split: sum.split)
qed

lemma get_evolves [simp]:
  assumes "contracts w"
  shows "evolves w (fst (GetFile c remote dst w))"
proof -
  obtain w1 r where g: "ask_with_context c ''get file location failed'' (\<lambda>mds. GetFileLocation mds remote) w = (w1, r)"
    by fastforce
  have 1: "evolves w w1" using ask_evolves(2) [OF assms] g by (metis fst_conv)
  show ?thesis
  proof (cases r)
    case (Inr loc)
    obtain w2 res e where f: "on_cluster (first_content (fl_Replicas loc) None) w1 = (w2, res, e)" using prod_cases3 by blast
    have "evolves w1 w2" using evolves_on_cluster [of "first_content (fl_Replicas loc) None" w1] f by simp
    with evolves_trans [OF 1] have 2: "evolves w w2" by blast
    show ?thesis
      using g f Inr 1 2 evolves_trans [OF 1 local_evolves] evolves_trans [OF 2 local_evolves]
      by (simp add: GetFile_def split: option.split)
  qed (use 1 g in \<open>simp add: GetFile_def\<close>)
qed

lemma put_evolves [simp]:
  assumes "contracts w"
  shows "evolves w (fst (PutFile c src remote opts w))"
proof -
  obtain os r where rd: "os_ReadFile src (w_local w) = (os, r)" by fastforce
  let ?mode = "fold (\<lambda>mode cfg. mode) opts CreateIfNotExist"
  let ?w = "w\<lparr>w_local := os\<rparr>"
  have "os_files os = os_files (w_local w)" using os_read_files(1) [of src "w_local w"] rd by simp
  then have 0: "evolves w ?w" by (intro evolves_local) simp
  show ?thesis
  proof (cases r)
    case (Inr content)
    let ?args = "\<lparr>cf_Path = remote, cf_Size = word_of_nat (length content), cf_CreateMode = ?mode\<rparr>"
    obtain w1 r1 where cr: "callMDSWithRedirect c ''MetadataService.CreateFile'' (create_method ?args) ?w = (w1, r1)" by fastforce
    have "evolves ?w w1"
      using make_method.client_evolves [OF evolves_contracts [OF 0 assms], of c "''MetadataService.CreateFile''" ?args] cr by simp
    with evolves_trans [OF 0] have 1: "evolves w w1" by blast
    show ?thesis
    proof (cases r1)
      case (Inr reply)
      obtain w2 errs where e: "on_cluster (each_replica (storeReplica content) (cr_Replicas reply)) w1 = (w2, errs)" by fastforce
      have "evolves w1 w2" using each_evolves [of "storeReplica content" w1 "cr_Replicas reply"] e by simp
      with evolves_trans [OF 1] have 2: "evolves w w2" by blast
      have c2: "contracts w2" by (rule evolves_contracts [OF 2 assms])
      have 3: "evolves w (fst (client_Delete c remote w2))" using evolves_trans [OF 2] delete_evolves [OF c2] by blast
      have 4: "evolves w (fst (callMDSWithRedirect c ''MetadataService.CompleteFile'' (write_method (\<lambda>rf. CompleteFile rf remote)) w2))"
        using evolves_trans [OF 2] complete_method.client_evolves [OF c2] by blast
      show ?thesis
        using rd cr e 3 4 \<open>r = Inr content\<close> Inr
        by (cases "client_Delete c remote w2";
            cases "callMDSWithRedirect c ''MetadataService.CompleteFile'' (write_method (\<lambda>rf. CompleteFile rf remote)) w2")
           (simp add: PutFile_def Let_def)
    qed (use rd cr 1 Inr in \<open>simp add: PutFile_def Let_def\<close>)
  qed (use rd 0 in \<open>simp add: PutFile_def Let_def\<close>)
qed

lemma open_missing_evolves:
  assumes "contracts w"
  shows "evolves w (fst (open_missing c path flags w))"
  using make_method.client_evolves [OF assms, of c "''MetadataService.CreateFile''"
      "\<lparr>cf_Path = path, cf_Size = 0, cf_CreateMode = CreateIfNotExist\<rparr>"]
  by (cases "callMDSWithRedirect c ''MetadataService.CreateFile''
      (create_method \<lparr>cf_Path = path, cf_Size = 0, cf_CreateMode = CreateIfNotExist\<rparr>) w")
     (simp add: open_missing_def split: sum.split)

text \<open>The two steps of a truncation: the replicas, then the size.\<close>

lemma truncate_update_evolves:
  assumes "contracts w" "truncateAllReplicas c path sz w = (w1, e)"
  shows "evolves w w1" "evolves w (fst (updateSize c path sz w1))"
proof -
  show 1: "evolves w w1" using truncateAll_evolves [OF assms(1), of c path sz] assms(2) by simp
  show "evolves w (fst (updateSize c path sz w1))"
    by (rule evolves_trans [OF 1 metadata_evolves(5) [OF evolves_contracts [OF 1 assms(1)]]])
qed

lemma open_existing_evolves:
  assumes "contracts w"
  shows "evolves w (fst (open_existing c path flags info w))"
proof -
  obtain w1 e where t: "truncateAllReplicas c path 0 w = (w1, e)" by fastforce
  show ?thesis
    using truncate_update_evolves [OF assms t] t
    by (cases "updateSize c path 0 w1") (simp add: open_existing_def split: option.split sum.split)
qed

lemma open_evolves [simp]:
  assumes "contracts w"
  shows "evolves w (fst (client_Open c path flags w))"
proof -
  obtain w1 st where s: "client_Stat c path w = (w1, st)" by fastforce
  have 1: "evolves w w1" using metadata_evolves(8) [OF assms, of c path] s by simp
  let ?next = "case st of
      Inl e \<Rightarrow> if \<not> Contains e ''not found'' then (w1, Inl (''open: stat failed: '' @ e)) else open_missing c path flags w1
    | Inr info \<Rightarrow> open_existing c path flags info w1"
  obtain w2 x where n: "?next = (w2, x)" by fastforce
  have "evolves w1 (fst ?next)"
    using open_missing_evolves open_existing_evolves evolves_contracts [OF 1 assms] by (simp split: sum.split)
  with evolves_trans [OF 1] n have 2: "evolves w w2" by simp
  have 3: "evolves w (fst (getFileLocation c path w2))"
    by (rule evolves_trans [OF 2 metadata_evolves(6) [OF evolves_contracts [OF 2 assms]]])
  show ?thesis unfolding client_Open_def s prod.case n
    using 2 3 by (cases "getFileLocation c path w2") (simp add: Let_def split: sum.split prod.split)
qed

lemma handle_evolves [simp]:
  assumes "contracts w"
  shows "evolves w (fst (ReadAt fh len offset w))" "evolves w (fst (WriteAt fh bs offset w))" "evolves w (fst (Close fh w))"
    "evolves w (fst (fh_Truncate fh sz w))" "evolves w (fst (fh_Sync fh w))"
proof -
  obtain w1 x where r: "on_cluster (read_loop offset len (fh_replicas fh) None) w = (w1, x)" by fastforce
  have "evolves w w1" using evolves_on_cluster [of "read_loop offset len (fh_replicas fh) None" w] r by simp
  then show "evolves w (fst (ReadAt fh len offset w))" using r by (simp add: ReadAt_def split: sum.split)
next
  obtain w1 errs where e: "on_cluster (each_replica (partialWrite offset bs) (fh_replicas fh)) w = (w1, errs)" by fastforce
  have 1: "evolves w w1" using each_evolves [of "partialWrite offset bs" w "fh_replicas fh"] e by simp
  have u: "evolves w (fst (updateSize c p sz w1))" for c p sz
    by (rule evolves_trans [OF 1 metadata_evolves(5) [OF evolves_contracts [OF 1 assms]]])
  show "evolves w (fst (WriteAt fh bs offset w))"
    using 1 u [of "fh_client fh" "fh_path fh" "offset + word_of_nat (length bs)"] e
    by (cases "updateSize (fh_client fh) (fh_path fh) (offset + word_of_nat (length bs)) w1")
       (simp add: WriteAt_def Let_def)
next
  show "evolves w (fst (Close fh w))"
    using metadata_evolves(2) [OF assms, of "fh_client fh" "fh_path fh"]
    by (cases "client_CompleteFile (fh_client fh) (fh_path fh) w") (simp add: Close_def split: sum.split)
next
  obtain w1 e where t: "truncateAllReplicas (fh_client fh) (fh_path fh) sz w = (w1, e)" by fastforce
  show "evolves w (fst (fh_Truncate fh sz w))"
    using truncate_update_evolves [OF assms t] t
    by (cases "updateSize (fh_client fh) (fh_path fh) sz w1") (simp add: fh_Truncate_def split: option.split sum.split)
next
  obtain w1 errs where e: "on_cluster (each_replica syncReplica (fh_replicas fh)) w = (w1, errs)" by fastforce
  have "evolves w w1" using each_evolves [of syncReplica w "fh_replicas fh"] e by simp
  then show "evolves w (fst (fh_Sync fh w))" using e by (simp add: fh_Sync_def)
qed

lemma heartbeat_evolves [simp]:
  assumes "contracts w"
  shows "evolves w (sendHeartbeat dn w)"
proof -
  have "contracts w \<Longrightarrow> evolves w (heartbeat_loop n dn a w)" for n a w
  proof (induction n arbitrary: a w)
    case (Suc n)
    obtain w1 d where d: "dial_mds a w = (w1, d)" by fastforce
    have w1: "evolves w w1" "contracts w1"
      using d Suc.prems by (auto simp: dial_mds_def Let_def split: prod.splits if_splits)
    obtain w2 r where c: "call_mds a (write_method (\<lambda>rf. Heartbeat rf (dn_addr dn))) w1 = (w2, r)" by fastforce
    have "evolves w1 w2" using heartbeat_method.call_evolves [OF w1(2), of a "dn_addr dn"] c by simp
    with evolves_trans [OF w1(1)] have 2: "evolves w w2" by blast
    then show ?case
      using d c w1(1) Suc.IH [OF evolves_contracts [OF 2 Suc.prems]] evolves_trans [OF 2]
      by (simp add: Let_def split: option.split sum.split)
  qed simp
  then show ?thesis using assms by (simp add: sendHeartbeat_def)
qed

end
