(* ===== verification/System_Runs.thy ===== *)
theory System_Runs
  imports World_Operations File_Transfer
begin

section \<open>Runs of the whole system\<close>

text \<open>
  Any interleaving of the operations of clients and open files, of heartbeats and garbage
  collection, with whatever else happens to the servers: commands applied for others, elections,
  faults of the networks and of the disks, crashes of data nodes. An operation may run as one step
  or in pieces: its writes to the metadata are commands (\<open>applied\<close>), its calls to single replicas and
  the collection of single nodes, with whatever FileIDs were collected before, are steps of
  their own.
\<close>

inductive system_run :: "world \<Rightarrow> world \<Rightarrow> bool" for w0 where
  start: "system_run w0 w0"
| applied: "system_run w0 w \<Longrightarrow> w_mds w a = Some (rf, mds) \<Longrightarrow>
    system_run w0 (w\<lparr>w_mds := (w_mds w)(a \<mapsto> (rf, fst (apply_at cmd mds)))\<rparr>)"
| election: "system_run w0 w \<Longrightarrow> w_mds w a = Some (rf, mds) \<Longrightarrow> raft_contract rf' \<Longrightarrow>
    system_run w0 (w\<lparr>w_mds := (w_mds w)(a \<mapsto> (rf', mds))\<rparr>)"
| networks: "system_run w0 w \<Longrightarrow>
    system_run w0 (w\<lparr>w_mdsnet := net, w_rand := rnd, w_clock := now, w_cluster := (w_cluster w)\<lparr>cl_net := net'\<rparr>\<rparr>)"
| disk_fault: "system_run w0 w \<Longrightarrow> cl_nodes (w_cluster w) a = Some (dn, os) \<Longrightarrow> os_files os' = os_files os \<Longrightarrow>
    system_run w0 (w\<lparr>w_cluster := (w_cluster w)\<lparr>cl_nodes := (cl_nodes (w_cluster w))(a \<mapsto> (dn, os'))\<rparr>\<rparr>)"
| crash: "system_run w0 w \<Longrightarrow>
    system_run w0 (w\<lparr>w_cluster := (w_cluster w)\<lparr>cl_nodes := (cl_nodes (w_cluster w))(a := None)\<rparr>\<rparr>)"
| heartbeat: "system_run w0 w \<Longrightarrow> system_run w0 (sendHeartbeat dn w)"
| gc_tick: "system_run w0 w \<Longrightarrow> w_mds w a = Some (rf, mds) \<Longrightarrow>
    startGC_tick rf gcStart now (mds, w_cluster w) = Some (mds', cl) \<Longrightarrow>
    system_run w0 (w\<lparr>w_mds := (w_mds w)(a \<mapsto> (rf, mds')), w_cluster := cl\<rparr>)"
| local_disk: "system_run w0 w \<Longrightarrow> (os_ok (w_local w) \<Longrightarrow> os_ok os) \<Longrightarrow> system_run w0 (w\<lparr>w_local := os\<rparr>)"
| store_call: "system_run w0 w \<Longrightarrow> system_run w0 (fst (on_cluster (storeReplica bs r) w))"
| read_call: "system_run w0 w \<Longrightarrow> system_run w0 (fst (on_cluster (readReplica r) w))"
| delete_call: "system_run w0 w \<Longrightarrow> system_run w0 (fst (on_cluster (deleteReplica r) w))"
| write_call: "system_run w0 w \<Longrightarrow> system_run w0 (fst (on_cluster (partialWrite off bs r) w))"
| truncate_call: "system_run w0 w \<Longrightarrow> system_run w0 (fst (on_cluster (truncateReplica sz r) w))"
| sync_call: "system_run w0 w \<Longrightarrow> system_run w0 (fst (on_cluster (syncReplica r) w))"
| range_call: "system_run w0 w \<Longrightarrow> system_run w0 (fst (on_cluster (rangeRead r off len) w))"
| gc_node: "system_run w0 w \<Longrightarrow> system_run w0 (w\<lparr>w_cluster := garbageCollectNode a ids gcStart (w_cluster w)\<rparr>)"
| mkdir: "system_run w0 w \<Longrightarrow> system_run w0 (fst (client_Mkdir c p w))"
| put: "system_run w0 w \<Longrightarrow> system_run w0 (fst (PutFile c src p opts w))"
| get: "system_run w0 w \<Longrightarrow> system_run w0 (fst (GetFile c p dst w))"
| complete: "system_run w0 w \<Longrightarrow> system_run w0 (fst (client_CompleteFile c p w))"
| delete: "system_run w0 w \<Longrightarrow> system_run w0 (fst (client_Delete c p w))"
| rename: "system_run w0 w \<Longrightarrow> system_run w0 (fst (client_Rename c p q w))"
| trigger_gc: "system_run w0 w \<Longrightarrow> system_run w0 (fst (client_TriggerGC c w))"
| list_dir: "system_run w0 w \<Longrightarrow> system_run w0 (fst (client_ListDir c p w))"
| stat: "system_run w0 w \<Longrightarrow> system_run w0 (fst (client_Stat c p w))"
| list_nodes: "system_run w0 w \<Longrightarrow> system_run w0 (fst (client_ListDataNodes c w))"
| get_replicas: "system_run w0 w \<Longrightarrow> system_run w0 (fst (GetReplicas c p w))"
| open_file: "system_run w0 w \<Longrightarrow> system_run w0 (fst (client_Open c p flags w))"
| read_at: "system_run w0 w \<Longrightarrow> system_run w0 (fst (ReadAt fh n off w))"
| write_at: "system_run w0 w \<Longrightarrow> system_run w0 (fst (WriteAt fh bs off w))"
| truncate: "system_run w0 w \<Longrightarrow> system_run w0 (fst (fh_Truncate fh sz w))"
| sync: "system_run w0 w \<Longrightarrow> system_run w0 (fst (fh_Sync fh w))"
| close: "system_run w0 w \<Longrightarrow> system_run w0 (fst (Close fh w))"

lemma logs_apply: "logs mds (fst (apply_at cmd mds))"
  unfolding logs_def by (rule exI [of _ "[cmd]"]) simp

lemma tick_evolves:
  assumes "contracts w" "w_mds w a = Some (rf, mds)" "startGC_tick rf gcStart now (mds, w_cluster w) = Some (mds', cl)"
  shows "evolves w (w\<lparr>w_mds := (w_mds w)(a \<mapsto> (rf, mds')), w_cluster := cl\<rparr>)"
proof -
  have "raft_contract rf" using assms(1,2) unfolding contracts_def by blast
  then have g: "logs mds mds' \<and> served (w_cluster w) cl"
    using assms(3) runGC_evolves by (auto simp: startGC_tick_def split: if_splits)
  then show ?thesis using assms(2) by (simp add: evolves_def)
qed

lemma request_evolves:
  "evolves w (fst (on_cluster (storeReplica bs r) w))" "evolves w (fst (on_cluster (readReplica r) w))"
  "evolves w (fst (on_cluster (deleteReplica r) w))" "evolves w (fst (on_cluster (partialWrite off bs r) w))"
  "evolves w (fst (on_cluster (truncateReplica sz r) w))" "evolves w (fst (on_cluster (syncReplica r) w))"
  "evolves w (fst (on_cluster (rangeRead r off len) w))"
  by (rule evolves_on_cluster, simp)+

text \<open>Every step is one of \<open>evolves\<close>.\<close>

lemma system_run_evolves: "system_run w0 w \<Longrightarrow> contracts w0 \<Longrightarrow> evolves w0 w"
proof (induction rule: system_run.induct)
  case start show ?case by simp
next
  case (applied w a rf mds cmd)
  have "evolves w (w\<lparr>w_mds := (w_mds w)(a \<mapsto> (rf, fst (apply_at cmd mds)))\<rparr>)"
    using evolves_server [OF evolves_refl applied(2) refl logs_apply] .
  with applied(3,4) show ?case using evolves_trans by blast
next
  case (election w a rf mds rf')
  have "evolves w (w\<lparr>w_mds := (w_mds w)(a \<mapsto> (rf', mds))\<rparr>)" using election(2,3) by (simp add: evolves_def)
  with election(4,5) show ?case using evolves_trans by blast
next
  case (networks w)
  have "evolves w (w\<lparr>w_mdsnet := net, w_rand := rnd, w_clock := now, w_cluster := (w_cluster w)\<lparr>cl_net := net'\<rparr>\<rparr>)"
    for net rnd now net'
    by (simp add: evolves_def served_same)
  with networks(2,3) show ?case using evolves_trans by blast
next
  case (disk_fault w a dn os os')
  let ?cl = "(w_cluster w)\<lparr>cl_nodes := (cl_nodes (w_cluster w))(a \<mapsto> (dn, os'))\<rparr>"
  have "serving dn os os'" using serving.env [OF serving.start disk_fault(3)] .
  then have "served (w_cluster w) ?cl" using served_upd [of ?cl "w_cluster w" a "Some (dn, os')"] disk_fault(2) by auto
  from evolves_cluster [OF this] disk_fault(4,5) show ?case using evolves_trans by blast
next
  case (crash w a)
  let ?cl = "(w_cluster w)\<lparr>cl_nodes := (cl_nodes (w_cluster w))(a := None)\<rparr>"
  have "served (w_cluster w) ?cl" using served_upd [of ?cl "w_cluster w" a None] by simp
  from evolves_cluster [OF this] crash(2,3) show ?case using evolves_trans by blast
next
  case (gc_tick w a rf mds gcStart now mds' cl)
  note e = gc_tick(4) [OF gc_tick(5)]
  from evolves_trans [OF e tick_evolves [OF evolves_contracts [OF e gc_tick(5)] gc_tick(2,3)]] show ?case .
next
  case (local_disk w os)
  from evolves_local [OF this(2)] local_disk(3,4) show ?case using evolves_trans by blast
next
  case (gc_node w a ids gcStart)
  from evolves_cluster [OF served_collect] gc_node(2,3) show ?case using evolves_trans by blast
qed (blast intro: evolves_then request_evolves metadata_evolves put_evolves get_evolves delete_evolves open_evolves handle_evolves
    heartbeat_evolves)+

text \<open>C9. Clients cannot bypass the services: in every run the state of a metadata server is what a log
  of Raft commands makes of its first state, and the disk of a data node is what the node's own
  methods make of its first disk.\<close>

theorem system_runs_through_services:
  assumes "contracts w0" "system_run w0 w"
  shows "(w_mds w a = None \<longleftrightarrow> w_mds w0 a = None) \<and>
    (\<forall>rf mds rf' mds'. w_mds w0 a = Some (rf, mds) \<longrightarrow> w_mds w a = Some (rf', mds') \<longrightarrow>
       (\<exists>log. mds' = run_log apply_at log mds)) \<and>
    (\<forall>dn os'. cl_nodes (w_cluster w) a = Some (dn, os') \<longrightarrow>
       (\<exists>os. cl_nodes (w_cluster w0) a = Some (dn, os) \<and> serving dn os os'))"
proof -
  note e = system_run_evolves [OF assms(2,1)]
  then have "rel_option (\<lambda>(rf, mds) (rf', mds'). (raft_contract rf \<longrightarrow> raft_contract rf') \<and> logs mds mds') (w_mds w0 a) (w_mds w a)"
    by (simp add: evolves_def)
  then have "(w_mds w a = None \<longleftrightarrow> w_mds w0 a = None) \<and>
    (\<forall>rf mds rf' mds'. w_mds w0 a = Some (rf, mds) \<longrightarrow> w_mds w a = Some (rf', mds') \<longrightarrow> logs mds mds')"
    by (cases "w_mds w0 a"; cases "w_mds w a") auto
  moreover have "\<forall>dn os'. cl_nodes (w_cluster w) a = Some (dn, os') \<longrightarrow>
       (\<exists>os. cl_nodes (w_cluster w0) a = Some (dn, os) \<and> serving dn os os')"
    using e unfolding evolves_def served_def by blast
  ultimately show ?thesis unfolding logs_def by blast
qed

subsection \<open>A run\<close>

text \<open>Where the example runs start.\<close>

definition world_ok :: "world \<Rightarrow> bool" where
  "world_ok w \<longleftrightarrow> (\<forall>a rf mds. w_mds w a = Some (rf, mds) \<longrightarrow> raft_contract rf \<and> reachable mds) \<and>
     nodes_ok (w_cluster w) \<and> os_ok (w_local w)"

lemma single_world_ok: "world_ok single_world"
  unfolding world_ok_def
proof (intro conjI allI impI)
  fix a rf mds assume m: "w_mds single_world a = Some (rf, mds)"
  then have "rf = local_node 5 \<and> mds = sample_nodes" by (simp add: single_world_def split: if_splits)
  then show "raft_contract rf" "reachable mds" using local_node_contract sample_nodes_reachable by simp_all
next
  show "nodes_ok (w_cluster single_world)" using sample_nodes_ok by (simp add: single_world_def sample_world_def)
  show "os_ok (w_local single_world)" using sample_local_ok by (simp add: single_world_def sample_world_def)
qed

theorem system_runs_through_services_witness:
  "\<exists>os. cl_nodes (w_cluster single_world) ''n1'' = Some (sample_dn, os) \<and>
     serving sample_dn os (snd (the (cl_nodes (w_cluster after_put) ''n1'')))"
proof -
  have c: "contracts single_world" using single_world_ok unfolding world_ok_def contracts_def by blast
  have run: "system_run single_world after_put" unfolding after_put_def by (intro system_run.intros)
  have "map_option fst (cl_nodes (w_cluster after_put) ''n1'') = Some sample_dn" by code_simp
  then obtain os' where "cl_nodes (w_cluster after_put) ''n1'' = Some (sample_dn, os')" by auto
  then show ?thesis using system_runs_through_services [OF c run, of "''n1''"] by simp
qed

end
