(* ===== verification/Upload_Survives.thy ===== *)
theory Upload_Survives
  imports System_Runs GC_Properties
begin

section \<open>Uploads and garbage collection\<close>

text \<open>
  The parts together: an upload (\<open>client.go\<close>) through a metadata server (\<open>mds.go\<close>, \<open>apply.go\<close>) to
  data nodes (\<open>datanode.go\<close>), followed by a cycle of the garbage collection (\<open>gc.go\<close>) at any time.
\<close>

subsection \<open>The health check and the tree\<close>

lemma remove_node_heap: "mds_heap (remove_node (local_node t) addr mds) = mds_heap mds \<and>
    mds_root (remove_node (local_node t) addr mds) = mds_root mds"
  by (simp add: remove_node_def submitCommand_def local_node_def local_do_def Apply_def Unmarshal_Marshal
      apply_payload_def applyRemoveDataNode_def op_defs empty_payload_def Let_def split: prod.split)

lemma remove_nodes_heap: "mds_heap (fold (\<lambda>(addr, last). remove_node (local_node t) addr) dead mds) = mds_heap mds \<and>
    mds_root (fold (\<lambda>(addr, last). remove_node (local_node t) addr) dead mds) = mds_root mds"
  by (induction dead arbitrary: mds) (auto simp: remove_node_heap)

lemma health_view: "mds_view (checkDataNodeHealth (local_node t) now mds) = mds_view mds"
  by (simp add: checkDataNodeHealth_def remove_nodes_heap)

subsection \<open>Data in use\<close>

text \<open>An upload takes a reachable metadata state to a reachable one.\<close>

lemma put_reachable:
  assumes "sole_server (c_mdsAddr c) (local_node t) mds w" "reachable mds"
    and "PutFile c src remote opts w = (w1, r)" "w_mds w1 (c_mdsAddr c) = Some (local_node t, mds1)"
  shows "reachable mds1"
proof -
  have "contracts w"
    using assms(1) local_node_contract by (auto simp: contracts_def sole_server_def) (metis option.inject prod.inject option.distinct(1))
  from put_evolves [OF this, of c src remote opts] have "evolves w w1" using assms(3) by simp
  then have "logs mds mds1" using assms(1,4) by (auto simp: evolves_def sole_server_def dest: spec [of _ "c_mdsAddr c"])
  then show ?thesis by (rule logs_reachable [OF _ assms(2)])
qed

text \<open>Where there is a file the data directory exists.\<close>

lemma stored_node_ready:
  assumes "st_ok (dn, os)" "st_blob (dn, os) p = Some c" "virtual p \<noteq> []"
  shows "node_ready dn os"
proof -
  have ok: "os_ok os" "node_ok dn os" using st_ok_dn [OF assms(1)] assms(1) by (simp_all add: st_ok_def)
  have t: "strict_prefix (components (dataDir dn)) (target dn p)"
    using assms(3) by (simp add: target_def strict_prefix_def)
  have "node (os_files os) (target dn p) \<noteq> None" using assms(2) by (auto simp: st_blob_def file_at_Some)
  then show ?thesis using disk_ok_parent [OF ok(1) t] ok(2) by (auto simp: node_ready_def)
qed

lemma plain_hex: "buf \<noteq> [] \<Longrightarrow> plain_name (EncodeToString buf)"
proof -
  assume "buf \<noteq> []"
  then have l: "2 \<le> length (EncodeToString buf)" by (cases buf) (simp_all add: length_EncodeToString del: EncodeToString_Cons)
  have h: "list_all is_hex (EncodeToString buf)" by (rule EncodeToString_hex)
  have "\<not> is_hex CHR ''.''" "\<not> is_hex slash" by (simp_all add: is_hex_def)
  then have "CHR ''.'' \<notin> set (EncodeToString buf)" "slash \<notin> set (EncodeToString buf)"
    using h by (auto simp: list_all_iff)
  then show ?thesis using l by (auto simp: plain_name_def valid_name_def)
qed

subsection \<open>The property\<close>

text \<open>A cycle leaves the data of a file that is in the tree, on every node, whatever fails.\<close>

lemma gc_keeps_data:
  assumes "reachable mds" "mds_view mds ps = Some e" "\<not> isDir e" "fileID e = EncodeToString buf" "buf \<noteq> []"
    and "cl_nodes cl a = Some (dn, os)" "st_ok (dn, os)" "st_blob (dn, os) (''/data/'' @ EncodeToString buf) = Some c"
  shows "\<exists>mds' cl' os'. runGC (local_node t) gcStart now (mds, cl) = Some (mds', cl') \<and> reachable mds' \<and>
    mds_view mds' = mds_view mds \<and> cl_nodes cl' a = Some (dn, os') \<and>
    st_blob (dn, os') (''/data/'' @ EncodeToString buf) = Some c"
proof -
  let ?fid = "EncodeToString buf" and ?m = "checkDataNodeHealth (local_node t) now mds"
  have plain: "plain_name ?fid" by (rule plain_hex [OF assms(5)])
  then have fid: "?fid \<noteq> ''''" by (auto simp: plain_name_def valid_name_def)
  obtain ids where st: "reachable ?m" "distinct (dataNodes ?m)"
    "runGC (local_node t) gcStart now (mds, cl) = Some (?m, fold (\<lambda>addr. garbageCollectNode addr ids gcStart) (dataNodes ?m) cl)"
    "orphan dn (set ids) = orphan dn (used_ids (mds_view ?m))"
    using runGC_ids [OF local_node_contract assms(1), of t now gcStart cl] by blast
  have "virtual (''/data/'' @ ?fid) \<noteq> []" using data_path [OF plain] by simp
  from stored_node_ready [OF assms(7,8) this] have ready: "node_ready dn os" .
  have "file_id (mds_view mds) ps = Some ?fid" using assms(2-4) by (simp add: file_id_def)
  then have "?fid \<in> used_ids (mds_view ?m)" by (auto simp: used_ids_def health_view)
  from referenced_not_orphan [OF this fid plain] collect_all_safe [OF st(2) assms(6) ready, of ids gcStart] st(4)
  obtain os' where "cl_nodes (fold (\<lambda>addr. garbageCollectNode addr ids gcStart) (dataNodes ?m) cl) a = Some (dn, os')"
    "files os' (target dn (''/data/'' @ ?fid)) = files os (target dn (''/data/'' @ ?fid))"
    by metis
  then show ?thesis using st(1,3) health_view assms(8) by (auto simp: st_blob_def)
qed

text \<open>C6. An uploaded file survives garbage collection: after a successful upload to a new path,
  through a metadata server that applies its commands at once and with any faults of the data
  nodes, a cycle at any time and under any faults leaves the file complete in the tree and its
  content on a data node where the metadata say it is.\<close>

theorem uploaded_file_survives_gc:
  assumes server: "sole_server (c_mdsAddr c) (local_node t) mds w" "reachable mds"
    and utf8: "utf8_ok remote" "list_all utf8_ok (dataNodes mds)"
    and fresh: "w_rand w = Inr buf # rnd" "buf \<noteq> []" "mds_view mds (splitPath remote) = None"
    and ok: "nodes_ok (w_cluster w)" "os_ok (w_local w)" "files (w_local w) (os_path src) = Some content"
    and put: "PutFile c src remote opts w = (w1, Inr ())"
  shows "\<exists>mds1 mds2 cl2 loc. w_mds w1 (c_mdsAddr c) = Some (local_node t, mds1) \<and>
    runGC (local_node t) gcStart now (mds1, w_cluster w1) = Some (mds2, cl2) \<and>
    GetFileLocation mds2 remote = Inr loc \<and> fl_Status loc = StatusComplete \<and>
    (\<exists>r \<in> set (fl_Replicas loc). \<exists>n. cl_nodes cl2 (Addr r) = Some n \<and> st_blob n (RemotePath r) = Some content)"
proof -
  have inv: "mds_inv mds" by (rule reachable_inv [OF server(2)])
  obtain mds1 e errs where p: "sole_server (c_mdsAddr c) (local_node t) mds1 w1" "mds_inv mds1"
    "mds_view mds1 (splitPath remote) = Some e" "\<not> isDir e" "entry_status e = StatusComplete" "fileID e = EncodeToString buf"
    "distinct (map Addr (replicas e))" "\<forall>r \<in> set (replicas e). RemotePath r = ''/data/'' @ EncodeToString buf"
    "each_replica (storeReplica content) (replicas e) (w_cluster w) = (w_cluster w1, errs)" "successCount errs \<noteq> 0"
    using put_result [OF server(1) inv utf8 fresh(1) ok(2,3) put] fresh(3) by blast
  have m1: "w_mds w1 (c_mdsAddr c) = Some (local_node t, mds1)" using p(1) by (simp add: sole_server_def)
  have r1: "reachable mds1" by (rule put_reachable [OF server put m1])
  have len: "length errs = length (replicas e)" using store_op.each_ok [OF ok(1) p(9)] by simp
  obtain i where i: "i < length (replicas e)" "errs ! i = None"
    using p(10) len by (auto simp: successCount_def filter_empty_conv in_set_conv_nth)
  let ?r = "replicas e ! i"
  obtain n where n: "cl_nodes (w_cluster w1) (Addr ?r) = Some n" "st_ok n" "st_blob n (RemotePath ?r) = Some content"
    using store_op.each_done [OF ok(1) p(9,7) i] by blast
  obtain dn os where node: "n = (dn, os)" by fastforce
  have path: "RemotePath ?r = ''/data/'' @ EncodeToString buf" "?r \<in> set (replicas e)" using p(8) i(1) by simp_all
  obtain mds2 cl2 os' where gc: "runGC (local_node t) gcStart now (mds1, w_cluster w1) = Some (mds2, cl2)" "reachable mds2"
    "mds_view mds2 = mds_view mds1" "cl_nodes cl2 (Addr ?r) = Some (dn, os')"
    "st_blob (dn, os') (''/data/'' @ EncodeToString buf) = Some content"
    using gc_keeps_data [OF r1 p(3,4,6) fresh(2), of "w_cluster w1" "Addr ?r" dn os content t gcStart now] n path(1) node by auto
  obtain fid where "GetFileLocation mds2 remote = Inr \<lparr>fl_FileID = fid, fl_Replicas = replicas e, fl_Status = entry_status e\<rparr>"
    using GetFileLocation_view [OF reachable_inv [OF gc(2)], of remote e] gc(3) p(3,4) by auto
  then show ?thesis using m1 gc(1,4,5) path p(5) by (auto intro!: bexI [of _ ?r])
qed

theorem uploaded_file_survives_gc_witness:
  "\<exists>mds1 mds2 cl2 loc. w_mds after_put ''m1'' = Some (local_node 5, mds1) \<and>
    runGC (local_node 5) (10 ^ 12) (10 ^ 12) (mds1, w_cluster after_put) = Some (mds2, cl2) \<and>
    GetFileLocation mds2 ''/d/g'' = Inr loc \<and> fl_Status loc = StatusComplete \<and>
    (\<exists>r \<in> set (fl_Replicas loc). \<exists>n. cl_nodes cl2 (Addr r) = Some n \<and> st_blob n (RemotePath r) = Some [7, 8])"
proof -
  have r: "w_rand single_world = Inr [1, 2] # [Inr [3, 4]]" "[1, 2 :: byte] \<noteq> []"
    by (simp_all add: single_world_def sample_world_def)
  have "map_option isDir (mds_view sample_nodes (splitPath ''/d/g'')) = None" by code_simp
  then have v: "mds_view sample_nodes (splitPath ''/d/g'') = None" by simp
  have ok: "nodes_ok (w_cluster single_world)" "os_ok (w_local single_world)"
    using single_world_ok by (simp_all add: world_ok_def)
  have f: "files (w_local single_world) (os_path ''/a'') = Some [7, 8]" by code_simp
  have u: "list_all utf8_ok (dataNodes sample_nodes)" unfolding sample_nodes_registry by (rule sample_nodes_utf8(3))
  have put: "PutFile client1 ''/a'' ''/d/g'' [] single_world = (after_put, Inr ())"
    using run_eq [OF put_runs] by (simp add: after_put_def)
  from uploaded_file_survives_gc [OF single_sole sample_nodes_reachable sample_nodes_utf8(1) u r v ok f put, of "10 ^ 12" "10 ^ 12"]
  show ?thesis by (simp add: client1_def NewClient_def)
qed

end
