(* ===== verification/Overwritten_Uploads.thy ===== *)
theory Overwritten_Uploads
  imports Upload_Survives
begin

section \<open>Overwrites and garbage collection\<close>

text \<open>
  The other side of \<open>Upload_Survives\<close>: an upload that overwrites a file. \<open>mds.CreateFile\<close> (\<open>mds.go\<close>)
  draws a FileID and hands out replica paths made of it, but \<open>applyCreateFile\<close> (\<open>apply.go\<close>) keeps the
  FileID that the entry has. The collector (\<open>gc.go\<close>) goes by the FileIDs of the tree.
\<close>

text \<open>A data node that a cycle reaches: it answers, its disk works, and its file at the path is
  not newer than the cut-off.\<close>

definition collectable :: "cluster \<Rightarrow> string \<Rightarrow> time \<Rightarrow> string \<Rightarrow> bool" where
  "collectable cl addr cutoff p \<longleftrightarrow> cl_net cl addr = [] \<and>
     (\<exists>dn os. cl_nodes cl addr = Some (dn, os) \<and> node_ready dn os \<and> healthy os \<and> (\<exists>r. resolvePath dn p = Inr r) \<and>
        (\<forall>d t. node (os_files os) (target dn p) = Some (FileNode d t) \<longrightarrow> t \<le> cutoff))"

text \<open>The name of data that no entry of the tree has is an orphan's.\<close>

lemma unreferenced_orphan:
  assumes "node fs (target dn (''/data/'' @ EncodeToString buf)) = Some (FileNode d t)" "t \<le> cutoff" "buf \<noteq> []"
    and "EncodeToString buf \<notin> used" "resolvePath dn (''/data/'' @ EncodeToString buf) = Inr r"
  shows "orphan dn used cutoff fs (target dn (''/data/'' @ EncodeToString buf))"
proof -
  let ?fid = "EncodeToString buf"
  have dp: "join_path [''data'', ?fid] = ''/data/'' @ ?fid" "virtual (''/data/'' @ ?fid) = [''data'', ?fid]"
    using data_path [OF plain_hex [OF assms(3)]] by simp_all
  have "TrimPrefix (join_path [''data'', ?fid]) ''/data/'' = ?fid" unfolding dp(1) by (rule TrimPrefix_append)
  moreover have "\<not> HasSuffix ?fid ''.tmp''"
  proof
    assume "HasSuffix ?fid ''.tmp''"
    then have d: "drop (length ?fid - length ''.tmp'') ?fid = ''.tmp''" by (simp add: HasSuffix_def)
    have "CHR ''.'' \<in> set (drop (length ?fid - length ''.tmp'') ?fid)" unfolding d by simp
    then have "CHR ''.'' \<in> set ?fid" by (rule in_set_dropD)
    then have "is_hex CHR ''.''" using EncodeToString_hex [of buf] by (simp add: list_all_iff)
    then show False by (simp add: is_hex_def)
  qed
  moreover have "target dn (''/data/'' @ ?fid) = components (dataDir dn) @ [''data'', ?fid]" by (simp only: target_def dp(2))
  ultimately show ?thesis
    unfolding orphan_def using assms(1,2,4) assms(5) [folded dp(1)]
    by (intro exI [of _ "[''data'', ?fid]"] exI [of _ d] exI [of _ t]) (simp del: append.simps)
qed

text \<open>A cycle deletes such data from each registered data node it reaches.\<close>

lemma gc_deletes_data:
  assumes "reachable mds" "buf \<noteq> []" "EncodeToString buf \<notin> used_ids (mds_view mds)"
    and "runGC (local_node t) gcStart now (mds, cl) = Some (mds', cl')" "addr \<in> set (dataNodes mds')"
    and "collectable cl addr (gcStart - gcSafetyWindow) (''/data/'' @ EncodeToString buf)"
  shows "\<exists>n. cl_nodes cl' addr = Some n \<and> st_blob n (''/data/'' @ EncodeToString buf) = None"
proof -
  let ?m = "checkDataNodeHealth (local_node t) now mds" and ?p = "''/data/'' @ EncodeToString buf"
  obtain dn os r where n: "cl_nodes cl addr = Some (dn, os)" "node_ready dn os" "healthy os" "resolvePath dn ?p = Inr r"
    "\<And>d t. node (os_files os) (target dn ?p) = Some (FileNode d t) \<Longrightarrow> t \<le> gcStart - gcSafetyWindow" "cl_net cl addr = []"
    using assms(6) unfolding collectable_def by blast
  obtain ids where st: "distinct (dataNodes ?m)"
    "runGC (local_node t) gcStart now (mds, cl) = Some (?m, fold (\<lambda>addr. garbageCollectNode addr ids gcStart) (dataNodes ?m) cl)"
    "\<And>dn. orphan dn (set ids) = orphan dn (used_ids (mds_view ?m))"
    using runGC_ids [OF local_node_contract assms(1)] by blast
  then have m: "mds' = ?m" "cl' = fold (\<lambda>addr. garbageCollectNode addr ids gcStart) (dataNodes ?m) cl"
    using assms(4) by simp_all
  obtain os' where o: "cl_nodes cl' addr = Some (dn, os')" "\<And>q. files os' q =
      (if orphan dn (used_ids (mds_view mds)) (gcStart - gcSafetyWindow) (os_files os) q then None else files os q)"
    using collect_all_exact [OF st(1) assms(5) [unfolded m(1)] n(1-3,6), of ids gcStart] st(3) m health_view by auto
  have "files os' (target dn ?p) = None"
  proof (cases "files os (target dn ?p)")
    case (Some d)
    then obtain u where "node (os_files os) (target dn ?p) = Some (FileNode d u)" by (auto simp: file_at_Some)
    from unreferenced_orphan [OF this n(5) [OF this] assms(2,3) n(4)] show ?thesis using o(2) by simp
  qed (simp add: o(2))
  then show ?thesis using o(1) by (auto simp: st_blob_def)
qed

subsection \<open>The property\<close>

text \<open>C8. An overwritten file is lost: after a successful upload to a path that had a file, with a
  FileID that no entry has, the next cycle of the garbage collection later than the safety window
  leaves the file complete in the tree while none of its replicas has its data on any registered
  data node that the cycle reached.\<close>

theorem overwritten_file_is_collected:
  assumes server: "sole_server (c_mdsAddr c) (local_node t) mds w" "reachable mds"
    and utf8: "utf8_ok remote" "list_all utf8_ok (dataNodes mds)"
    and old: "mds_view mds (splitPath remote) \<noteq> None"
    and rnd: "w_rand w = Inr buf # rnd" "buf \<noteq> []" "EncodeToString buf \<notin> used_ids (mds_view mds)"
    and ok: "os_ok (w_local w)" "files (w_local w) (os_path src) = Some content"
    and put: "PutFile c src remote opts w = (w1, Inr ())"
    and gc: "w_mds w1 (c_mdsAddr c) = Some (local_node t, mds1)"
      "runGC (local_node t) gcStart now (mds1, w_cluster w1) = Some (mds2, cl2)"
    and reached: "\<And>addr. addr \<in> set (dataNodes mds2) \<Longrightarrow>
      collectable (w_cluster w1) addr (gcStart - gcSafetyWindow) (''/data/'' @ EncodeToString buf)"
  shows "\<exists>loc. GetFileLocation mds2 remote = Inr loc \<and> fl_Status loc = StatusComplete \<and>
    (\<forall>r \<in> set (fl_Replicas loc). Addr r \<in> set (dataNodes mds2) \<longrightarrow>
       (\<exists>n. cl_nodes cl2 (Addr r) = Some n \<and> st_blob n (RemotePath r) = None))"
proof -
  obtain m e where p: "sole_server (c_mdsAddr c) (local_node t) m w1"
    "mds_view m (splitPath remote) = Some e" "\<not> isDir e" "entry_status e = StatusComplete"
    "\<forall>r \<in> set (replicas e). RemotePath r = ''/data/'' @ EncodeToString buf" "file_id (mds_view m) = file_id (mds_view mds)"
    using put_result [OF server(1) reachable_inv [OF server(2)] utf8 rnd(1) ok put] old by blast
  then have m: "m = mds1" using gc(1) by (simp add: sole_server_def)
  have r1: "reachable mds1" by (rule put_reachable [OF server put gc(1)])
  have u: "EncodeToString buf \<notin> used_ids (mds_view mds1)" using rnd(3) used_ids_cong [OF p(6)] m by simp
  have m2: "mds2 = checkDataNodeHealth (local_node t) now mds1"
    using gc(2) runGC_ids [OF local_node_contract r1, of t now gcStart "w_cluster w1"] by auto
  have "reachable mds2" unfolding m2 by (rule checkDataNodeHealth_reachable [OF local_node_contract r1])
  moreover have "mds_view mds2 (splitPath remote) = Some e" using p(2) by (simp add: m m2 health_view)
  ultimately obtain fid where
    "GetFileLocation mds2 remote = Inr \<lparr>fl_FileID = fid, fl_Replicas = replicas e, fl_Status = entry_status e\<rparr>"
    using GetFileLocation_view [OF reachable_inv, of mds2 remote e] p(3) by auto
  then show ?thesis using p(4,5) gc_deletes_data [OF r1 rnd(2) u gc(2) _ reached] by auto
qed

subsection \<open>A run\<close>

definition after_overwrite :: world where
  "after_overwrite = fst (PutFile client1 ''/a'' ''/d/f'' [OverwriteIfExists] single_world)"

lemma overwrite_runs: "snd (PutFile client1 ''/a'' ''/d/f'' [OverwriteIfExists] single_world) = Inr ()"
  by code_simp

definition overwrite_stored :: "string \<Rightarrow> bool" where
  "overwrite_stored addr \<longleftrightarrow> cl_net (w_cluster after_overwrite) addr = [] \<and>
     (case cl_nodes (w_cluster after_overwrite) addr of None \<Rightarrow> False | Some (dn, os) \<Rightarrow>
        dn = sample_dn \<and> healthy os \<and> node (os_files os) (components (dataDir dn)) = Some DirNode \<and>
        node (os_files os) (target dn ''/data/0102'') = Some (FileNode [7, 8] 7))"

lemma overwrite_stored_all: "list_all overwrite_stored [''n1'', ''n2'']"
  by code_simp

lemma overwrite_collectable:
  assumes "addr \<in> set [''n1'', ''n2'']"
  shows "collectable (w_cluster after_overwrite) addr (10 ^ 11 - gcSafetyWindow) (''/data/'' @ EncodeToString [1, 2])"
proof -
  have o: "overwrite_stored addr" using overwrite_stored_all assms by (auto simp: list_all_iff)
  then obtain os where n: "cl_nodes (w_cluster after_overwrite) addr = Some (sample_dn, os)" "healthy os"
    "node (os_files os) (components (dataDir sample_dn)) = Some DirNode" "cl_net (w_cluster after_overwrite) addr = []"
    "node (os_files os) (target sample_dn ''/data/0102'') = Some (FileNode [7, 8] 7)"
    unfolding overwrite_stored_def by (auto split: option.splits)
  have c: "contracts single_world" using single_world_ok unfolding world_ok_def contracts_def by blast
  have "nodes_ok (w_cluster after_overwrite)"
    using put_evolves [OF c] served_nodes_ok single_world_ok unfolding after_overwrite_def evolves_def world_ok_def by blast
  then have "node_ok sample_dn os" using n(1) by (fastforce simp: nodes_ok_def st_ok_def)
  then have "node_ready sample_dn os" using n(3) by (simp add: node_ready_def)
  moreover have "''/data/'' @ EncodeToString [1, 2] = ''/data/0102''" "(7 :: time) \<le> 10 ^ 11 - gcSafetyWindow"
    "resolvePath sample_dn ''/data/0102'' = Inr ''/var/dn/data/0102''" by code_simp+
  ultimately show ?thesis using n unfolding collectable_def by simp
qed

theorem overwritten_file_is_collected_witness:
  "\<exists>mds1 mds2 cl2 loc. w_mds after_overwrite ''m1'' = Some (local_node 5, mds1) \<and>
    runGC (local_node 5) (10 ^ 11) (10 ^ 11) (mds1, w_cluster after_overwrite) = Some (mds2, cl2) \<and>
    GetFileLocation mds2 ''/d/f'' = Inr loc \<and> fl_Status loc = StatusComplete \<and>
    (\<forall>r \<in> set (fl_Replicas loc). Addr r \<in> {''n1'', ''n2''} \<longrightarrow>
       (\<exists>n. cl_nodes cl2 (Addr r) = Some n \<and> st_blob n (RemotePath r) = None))"
proof -
  have r: "w_rand single_world = Inr [1, 2] # [Inr [3, 4]]" "[1, 2 :: byte] \<noteq> []"
    by (simp_all add: single_world_def sample_world_def)
  have "map_option isDir (mds_view sample_nodes (splitPath ''/d/f'')) = Some False" by code_simp
  then have v: "mds_view sample_nodes (splitPath ''/d/f'') \<noteq> None" by auto
  obtain l where l: "collectValidFileIDs sample_nodes = Some l" "set l = used_ids (mds_view sample_nodes) - {''''}"
    using collect_used [OF sample_nodes_inv] by blast
  have "collectValidFileIDs sample_nodes = Some [''i1'']" by code_simp
  then have "l = [''i1'']" unfolding l(1) by (simp only: option.inject)
  then have "''0102'' \<notin> set l" by simp
  then have n0: "''0102'' \<notin> used_ids (mds_view sample_nodes)" unfolding l(2) by blast
  have e: "EncodeToString [1, 2] = ''0102''" by code_simp
  have u0: "EncodeToString [1, 2] \<notin> used_ids (mds_view sample_nodes)" unfolding e by (rule n0)
  have ok: "os_ok (w_local single_world)" using single_world_ok by (simp add: world_ok_def)
  have f: "files (w_local single_world) (os_path ''/a'') = Some [7, 8]" by code_simp
  have u: "list_all utf8_ok (dataNodes sample_nodes)" unfolding sample_nodes_registry by (rule sample_nodes_utf8(3))
  have ux: "utf8_ok ''/d/f''" by code_simp
  have put: "PutFile client1 ''/a'' ''/d/f'' [OverwriteIfExists] single_world = (after_overwrite, Inr ())"
    using run_eq [OF overwrite_runs] by (simp add: after_overwrite_def)
  obtain mds1 where m1: "w_mds after_overwrite (c_mdsAddr client1) = Some (local_node 5, mds1)"
    using put_result [OF single_sole sample_nodes_inv ux u r(1) ok f put] by (auto simp: sole_server_def)
  have a: "c_mdsAddr client1 = ''m1''" by (simp add: client1_def NewClient_def)
  let ?m = "checkDataNodeHealth (local_node 5) (10 ^ 11) mds1"
  have "map_option (\<lambda>(rf, mds). dataNodes (checkDataNodeHealth (local_node 5) (10 ^ 11) mds)) (w_mds after_overwrite ''m1'') =
    Some [''n1'', ''n2'']" by code_simp
  then have dn: "dataNodes ?m = [''n1'', ''n2'']" using m1 a by simp
  obtain cl2 where gc: "runGC (local_node 5) (10 ^ 11) (10 ^ 11) (mds1, w_cluster after_overwrite) = Some (?m, cl2)"
    using runGC_ids [OF local_node_contract put_reachable [OF single_sole sample_nodes_reachable put m1]] by blast
  have c: "addr \<in> set (dataNodes ?m) \<Longrightarrow>
      collectable (w_cluster after_overwrite) addr (10 ^ 11 - gcSafetyWindow) (''/data/'' @ EncodeToString [1, 2])" for addr
    using overwrite_collectable dn by simp
  from overwritten_file_is_collected [OF single_sole sample_nodes_reachable ux u v r u0 ok f put m1 gc c]
  show ?thesis using m1 gc a dn by auto
qed

end
