(* ===== verification/Gc_Races.thy ===== *)
theory Gc_Races
  imports Upload_Survives
begin

section \<open>Garbage collection beside uploads\<close>

text \<open>
  A cycle of \<open>internal/metadata/gc.go\<close> takes time: it collects the FileIDs first, lists one data
  node after the other, and sends its deletions one by one, while clients go on storing data of
  files the collected FileIDs cannot contain. \<open>race\<close> is every interleaving of these calls with the
  \<open>storeReplica\<close> calls of an upload (\<open>client.go\<close>) and with whatever else reaches the data nodes.
  What protects the upload is the time stamp of its files (\<open>gcSafetyWindow\<close>).
\<close>

subsection \<open>Time stamps\<close>

lemma calls_clock:
  "os_MkdirAll path os = (os', r1) \<Longrightarrow> os_now os' = os_now os"
  "os_WriteFile path c os = (os', r1) \<Longrightarrow> os_now os' = os_now os"
  "os_Rename path new os = (os', r1) \<Longrightarrow> os_now os' = os_now os"
  "os_Remove path os = (os', r1) \<Longrightarrow> os_now os' = os_now os"
  "os_Walk path os = (os', r2) \<Longrightarrow> os_now os' = os_now os"
  unfolding os_MkdirAll_def os_WriteFile_def os_Rename_def os_Remove_def os_Walk_def Let_def
  by (cases "draw_fault os"; insert draw_fault_files(2) [of os];
      auto split: option.splits os_fault.splits sum.splits inode.splits prod.splits if_splits)+

lemma methods_clock [simp]:
  "os_now (fst (StoreData dn sa os)) = os_now os" "os_now (fst (DeleteData dn p os)) = os_now os"
  "os_now (fst (ListAllPaths dn os)) = os_now os"
  by (auto simp: StoreData_def DeleteData_def ListAllPaths_def Let_def calls_clock split: sum.split prod.split
      dest!: calls_clock) (metis calls_clock(4) prod.collapse)

text \<open>A store leaves the node at its target as it was, or puts the content there, stamped with the
  clock of the data node.\<close>

lemma StoreData_stamp:
  assumes dn: "dn_ok dn" and ok: "os_ok os" and run: "StoreData dn args os = (os', r)"
  shows "node (os_files os') (target dn (st_Path args)) = node (os_files os) (target dn (st_Path args)) \<and> (\<forall>b. r \<noteq> Inr b) \<or>
    node (os_files os') (target dn (st_Path args)) = Some (FileNode (st_Content args) (os_now os))"
proof (cases "resolvePath dn (st_Path args)")
  case (Inl e)
  then show ?thesis using run by (auto simp: StoreData_def)
next
  case (Inr realPath)
  let ?t = "target dn (st_Path args)"
  note land = resolvePath_lands [OF dn Inr]
  have tne: "?t \<noteq> []" "tmp_of ?t \<noteq> ?t" using target_plain [OF dn] tmp_of_neq by blast+
  have up: "\<not> prefix ?t (butlast ?t)" using prefix_butlast_strict [OF tne(1)] by simp
  obtain os1 r1 where 1: "os_MkdirAll (Dir realPath) os = (os1, r1)" by fastforce
  have n1: "node (os_files os1) ?t = node (os_files os) ?t" "os_now os1 = os_now os"
    using os_frame(1) [of ?t "Dir realPath" os] up land(2) 1 calls_clock(1) [OF 1] by simp_all
  have ok1: "os_ok os1" using os_MkdirAll_ok [OF ok 1] by blast
  obtain os2 r2 where 2: "os_WriteFile (realPath @ ''.tmp'') (st_Content args) os1 = (os2, r2)" by fastforce
  have n2: "node (os_files os2) ?t = node (os_files os) ?t"
    using os_frame(2) [of ?t "realPath @ ''.tmp''" "st_Content args" os1] tne(2) land(3) 2 n1 by simp
  obtain os3 r3 where 3: "os_Rename (realPath @ ''.tmp'') realPath os2 = (os3, r3)" by fastforce
  have ok2: "os_ok os2" using os_WriteFile_ok [OF ok1 2 refl] by blast
  show ?thesis
  proof (cases r1)
    case (Inl e)
    then show ?thesis using run Inr 1 n1 by (auto simp: StoreData_def)
  next
    case r1: (Inr u)
    show ?thesis
    proof (cases r2)
      case (Inl e)
      then show ?thesis using run Inr 1 r1 2 n2 by (auto simp: StoreData_def)
    next
      case r2: (Inr u)
      show ?thesis
      proof (cases r3)
        case (Inl e)
        have "os_files os3 = os_files os2" using os_Rename_ok [OF ok2 3] Inl by blast
        then have "node (os_files (fst (os_Remove (realPath @ ''.tmp'') os3))) ?t = node (os_files os) ?t"
          using os_frame(4) [of ?t "realPath @ ''.tmp''" os3] tne(2) land(3) n2 by simp
        then show ?thesis using run Inr 1 r1 2 r2 3 Inl by (auto simp: StoreData_def Let_def)
      next
        case r3: (Inr u)
        have tmp: "node (os_files os2) (tmp_of ?t) = Some (FileNode (st_Content args) (os_now os))"
          using 2 r2 land(3) n1(2) draw_fault_files [of os1] tmp_of_simps(1) [of ?t]
          by (cases "draw_fault os1") (auto simp: os_WriteFile_def Let_def node_put split: prod.splits option.splits os_fault.splits)
        have "node (os_files os3) ?t = Some (FileNode (st_Content args) (os_now os))"
          using 3 r3 land(1,3) draw_fault_files(1) [of os2] stat_node [OF ok2 tmp] tne(1)
          by (cases "draw_fault os2") (auto simp: os_Rename_def Let_def node_put split: prod.splits if_splits option.splits)
        then show ?thesis using run Inr 1 r1 2 r2 3 r3 by (auto simp: StoreData_def Let_def)
      qed
    qed
  qed
qed

lemma DeleteData_other:
  assumes "dn_ok dn" "target dn p \<noteq> q"
  shows "node (os_files (fst (DeleteData dn p os))) q = node (os_files os) q"
proof (cases "resolvePath dn p")
  case (Inr realPath)
  then show ?thesis
    using os_frame(4) [of q realPath os] resolvePath_lands(1) [OF assms(1) Inr] assms(2)
    by (auto simp: DeleteData_def split: prod.split sum.split)
qed (simp add: DeleteData_def)

text \<open>What a listing says of a place below the data directory is there, with that time stamp.\<close>

lemma listed_stamp:
  assumes ok: "node_ok dn os" and run: "ListAllPaths dn os = (os', Inr nfs)" and nf: "nf \<in> set nfs"
    and at: "target dn (nf_Path nf) = target dn p" and p: "virtual p \<noteq> []"
  shows "\<exists>d. node (os_files os) (target dn p) = Some (FileNode d (nf_ModTime nf))"
proof (cases "node (os_files os) (components (dataDir dn)) = Some DirNode")
  case True
  from nf [unfolded ListAllPaths_files(2) [OF ok run True refl]] at show ?thesis
    by (auto simp: target_def virtual_join_path)
next
  case False
  let ?base = "components (dataDir dn)"
  have op: "os_path (dataDir dn) = ?base" using ok by (simp add: os_path_plain dn_ok_def node_ok_def)
  obtain xs where xs: "os_Walk (dataDir dn) os = (os', Inr xs)" "nfs = List.map_filter (walk_fn (dataDir dn)) xs"
    using run by (auto simp: ListAllPaths_def split: prod.splits sum.splits)
  then obtain q i where q: "(q, i) \<in> set xs" "walk_fn (dataDir dn) (q, i) = Some nf"
    using nf by (auto simp: List.map_filter_def)
  have "xs = sort_key fst (filter (\<lambda>(q, i). prefix ?base q) (os_files os))"
    using xs(1) draw_fault_files(1) [of os]
    by (cases "draw_fault os") (auto simp: os_Walk_def op Let_def split: if_splits sum.splits)
  then have "prefix ?base q" "(q, i) \<in> set (os_files os)" using q(1) by auto
  moreover from this(2) have "node (os_files os) q \<noteq> None"
    using ok by (auto simp: node_ok_def disk_ok_def node_def map_of_eq_Some_iff)
  ultimately have "q = ?base"
    using disk_ok_parent [of "os_files os" ?base q] ok False by (auto simp: node_ok_def strict_prefix_def)
  then have "nf_Path nf = ''/.''" using q(2) by (auto simp: walk_fn_def Rel_def op split: inode.splits if_splits)
  moreover have "virtual ''/.'' = []" by code_simp
  ultimately show ?thesis using at p by (simp add: target_def)
qed

subsection \<open>The race\<close>

text \<open>
  The state is the cluster, the nodes at which a store has been acknowledged, and the files that
  listings have shown the collection. The collected FileIDs \<open>ids\<close> are any; other requests may do
  anything but touch the path of the upload, and no clock falls behind the safety window.
\<close>

definition shown :: "call_error + NodeFile list \<Rightarrow> NodeFile list" where
  "shown x = (case x of Inl e \<Rightarrow> [] | Inr nfs \<Rightarrow> nfs)"

inductive race :: "string \<Rightarrow> byte list \<Rightarrow> time \<Rightarrow> cluster \<Rightarrow> cluster \<Rightarrow> string set \<Rightarrow> (string \<times> NodeFile) set \<Rightarrow> bool"
  for p content gcStart cl0 where
  start: "race p content gcStart cl0 cl0 {} {}"
| store: "race p content gcStart cl0 cl stored listed \<Longrightarrow> RemotePath r = p \<Longrightarrow> storeReplica content r cl = (cl', x) \<Longrightarrow>
    race p content gcStart cl0 cl' (case x of Inl e \<Rightarrow> stored | Inr b \<Rightarrow> insert (Addr r) stored) listed"
| gc_list: "race p content gcStart cl0 cl stored listed \<Longrightarrow> call_node a ListAllPaths cl = (cl', x) \<Longrightarrow>
    race p content gcStart cl0 cl' stored (listed \<union> Pair a ` set (shown x))"
| gc_delete: "race p content gcStart cl0 cl stored listed \<Longrightarrow> (a, nf) \<in> listed \<Longrightarrow>
    removable ids (gcStart - gcSafetyWindow) nf \<Longrightarrow>
    race p content gcStart cl0 (fst (call_node a (\<lambda>dn. DeleteData dn (nf_Path nf)) cl)) stored listed"
| network: "race p content gcStart cl0 cl stored listed \<Longrightarrow> cl_nodes cl' = cl_nodes cl \<Longrightarrow>
    race p content gcStart cl0 cl' stored listed"
| other: "race p content gcStart cl0 cl stored listed \<Longrightarrow>
    (\<And>a dn os'. cl_nodes cl' a = Some (dn, os') \<Longrightarrow> \<exists>os. cl_nodes cl a = Some (dn, os) \<and> serving dn os os' \<and>
       node (os_files os') (target dn p) = node (os_files os) (target dn p) \<and> gcStart - gcSafetyWindow < os_now os') \<Longrightarrow>
    race p content gcStart cl0 cl' stored listed"

text \<open>The code runs in these steps: the stores of an upload, and the collection of one node.\<close>

lemma each_store_races:
  "race p content gcStart cl0 cl stored listed \<Longrightarrow> \<forall>r \<in> set rs. RemotePath r = p \<Longrightarrow>
   each_replica (storeReplica content) rs cl = (cl', errs) \<Longrightarrow>
   \<exists>stored'. race p content gcStart cl0 cl' stored' listed \<and> stored \<subseteq> stored' \<and>
     (\<forall>i < length rs. errs ! i = None \<longrightarrow> Addr (rs ! i) \<in> stored')"
proof (induction rs arbitrary: cl stored errs)
  case (Cons r rs)
  obtain cl1 x es where 1: "storeReplica content r cl = (cl1, x)" "each_replica (storeReplica content) rs cl1 = (cl', es)"
    "errs = (case x of Inl e \<Rightarrow> Some e | Inr y \<Rightarrow> None) # es"
    using Cons.prems(3) by (auto split: prod.splits)
  let ?s = "case x of Inl e \<Rightarrow> stored | Inr b \<Rightarrow> insert (Addr r) stored"
  have "race p content gcStart cl0 cl1 ?s listed" using race.store [OF Cons.prems(1) _ 1(1)] Cons.prems(2) by simp
  from Cons.IH [OF this _ 1(2)] Cons.prems(2) obtain stored' where s: "race p content gcStart cl0 cl' stored' listed"
    "?s \<subseteq> stored'" "\<forall>i < length rs. es ! i = None \<longrightarrow> Addr (rs ! i) \<in> stored'" by auto
  have "Addr ((r # rs) ! i) \<in> stored'" if "i < length (r # rs)" "errs ! i = None" for i
    using that s(2,3) 1(3) by (cases i) (auto split: sum.splits)
  then show ?case using s(1,2) by (intro exI [of _ stored']) (auto split: sum.splits)
qed auto

lemma gc_loop_races:
  "race p content gcStart cl0 cl stored listed \<Longrightarrow> Pair a ` set nfs \<subseteq> listed \<Longrightarrow>
   race p content gcStart cl0 (gc_loop a ids (gcStart - gcSafetyWindow) nfs cl) stored listed"
proof (induction nfs arbitrary: cl)
  case (Cons nf nfs)
  then show ?case using race.gc_delete [OF Cons.prems(1), of a nf ids] by simp
qed simp

text \<open>A cluster whose clocks and time stamps keep the upload safe.\<close>

definition safe_file :: "string \<Rightarrow> byte list \<Rightarrow> time \<Rightarrow> node \<Rightarrow> bool" where
  "safe_file p content cutoff n \<longleftrightarrow> st_ok n \<and> cutoff < os_now (snd n) \<and>
     (\<forall>i. node (os_files (snd n)) (target (fst n) p) = Some i \<longrightarrow> (\<exists>t. i = FileNode content t \<and> cutoff < t))"

definition race_inv :: "string \<Rightarrow> byte list \<Rightarrow> time \<Rightarrow> cluster \<Rightarrow> string set \<Rightarrow> (string \<times> NodeFile) set \<Rightarrow> bool" where
  "race_inv p content cutoff cl stored listed \<longleftrightarrow> (\<forall>a n. cl_nodes cl a = Some n \<longrightarrow> safe_file p content cutoff n \<and>
     (a \<in> stored \<longrightarrow> st_blob n p = Some content) \<and>
     (\<forall>nf. (a, nf) \<in> listed \<longrightarrow> target (fst n) (nf_Path nf) = target (fst n) p \<longrightarrow> cutoff < nf_ModTime nf))"

lemma race_inv_upd:
  assumes "race_inv p c cutoff cl stored listed" "cl_nodes cl' = (cl_nodes cl)(a := v)"
    and "stored' \<subseteq> insert a stored" "listed' \<subseteq> listed \<union> Pair a ` new"
    and "\<And>n. v = Some n \<Longrightarrow> safe_file p c cutoff n \<and> (a \<in> stored' \<longrightarrow> st_blob n p = Some c) \<and>
      (\<forall>nf. (a, nf) \<in> listed' \<longrightarrow> target (fst n) (nf_Path nf) = target (fst n) p \<longrightarrow> cutoff < nf_ModTime nf)"
  shows "race_inv p c cutoff cl' stored' listed'"
  unfolding race_inv_def
proof (intro allI impI)
  fix b n assume b: "cl_nodes cl' b = Some n"
  show "safe_file p c cutoff n \<and> (b \<in> stored' \<longrightarrow> st_blob n p = Some c) \<and>
      (\<forall>nf. (b, nf) \<in> listed' \<longrightarrow> target (fst n) (nf_Path nf) = target (fst n) p \<longrightarrow> cutoff < nf_ModTime nf)"
  proof (cases "b = a")
    case True
    then show ?thesis using assms(2,5) b by simp
  next
    case False
    then have "cl_nodes cl b = Some n" using assms(2) b by simp
    then have "safe_file p c cutoff n \<and> (b \<in> stored \<longrightarrow> st_blob n p = Some c) \<and>
        (\<forall>nf. (b, nf) \<in> listed \<longrightarrow> target (fst n) (nf_Path nf) = target (fst n) p \<longrightarrow> cutoff < nf_ModTime nf)"
      using assms(1) unfolding race_inv_def by blast
    then show ?thesis using assms(3,4) False by blast
  qed
qed

lemma race_inv_cong: "cl_nodes cl' = cl_nodes cl \<Longrightarrow> race_inv p c cutoff cl' = race_inv p c cutoff cl"
  by (intro ext) (simp add: race_inv_def)

lemma safe_file_step:
  assumes "safe_file p c cutoff (dn, os)" "serving dn os os'" "cutoff < os_now os'"
    and "node (os_files os') (target dn p) = node (os_files os) (target dn p) \<or>
      (\<exists>t. node (os_files os') (target dn p) = Some (FileNode c t) \<and> cutoff < t)"
  shows "safe_file p c cutoff (dn, os')"
  using assms serving_ok [of dn os os'] by (auto simp: safe_file_def)

lemma store_keeps_race:
  assumes inv: "race_inv p c cutoff cl stored listed" and r: "RemotePath r = p" and run: "storeReplica c r cl = (cl', x)"
  shows "race_inv p c cutoff cl' (case x of Inl e \<Rightarrow> stored | Inr b \<Rightarrow> insert (Addr r) stored) listed"
  using run unfolding storeReplica_def
proof (cases rule: on_replica_cases)
  case lost
  then show ?thesis using inv by (cases x) (auto simp: race_inv_def)
next
  case panic
  then show ?thesis by (cases x) (auto intro: race_inv_upd [OF inv panic(1), where new = "{}"])
next
  case (ran n n' r')
  obtain dn os where n: "n = (dn, os)" by fastforce
  let ?args = "\<lparr>st_Path = RemotePath r, st_Content = c\<rparr>"
  obtain os' where run': "StoreData dn ?args os = (os', r')" "n' = (dn, os')"
    using ran(2) n by (auto simp: on_node_def split: prod.splits)
  have safe: "safe_file p c cutoff (dn, os)"
    and old: "Addr r \<in> stored \<Longrightarrow> st_blob (dn, os) p = Some c"
    and l: "\<And>nf. (Addr r, nf) \<in> listed \<Longrightarrow> target dn (nf_Path nf) = target dn p \<Longrightarrow> cutoff < nf_ModTime nf"
    using inv ran(1) n unfolding race_inv_def by auto
  have ok: "dn_ok dn" "os_ok os" using safe st_ok_dn [of "(dn, os)"] by (simp_all add: safe_file_def)
  have now: "os_now os' = os_now os" using methods_clock(1) [of dn ?args os] run'(1) by simp
  note stamp = StoreData_stamp [OF ok run'(1)]
  have "serving dn os os'" using serving.store [OF serving.start, of dn os ?args] run'(1) by simp
  then have s: "safe_file p c cutoff (dn, os')"
    using safe_file_step [OF safe] stamp now safe r by (auto simp: safe_file_def)
  have b: "st_blob (dn, os') p = Some c" if "Addr r \<in> (case x of Inl e \<Rightarrow> stored | Inr b \<Rightarrow> insert (Addr r) stored)"
    using stamp that old ran(4) r by (auto simp: st_blob_def file_at_def split: sum.splits)
  show ?thesis
    by (rule race_inv_upd [OF inv ran(3), where new = "{}"]) (use s b l run'(2) in \<open>auto split: sum.splits\<close>)
qed

lemma list_keeps_race:
  assumes inv: "race_inv p c cutoff cl stored listed" and p: "virtual p \<noteq> []"
    and run: "call_node a ListAllPaths cl = (cl', x)"
  shows "race_inv p c cutoff cl' stored (listed \<union> Pair a ` set (shown x))"
proof (cases "cl_nodes cl a")
  case None
  then show ?thesis using call_node_None [OF run] inv by (cases x) (auto simp: race_inv_def shown_def)
next
  case (Some n)
  obtain dn os where n: "n = (dn, os)" by fastforce
  obtain os' r where l: "ListAllPaths dn os = (os', r)" by fastforce
  have inv_a: "safe_file p c cutoff (dn, os)" "a \<in> stored \<Longrightarrow> st_blob (dn, os) p = Some c"
    "\<And>nf. (a, nf) \<in> listed \<Longrightarrow> target dn (nf_Path nf) = target dn p \<Longrightarrow> cutoff < nf_ModTime nf"
    using inv Some n unfolding race_inv_def by auto
  have f: "os_files os' = os_files os" "os_now os' = os_now os"
    using reads_keep_files(2) [of dn os] methods_clock(3) [of dn os] l by simp_all
  have ok: "node_ok dn os" using inv_a(1) by (simp add: safe_file_def st_ok_def)
  have same: "(cl_nodes cl)(a \<mapsto> (dn, os)) = cl_nodes cl" using Some n by (simp add: fun_upd_idem)
  from call_node_effect [OF run Some [unfolded n]] no_panic(2) l same
  obtain os1 where cl': "cl_nodes cl' = (cl_nodes cl)(a \<mapsto> (dn, os1))" "os1 = os \<or> os1 = os'" "\<And>nfs. x = Inr nfs \<Longrightarrow> r = Inr nfs"
    by (metis fst_conv snd_conv)
  have new: "cutoff < nf_ModTime nf" if m: "nf \<in> set (shown x)" "target dn (nf_Path nf) = target dn p" for nf
  proof -
    obtain nfs where "x = Inr nfs" "nf \<in> set nfs" using m(1) by (cases x) (auto simp: shown_def)
    then show ?thesis using listed_stamp [OF ok _ _ m(2) p] l cl'(3) inv_a(1) by (auto simp: safe_file_def)
  qed
  have "safe_file p c cutoff (dn, os1)" "st_blob (dn, os1) p = st_blob (dn, os) p"
    using inv_a(1) f cl'(2) by (auto simp: safe_file_def st_ok_def node_ok_def st_blob_def)
  then show ?thesis
    by (intro race_inv_upd [OF inv cl'(1), where new = "set (shown x)"]) (use inv_a new in auto)
qed

lemma delete_keeps_race:
  assumes inv: "race_inv p c cutoff cl stored listed" and nf: "(a, nf) \<in> listed" "removable ids cutoff nf"
  shows "race_inv p c cutoff (fst (call_node a (\<lambda>dn. DeleteData dn (nf_Path nf)) cl)) stored listed"
proof -
  let ?f = "\<lambda>dn. DeleteData dn (nf_Path nf)"
  obtain cl' r where run: "call_node a ?f cl = (cl', r)" by fastforce
  show ?thesis
  proof (cases "cl_nodes cl a")
    case None
    then show ?thesis using call_node_None [OF run] inv run by (simp add: race_inv_def)
  next
    case (Some n)
    obtain dn os where n: "n = (dn, os)" by fastforce
    let ?os = "fst (DeleteData dn (nf_Path nf) os)"
    have inv_a: "safe_file p c cutoff (dn, os)" "a \<in> stored \<Longrightarrow> st_blob (dn, os) p = Some c"
      "\<And>nf. (a, nf) \<in> listed \<Longrightarrow> target dn (nf_Path nf) = target dn p \<Longrightarrow> cutoff < nf_ModTime nf"
      using inv Some n unfolding race_inv_def by auto
    have dn: "dn_ok dn" using inv_a(1) st_ok_dn [of "(dn, os)"] by (simp add: safe_file_def)
    have "target dn (nf_Path nf) \<noteq> target dn p"
      using inv_a(3) [OF nf(1)] nf(2) by (auto simp: removable_def Let_def split: if_splits)
    then have same: "node (os_files ?os) (target dn p) = node (os_files os) (target dn p)" by (rule DeleteData_other [OF dn])
    have "serving dn os ?os" by (rule serving.delete [OF serving.start])
    then have s: "safe_file p c cutoff (dn, ?os)"
      using safe_file_step [OF inv_a(1)] same inv_a(1) by (simp add: safe_file_def)
    have b: "st_blob (dn, ?os) p = st_blob (dn, os) p" using same by (simp add: st_blob_def file_at_def)
    from call_node_effect [OF run Some [unfolded n]] no_panic(1)
    consider "cl_nodes cl' = cl_nodes cl" | "cl_nodes cl' = (cl_nodes cl)(a \<mapsto> (dn, ?os))" by blast
    then have "race_inv p c cutoff cl' stored listed"
    proof cases
      case 1
      then show ?thesis using inv by (simp add: race_inv_def)
    next
      case 2
      then show ?thesis by (rule race_inv_upd [OF inv, where new = "{}"]) (use s b inv_a in auto)
    qed
    then show ?thesis using run by simp
  qed
qed

lemma race_keeps:
  "race p content gcStart cl0 cl stored listed \<Longrightarrow> virtual p \<noteq> [] \<Longrightarrow>
   race_inv p content (gcStart - gcSafetyWindow) cl0 {} {} \<Longrightarrow> race_inv p content (gcStart - gcSafetyWindow) cl stored listed"
proof (induction rule: race.induct)
  case (other cl stored listed cl')
  then have inv: "race_inv p content (gcStart - gcSafetyWindow) cl stored listed" by blast
  show ?case unfolding race_inv_def
  proof (intro allI impI)
    fix a and n :: node assume a: "cl_nodes cl' a = Some n"
    obtain dn os' where n: "n = (dn, os')" by fastforce
    obtain os where o: "cl_nodes cl a = Some (dn, os)" "serving dn os os'"
      "node (os_files os') (target dn p) = node (os_files os) (target dn p)" "gcStart - gcSafetyWindow < os_now os'"
      using other(2) a n by blast
    have s: "safe_file p content (gcStart - gcSafetyWindow) (dn, os)" "a \<in> stored \<longrightarrow> st_blob (dn, os) p = Some content"
      "\<forall>nf. (a, nf) \<in> listed \<longrightarrow> target dn (nf_Path nf) = target dn p \<longrightarrow> gcStart - gcSafetyWindow < nf_ModTime nf"
      using inv o(1) unfolding race_inv_def by (metis fst_conv)+
    have "safe_file p content (gcStart - gcSafetyWindow) (dn, os')" using safe_file_step [OF s(1) o(2,4)] o(3) by simp
    moreover have "st_blob (dn, os') p = st_blob (dn, os) p" using o(3) by (simp add: st_blob_def file_at_def)
    ultimately show "safe_file p content (gcStart - gcSafetyWindow) n \<and> (a \<in> stored \<longrightarrow> st_blob n p = Some content) \<and>
      (\<forall>nf. (a, nf) \<in> listed \<longrightarrow> target (fst n) (nf_Path nf) = target (fst n) p \<longrightarrow> gcStart - gcSafetyWindow < nf_ModTime nf)"
      using s(2,3) n by simp
  qed
next
  case (network cl stored listed cl')
  then show ?case using race_inv_cong [OF network(2)] by metis
next
  case (store cl stored listed r cl' x)
  then show ?case using store_keeps_race by blast
next
  case (gc_list cl stored listed a cl' x)
  then show ?case using list_keeps_race by blast
next
  case (gc_delete cl stored listed a nf ids)
  then show ?case using delete_keeps_race by blast
qed

lemma collect_races:
  assumes "race p content gcStart cl0 cl stored listed"
  shows "\<exists>listed'. race p content gcStart cl0 (garbageCollectNode a ids gcStart cl) stored listed'"
proof -
  obtain cl1 d where 1: "dial_node a cl = (cl1, d)" by fastforce
  have r1: "race p content gcStart cl0 cl1 stored listed" by (rule race.network [OF assms dial_node_nodes [OF 1]])
  obtain cl2 x where 2: "call_node a ListAllPaths cl1 = (cl2, x)" by fastforce
  note r2 = race.gc_list [OF r1 2]
  show ?thesis
  proof (cases "d = None \<and> (\<exists>nfs. x = Inr nfs)")
    case True
    then obtain nfs where x: "x = Inr nfs" by blast
    have "race p content gcStart cl0 (gc_loop a ids (gcStart - gcSafetyWindow) nfs cl2) stored (listed \<union> Pair a ` set (shown x))"
      using gc_loop_races [OF r2, of a nfs ids] x by (simp add: shown_def)
    then show ?thesis using 1 2 True x by (auto simp: garbageCollectNode_def)
  next
    case False
    then have "garbageCollectNode a ids gcStart cl = (if d = None then cl2 else cl1)"
      using 1 2 by (auto simp: garbageCollectNode_def split: option.split sum.split)
    then show ?thesis using r1 r2 by (cases "d = None") auto
  qed
qed

subsection \<open>The property\<close>

text \<open>C7. A cycle cannot destroy an upload that runs beside it: whatever FileIDs the cycle has collected,
  and however its listings and deletions, the stores of the upload and other requests interleave,
  a data node that has acknowledged a store still holds the content, if no file was at the path
  before and no data node's clock is thirty seconds or more behind the start of the cycle.\<close>

theorem gc_spares_running_upload:
  assumes "race p content gcStart cl0 cl stored listed" "virtual p \<noteq> []"
    and "\<And>a dn os. cl_nodes cl0 a = Some (dn, os) \<Longrightarrow>
      st_ok (dn, os) \<and> gcStart - gcSafetyWindow < os_now os \<and> node (os_files os) (target dn p) = None"
    and "a \<in> stored" "cl_nodes cl a = Some n"
  shows "st_blob n p = Some content"
proof -
  have "race_inv p content (gcStart - gcSafetyWindow) cl0 {} {}"
    using assms(3) by (auto simp: race_inv_def safe_file_def)
  from race_keeps [OF assms(1,2) this] assms(4,5) show ?thesis unfolding race_inv_def by blast
qed

text \<open>A store on the sample cluster and a cycle that started before it.\<close>

definition racing :: Replica where
  "racing = \<lparr>Addr = ''n1'', RemotePath = ''/data/0102''\<rparr>"

definition raced_cluster :: cluster where
  "raced_cluster = garbageCollectNode ''n1'' [] 10 (fst (storeReplica [7, 8] racing sample_cluster))"

lemma racing_runs: "map_sum id (\<lambda>x. ()) (snd (storeReplica [7, 8] racing sample_cluster)) = Inr ()"
  "map_option fst (cl_nodes raced_cluster ''n1'') = Some sample_dn"
  "os_now two_os = 7" "node (os_files two_os) (target sample_dn ''/data/0102'') = None" "virtual ''/data/0102'' \<noteq> []"
  by code_simp+

theorem gc_spares_running_upload_witness:
  "\<exists>n. cl_nodes raced_cluster ''n1'' = Some n \<and> st_blob n ''/data/0102'' = Some [7, 8]"
proof -
  obtain cl1 b where 1: "storeReplica [7, 8] racing sample_cluster = (cl1, Inr b)"
    using racing_runs(1) by (cases "storeReplica [7, 8] racing sample_cluster"; cases "snd (storeReplica [7, 8] racing sample_cluster)") auto
  have "race ''/data/0102'' [7, 8] 10 sample_cluster cl1 {''n1''} {}"
    using race.store [OF race.start _ 1, of "''/data/0102''" 10] by (simp add: racing_def)
  from collect_races [OF this, of "''n1''" "[]"] 1 obtain l where
    r: "race ''/data/0102'' [7, 8] 10 sample_cluster raced_cluster {''n1''} l" by (auto simp: raced_cluster_def)
  have c: "st_ok (dn, os) \<and> 10 - gcSafetyWindow < os_now os \<and> node (os_files os) (target dn ''/data/0102'') = None"
    if "cl_nodes sample_cluster a = Some (dn, os)" for a dn os
    using that two_os_ready racing_runs(3,4)
    by (auto simp: sample_cluster_def st_ok_def node_ready_def gcSafetyWindow_def split: if_splits)
  obtain n where n: "cl_nodes raced_cluster ''n1'' = Some n" using racing_runs(2) by auto
  show ?thesis using gc_spares_running_upload [OF r racing_runs(5) c insertI1 n] n by simp
qed

text \<open>With a clock behind by more than that, the upload is lost: the data node's clock shows 7, and the
  cycle started at 100 seconds, before the file was created.\<close>

lemma slow_clock_loses_upload:
  "snd (PutFile client1 ''/a'' ''/d/g'' [] single_world) = Inr ()"
  "map_option (\<lambda>n. st_blob n ''/data/0102'')
     (cl_nodes (garbageCollectNode ''n1'' [''i1''] (10 ^ 11) (w_cluster (fst (PutFile client1 ''/a'' ''/d/g'' [] single_world)))) ''n1'') =
   Some None"
  by code_simp+

end
