(* ===== verification/Failed_Uploads.thy ===== *)
theory Failed_Uploads
  imports File_Transfer
begin

section \<open>Uploads that fail\<close>

text \<open>
  When no replica can be stored, \<open>PutFile\<close> (\<open>client.go\<close>) deletes the path it has just created. An
  overwrite creates nothing: \<open>applyCreateFile\<close> replaces the entry of the old file, and the deletion
  then removes the path.
\<close>

subsection \<open>The commands\<close>

lemma file_parent:
  assumes "mds_inv mds" "mds_view mds ps = Some e" "\<not> isDir e"
  shows "ps \<noteq> [] \<and> dir_at (mds_view mds) (butlast ps)"
proof -
  have ok: "mds_ok mds" using assms(1) by (simp add: mds_inv_def)
  have "dir_at (mds_view mds) []" using heap_ok_root [OF ok] by (simp add: dir_at_view)
  then have "ps \<noteq> []" using assms(2,3) by (auto simp: dir_at_def)
  then show ?thesis using dir_at_parent [OF ok, of "butlast ps" "last ps"] assms(2) by simp
qed

text \<open>An overwrite of an existing file is accepted.\<close>

lemma CreateFile_overwrites:
  assumes inv: "mds_inv mds" and old: "mds_view mds (splitPath (cf_Path args)) = Some e" "\<not> isDir e"
    and mode: "cf_CreateMode args = OverwriteIfExists" and nodes: "dataNodes mds \<noteq> []"
    and utf8: "utf8_ok (cf_Path args)" "list_all utf8_ok (dataNodes mds)"
  shows "\<exists>mds' reps. CreateFile (local_node t) (Inr buf) args mds = (mds', Inr \<lparr>cr_Replicas = reps\<rparr>) \<and>
    list_all replica_utf8 reps \<and> set (map Addr reps) \<subseteq> set (dataNodes mds)"
proof -
  let ?ps = "splitPath (cf_Path args)" and ?fid = "EncodeToString buf"
  have ok: "mds_ok mds" using inv by (simp add: mds_inv_def)
  note par = file_parent [OF inv old]
  obtain cur where cur: "find_dir (mds_heap mds) (mds_root mds) (butlast ?ps) = Some cur"
    using find_dir_view [OF ok, of "butlast ?ps"] par by (auto split: option.splits)
  have "distinct (dataNodes mds)" using inv by (simp add: mds_inv_def)
  from select_ok [OF this nodes, of "cf_Path args" ?fid "replicaCount mds"]
  obtain reps where reps: "selectDataNodes (cf_Path args) ?fid (replicaCount mds) mds = Some reps" "reps \<noteq> []"
    "set (map Addr reps) \<subseteq> set (dataNodes mds)" "\<forall>r \<in> set reps. RemotePath r = ''/data/'' @ ?fid" by force
  let ?p = "created_payload args buf reps"
  have sub: "CreateFile (local_node t) (Inr buf) args mds = submit_reply (local_node t) ?p \<lparr>cr_Replicas = reps\<rparr> mds"
    using par nodes cur reps(1)
    by (simp add: CreateFile_def checkLeader_def local_node_def generateFileID_def created_payload_def Let_def)
  have rep8: "list_all replica_utf8 reps"
    using utf8(2) utf8_ok_hex(2) reps(3,4) by (fastforce simp: list_all_iff replica_utf8_def)
  then have u: "payload_utf8 ?p"
    using rep8 utf8(1) utf8_ok_hex(1) utf8_ok_op by (simp add: payload_utf8_def created_payload_def empty_payload_def)
  obtain mds' err where run: "applyCreateFile t ?p mds = (mds', err)" by fastforce
  have "(mds_view mds', err) = spec_create t ?p (mds_view mds)" using applyCreateFile_refines [OF ok run] by simp
  then have "err = None" using old mode par by (simp add: spec_create_def created_payload_def Let_def)
  then have "apply_payload t OpCreateFile ?p mds = (mds', None)" using run by (simp add: apply_payload_def op_defs)
  then show ?thesis using sub local_submit [OF u, of t "\<lparr>cr_Replicas = reps\<rparr>" mds] rep8 reps(3) by auto
qed

text \<open>A deletion of a file is accepted and removes the path.\<close>

lemma Delete_local:
  assumes inv: "mds_inv mds" and old: "mds_view mds (splitPath path) = Some e" "\<not> isDir e" and utf8: "utf8_ok path"
    "list_all replica_utf8 (replicas e)"
  shows "\<exists>mds'. Delete (local_node t) path mds = (mds', Inr \<lparr>dr_Replicas = replicas e, dr_IsDir = False\<rparr>) \<and>
    mds_inv mds' \<and> mds_view mds' (splitPath path) = None"
proof -
  obtain e0 where e0: "lookup_entry mds path = Some e0" "attrs e0 = e"
    using lookup_entry_view [OF inv, of path] old(1) by (cases "lookup_entry mds path") auto
  then have eq: "isDir e0 = False" "replicas e0 = replicas e" using old(2) by auto
  let ?p = "empty_payload\<lparr>p_Op := OpDelete, p_Path := path, p_IsDir := False, p_Replicas := replicas e\<rparr>"
  have "utf8_ok OpDelete" unfolding OpDelete_def by code_simp
  then have u: "payload_utf8 ?p" using utf8 by (simp add: payload_utf8_def empty_payload_def)
  obtain mds' err where run: "applyDelete t ?p mds = (mds', err)" by fastforce
  have ok: "mds_ok mds" using inv by (simp add: mds_inv_def)
  have "(mds_view mds', err) = spec_delete t ?p (mds_view mds)" using applyDelete_refines [OF ok run] by simp
  moreover have "splitPath path \<noteq> []" using file_parent [OF inv old] by simp
  ultimately have v: "err = None" "mds_view mds' (splitPath path) = None"
    using old(1) append_not_butlast [of "splitPath path" "[]"]
    by (auto simp: spec_delete_def touch_apply prune_def Let_def split: option.splits)
  have ap: "apply_payload t OpDelete ?p mds = (mds', None)" using run v(1) by (simp add: apply_payload_def op_defs)
  then have "mds_inv mds'" using apply_payload_inv [OF inv, of t OpDelete ?p] by simp
  moreover have "Delete (local_node t) path mds = (mds', Inr \<lparr>dr_Replicas = replicas e, dr_IsDir = False\<rparr>)"
    using local_submit [OF u, of t "\<lparr>dr_Replicas = replicas e, dr_IsDir = False\<rparr>" mds] ap e0(1) eq
    by (simp add: Delete_def checkLeader_def local_node_def)
  ultimately show ?thesis using v(2) by blast
qed

subsection \<open>No data node\<close>

lemma on_replica_down: "cl_nodes cl a = None \<Longrightarrow> \<exists>cl' e. on_replica a ctx f cl = (cl', Inl e) \<and> cl_nodes cl' = cl_nodes cl"
  by (cases "dial_node a cl") (auto simp: on_replica_def dialDataNode_def dial_node_def Let_def split: prod.splits)

lemma each_store_down:
  assumes "\<forall>r \<in> set rs. cl_nodes cl (Addr r) = None"
  shows "successCount (snd (each_replica (storeReplica content) rs cl)) = 0 \<and>
    (rs \<noteq> [] \<longrightarrow> firstErr (snd (each_replica (storeReplica content) rs cl)) \<noteq> None)"
  using assms
proof (induction rs arbitrary: cl)
  case (Cons r rs)
  obtain cl1 e where 1: "storeReplica content r cl = (cl1, Inl e)" "cl_nodes cl1 = cl_nodes cl"
    using on_replica_down [of cl "Addr r"] Cons.prems unfolding storeReplica_def by (metis list.set_intros(1))
  obtain cl2 es where 2: "each_replica (storeReplica content) rs cl1 = (cl2, es)" by fastforce
  have "successCount es = 0" using Cons.IH [of cl1] Cons.prems 1(2) 2 by simp
  then show ?case using 1(1) 2 by (simp add: successCount_def firstErr_def)
qed (simp add: successCount_def)

subsection \<open>The property\<close>

lemma redirect_method:
  assumes "mds_reaches w a" "w_mds w a = Some (rf, mds)" "m rf mds w = (w', mds', Inr reply)"
  shows "redirect_loop 3 method m a w = (w'\<lparr>w_mds := (w_mds w')(a \<mapsto> (rf, mds'))\<rparr>, Inr reply)"
  using call_mds_working [where m = m, OF assms] dial_mds_working [OF assms(1)] by (simp add: numeral_3_eq_3)

text \<open>A deletion by the client takes the path away, whatever the data nodes answer.\<close>

lemma client_Delete_local:
  assumes "sole_server (c_mdsAddr c) (local_node t) mds w" "mds_inv mds"
    and "mds_view mds (splitPath path) = Some e" "\<not> isDir e" "utf8_ok path" "list_all replica_utf8 (replicas e)"
  shows "\<exists>w1 mds1. client_Delete c path w = (w1, Inr ()) \<and> sole_server (c_mdsAddr c) (local_node t) mds1 w1 \<and>
    mds_inv mds1 \<and> mds_view mds1 (splitPath path) = None"
proof -
  let ?a = "c_mdsAddr c" and ?reply = "\<lparr>dr_Replicas = replicas e, dr_IsDir = False\<rparr>"
  obtain mds1 where d: "Delete (local_node t) path mds = (mds1, Inr ?reply)" "mds_inv mds1" "mds_view mds1 (splitPath path) = None"
    using Delete_local [OF assms(2-6)] by blast
  let ?w = "w\<lparr>w_mds := (w_mds w)(?a \<mapsto> (local_node t, mds1))\<rparr>"
  have "mds_reaches w ?a" "w_mds w ?a = Some (local_node t, mds)" using assms(1) by (simp_all add: sole_server_def)
  note call = redirect_direct [where f = "\<lambda>rf. Delete rf path", OF this d(1), of "''MetadataService.Delete''"]
  obtain cl errs where each: "each_replica deleteReplica (replicas e) (w_cluster ?w) = (cl, errs)" by fastforce
  have "client_Delete c path w = (if replicas e = [] then ?w else ?w\<lparr>w_cluster := cl\<rparr>, Inr ())"
    using call each by (simp add: client_Delete_def callMDSWithRedirect_def on_cluster_def)
  moreover have "sole_server ?a (local_node t) mds1 (if replicas e = [] then ?w else ?w\<lparr>w_cluster := cl\<rparr>)"
    using assms(1) by (simp add: sole_server_def mds_reaches_def)
  ultimately show ?thesis using d(2,3) by blast
qed

text \<open>C14. A failed overwrite loses the file: when a file exists and none of the registered data nodes
  is up, an upload that overwrites it reports an error, and afterwards the path does not exist.\<close>

theorem failed_overwrite_deletes_file:
  assumes server: "sole_server (c_mdsAddr c) (local_node t) mds w" "mds_inv mds"
    and old: "mds_view mds (splitPath remote) = Some e" "\<not> isDir e"
    and down: "dataNodes mds \<noteq> []" "\<forall>a \<in> set (dataNodes mds). cl_nodes (w_cluster w) a = None"
    and utf8: "utf8_ok remote" "list_all utf8_ok (dataNodes mds)"
    and rnd: "w_rand w = Inr buf # rnd" and src: "os_ReadFile src (w_local w) = (os, Inr content)"
  shows "\<exists>w1 err. PutFile c src remote [OverwriteIfExists] w = (w1, Inl err) \<and>
    client_Stat c remote w1 = (w1, Inl (''stat failed: path not found: '' @ remote))"
proof -
  let ?a = "c_mdsAddr c" and ?w = "w\<lparr>w_local := os\<rparr>"
  let ?args = "\<lparr>cf_Path = remote, cf_Size = word_of_nat (length content), cf_CreateMode = OverwriteIfExists\<rparr>"
  obtain mds0 reps where cf: "CreateFile (local_node t) (Inr buf) ?args mds = (mds0, Inr \<lparr>cr_Replicas = reps\<rparr>)"
    "list_all replica_utf8 reps" "set (map Addr reps) \<subseteq> set (dataNodes mds)"
    using CreateFile_overwrites [OF server(2), of ?args e t buf] old down(1) utf8 by auto
  obtain e0 where mds0: "mds_inv mds0" "mds_view mds0 (splitPath remote) = Some e0" "\<not> isDir e0" "replicas e0 = reps"
    using CreateFile_local [OF server(2) cf(1)] utf8 by auto
  have reach: "mds_reaches ?w ?a" "w_mds ?w ?a = Some (local_node t, mds)"
    using server(1) by (simp_all add: sole_server_def mds_reaches_def)
  let ?v = "?w\<lparr>w_rand := rnd, w_mds := (w_mds w)(?a \<mapsto> (local_node t, mds0))\<rparr>"
  have "create_method ?args (local_node t) mds ?w = (?w\<lparr>w_rand := rnd\<rparr>, mds0, Inr \<lparr>cr_Replicas = reps\<rparr>)"
    using rnd cf(1) by (simp add: create_method_def draw_rand_def)
  then have create: "redirect_loop 3 ''MetadataService.CreateFile'' (create_method ?args) ?a ?w = (?v, Inr \<lparr>cr_Replicas = reps\<rparr>)"
    using redirect_method [where m = "create_method ?args", OF reach] by simp
  obtain cl errs where each: "each_replica (storeReplica content) reps (w_cluster w) = (cl, errs)" by fastforce
  have "\<forall>r \<in> set reps. cl_nodes (w_cluster w) (Addr r) = None" using cf(3) down(2) by auto
  then have none: "successCount errs = 0" using each_store_down [of reps "w_cluster w" content] each by simp
  let ?u = "?v\<lparr>w_cluster := cl\<rparr>"
  have "sole_server ?a (local_node t) mds0 ?u" using server(1) by (simp add: sole_server_def mds_reaches_def)
  from client_Delete_local [OF this mds0(1,2,3) utf8(1)] mds0(4) cf(2)
  obtain w1 mds1 where del: "client_Delete c remote ?u = (w1, Inr ())" "sole_server ?a (local_node t) mds1 w1"
    "mds_inv mds1" "mds_view mds1 (splitPath remote) = None" by auto
  have put: "\<exists>err. PutFile c src remote [OverwriteIfExists] w = (w1, Inl err)"
    using src create each none del(1) by (simp add: PutFile_def Let_def callMDSWithRedirect_def on_cluster_def)
  have "lookup_entry mds1 remote = None"
    using lookup_entry_view [OF del(3), of remote] del(4) by (cases "lookup_entry mds1 remote") auto
  then have "Stat mds1 remote = Inl (ErrPathNotFound remote)" by (simp add: Stat_def)
  then have "client_Stat c remote w1 = (w1, Inl (''stat failed: path not found: '' @ remote))"
    using ask_refused [where f = "\<lambda>mds. Stat mds remote"] del(2) by (simp add: client_Stat_def sole_server_def)
  with put show ?thesis by blast
qed

text \<open>The sample cluster with both data nodes down.\<close>

definition down_world :: world where
  "down_world = single_world\<lparr>w_cluster := \<lparr>cl_nodes = (\<lambda>a. None), cl_net = (\<lambda>a. [])\<rparr>\<rparr>"

theorem failed_overwrite_deletes_file_witness:
  "\<exists>w1 err. PutFile client1 ''/a'' ''/d/f'' [OverwriteIfExists] down_world = (w1, Inl err) \<and>
     client_Stat client1 ''/d/f'' w1 = (w1, Inl ''stat failed: path not found: /d/f'')"
proof -
  have s: "sole_server (c_mdsAddr client1) (local_node 5) sample_nodes down_world"
    using single_sole by (simp add: down_world_def sole_server_def mds_reaches_def)
  have "map_option isDir (mds_view sample_nodes (splitPath ''/d/f'')) = Some False" by code_simp
  then obtain e where e: "mds_view sample_nodes (splitPath ''/d/f'') = Some e" "\<not> isDir e" by auto
  have d: "dataNodes sample_nodes \<noteq> []" "\<forall>a \<in> set (dataNodes sample_nodes). cl_nodes (w_cluster down_world) a = None"
    by (simp_all add: sample_nodes_registry down_world_def)
  have u: "list_all utf8_ok (dataNodes sample_nodes)" unfolding sample_nodes_registry by (rule sample_nodes_utf8(3))
  have r: "w_rand down_world = Inr [1, 2] # [Inr [3, 4]]" by (simp add: down_world_def single_world_def sample_world_def)
  have "snd (os_ReadFile ''/a'' (w_local down_world)) = Inr [7, 8]" by code_simp
  from failed_overwrite_deletes_file [OF s sample_nodes_inv e d sample_nodes_utf8(2) u r run_eq [OF this]]
  show ?thesis by simp
qed

end
