(* ===== verification/Open_Files.thy ===== *)
theory Open_Files
  imports Pending_Files
begin

section \<open>Files created through a handle\<close>

text \<open>
  \<open>Client.Open\<close> (\<open>client.go\<close>) with the metadata server behind it, and the handle's \<open>WriteAt\<close> and
  \<open>ReadAt\<close> (\<open>file_handle.go\<close>) on what it returns: from a path that did not exist to bytes read
  back, on a cluster whose leader applies commands at once.
\<close>

lemma Stat_missing:
  assumes "mds_inv mds" "mds_view mds (splitPath path) = None"
  shows "\<exists>e. Stat mds path = Inl e"
  using lookup_entry_view [OF assms(1), of path] assms(2) by (simp add: Stat_def)

text \<open>Reading the location: the server is asked once, and nothing changes.\<close>

lemma location_direct:
  assumes "sole_server (c_mdsAddr c) rf mds w" "GetFileLocation mds path = Inr loc"
  shows "getFileLocation c path w = (w, Inr loc)"
proof -
  have s: "mds_reaches w (c_mdsAddr c)" "w_mds w (c_mdsAddr c) = Some (rf, mds)" using assms(1) by (simp_all add: sole_server_def)
  have "w\<lparr>w_mds := (w_mds w)(c_mdsAddr c \<mapsto> (rf, mds))\<rparr> = w" using s(2) by (simp add: fun_upd_idem)
  then have "call_mds (c_mdsAddr c) (read_method (\<lambda>mds. GetFileLocation mds path)) w = (w, Inr loc)"
    using call_mds_working [OF s, of "read_method (\<lambda>mds. GetFileLocation mds path)" w mds "Inr loc"] assms(2)
    by (simp add: read_method_def)
  then show ?thesis using dial_mds_working [OF s(1)] by (simp add: getFileLocation_def ask_mds_def dialMDS_def)
qed

text \<open>What a creation that the client sees succeed has done.\<close>

lemma create_result:
  assumes server: "sole_server (c_mdsAddr c) (local_node t) mds w" "mds_inv mds"
    and utf8: "utf8_ok path" "list_all utf8_ok (dataNodes mds)" and rnd: "w_rand w = Inr buf # rnd"
    and run: "callMDSWithRedirect c method (create_method \<lparr>cf_Path = path, cf_Size = sz, cf_CreateMode = m\<rparr>) w = (w1, Inr reply)"
  shows "\<exists>mds1 e. sole_server (c_mdsAddr c) (local_node t) mds1 w1 \<and> mds_inv mds1 \<and>
    mds_view mds1 (splitPath path) = Some e \<and> \<not> isDir e \<and> replicas e = cr_Replicas reply \<and>
    distinct (map Addr (cr_Replicas reply)) \<and> w_cluster w1 = w_cluster w \<and> w_local w1 = w_local w"
proof -
  let ?a = "c_mdsAddr c" and ?args = "\<lparr>cf_Path = path, cf_Size = sz, cf_CreateMode = m\<rparr>"
  have w: "\<And>b. b \<noteq> ?a \<Longrightarrow> w_mds w b = None" "mds_reaches w ?a" "w_mds w ?a = Some (local_node t, mds)"
    using server(1) by (simp_all add: sole_server_def)
  obtain mds1 rc where cf: "CreateFile (local_node t) (Inr buf) ?args mds = (mds1, rc)" by fastforce
  have "create_method ?args (local_node t) mds w = (w\<lparr>w_rand := rnd\<rparr>, mds1, rc)"
    using rnd cf by (simp add: create_method_def draw_rand_def)
  from single_server [where m = "create_method ?args", OF w this _ run [unfolded callMDSWithRedirect_def]]
  have rc: "rc = Inr reply" and w1: "w1 = w\<lparr>w_rand := rnd, w_mds := (w_mds w)(?a \<mapsto> (local_node t, mds1))\<rparr>" by simp_all
  have "sole_server ?a (local_node t) mds1 w1" using w w1 by (simp add: sole_server_def mds_reaches_def)
  then show ?thesis using CreateFile_local [OF server(2) cf [unfolded rc]] utf8 w1 by auto
qed

lemma open_created:
  assumes server: "sole_server (c_mdsAddr c) (local_node t) mds w" "mds_inv mds"
    and utf8: "utf8_ok path" "list_all utf8_ok (dataNodes mds)" and rnd: "w_rand w = Inr buf # rnd"
    and new: "mds_view mds (splitPath path) = None" and run: "client_Open c path flags w = (w1, Inr fh)"
  shows "flags AND O_CREAT \<noteq> 0 \<and> (\<exists>mds1 e. sole_server (c_mdsAddr c) (local_node t) mds1 w1 \<and> mds_inv mds1 \<and>
    mds_view mds1 (splitPath path) = Some e \<and> \<not> isDir e \<and> fh_replicas fh = replicas e) \<and>
    distinct (map Addr (fh_replicas fh)) \<and> w_cluster w1 = w_cluster w \<and> fh_client fh = c \<and> fh_path fh = path \<and>
    fh_size fh = 0 \<and> fh_status fh = ''pending''"
proof -
  obtain err where "Stat mds path = Inl err" using Stat_missing [OF server(2) new] by blast
  then obtain msg where st: "client_Stat c path w = (w, Inl msg)"
    using ask_refused [where f = "\<lambda>mds. Stat mds path"] server(1) by (auto simp: client_Stat_def sole_server_def)
  let ?args = "\<lparr>cf_Path = path, cf_Size = 0, cf_CreateMode = CreateIfNotExist\<rparr>"
  obtain wc reply where create: "flags AND O_CREAT \<noteq> 0"
    "callMDSWithRedirect c ''MetadataService.CreateFile'' (create_method ?args) w = (wc, Inr reply)"
    using run st by (auto simp: client_Open_def open_missing_def split: prod.splits sum.splits if_splits)
  obtain mds1 e where c: "sole_server (c_mdsAddr c) (local_node t) mds1 wc" "mds_inv mds1"
    "mds_view mds1 (splitPath path) = Some e" "\<not> isDir e" "replicas e = cr_Replicas reply"
    "distinct (map Addr (cr_Replicas reply))" "w_cluster wc = w_cluster w"
    using create_result [OF server utf8 rnd create(2)] by blast
  obtain fid where loc: "GetFileLocation mds1 path = Inr \<lparr>fl_FileID = fid, fl_Replicas = replicas e, fl_Status = entry_status e\<rparr>"
    using GetFileLocation_view [OF c(2,3,4)] by blast
  have "w1 = wc" "fh = \<lparr>fh_client = c, fh_path = path, fh_fileID = fid, fh_flags = flags,
      fh_replicas = replicas e, fh_size = 0, fh_status = ''pending''\<rparr>"
    using run st create location_direct [OF c(1) loc] c(5)
    by (auto simp: client_Open_def open_missing_def Let_def split: if_splits)
  then show ?thesis using create(1) c by auto
qed

text \<open>C12. A file created through a handle holds what is written: on a path that did not exist a
  successful \<open>Open\<close> must have been given \<open>O_CREAT\<close> and starts with an empty, pending file; after a
  successful \<open>WriteAt\<close> on the handle, at any offset and under any faults of the data nodes, a
  successful \<open>ReadAt\<close> of the range returns exactly the bytes written.\<close>

theorem created_file_write_read:
  assumes server: "sole_server (c_mdsAddr c) (local_node t) mds w" "mds_inv mds"
    and utf8: "utf8_ok path" "list_all utf8_ok (dataNodes mds)" and rnd: "w_rand w = Inr buf # rnd"
    and new: "mds_view mds (splitPath path) = None" and nodes: "nodes_ok (w_cluster w)" "length bs < 2 ^ 63"
    and runs: "client_Open c path flags w = (w1, Inr fh)" "WriteAt fh bs off w1 = (w2, Inr (fh', n))"
      "cl_nodes (w_cluster w3) = cl_nodes (w_cluster w2)" "ReadAt fh' (length bs) off w3 = (w4, Inr (got, eof))"
  shows "flags AND O_CREAT \<noteq> 0 \<and> fh_size fh = 0 \<and> fh_status fh = ''pending'' \<and> n = length bs \<and> got = bs \<and> \<not> eof"
proof -
  note o = open_created [OF server utf8 rnd new runs(1)]
  have "nodes_ok (w_cluster w1)" "distinct (map Addr (fh_replicas fh))" using o nodes(1) by simp_all
  from write_then_read [OF this nodes(2) runs(2,3,4)] o show ?thesis by blast
qed

text \<open>\<open>/d/g\<close> is created with \<open>O_CREAT\<close>, written at offset 3 and read back.\<close>

definition created :: "world \<times> FileHandle" where
  "created = (case client_Open client1 ''/d/g'' O_CREAT single_world of (w, r) \<Rightarrow> (w, case r of Inr fh \<Rightarrow> fh | Inl e \<Rightarrow> sample_handle))"

definition created_written :: "world \<times> (string + FileHandle \<times> nat)" where
  "created_written = WriteAt (snd created) [7, 9] 3 (fst created)"

definition created_read :: "string + byte list \<times> bool" where
  "created_read = (case created_written of (w, Inr (fh, n)) \<Rightarrow> snd (ReadAt fh 2 3 w) | (w, Inl e) \<Rightarrow> Inl e)"

lemma created_runs:
  "map_sum id (\<lambda>x. ()) (snd (client_Open client1 ''/d/g'' O_CREAT single_world)) = Inr ()"
  "map_sum id (\<lambda>x. ()) (snd created_written) = Inr ()" "map_sum id (\<lambda>x. ()) created_read = Inr ()"
  "mds_view sample_nodes (splitPath ''/d/g'') = None"
  by code_simp+

theorem created_file_write_read_witness: "created_read = Inr ([7, 9], False)"
proof -
  obtain w1 fh where o: "client_Open client1 ''/d/g'' O_CREAT single_world = (w1, Inr fh)"
    using created_runs(1) by (cases "client_Open client1 ''/d/g'' O_CREAT single_world";
      cases "snd (client_Open client1 ''/d/g'' O_CREAT single_world)") auto
  then have c: "created = (w1, fh)" by (simp add: created_def)
  obtain w2 fh' n where wr: "WriteAt fh [7, 9] 3 w1 = (w2, Inr (fh', n))"
    using created_runs(2) unfolding created_written_def c fst_conv snd_conv
    by (cases "WriteAt fh [7, 9] 3 w1"; cases "snd (WriteAt fh [7, 9] 3 w1)") auto
  then have cw: "created_written = (w2, Inr (fh', n))" by (simp add: created_written_def c)
  obtain w4 got eof where rd: "ReadAt fh' 2 3 w2 = (w4, Inr (got, eof))"
    using created_runs(3) by (cases "ReadAt fh' 2 3 w2"; cases "snd (ReadAt fh' 2 3 w2)") (auto simp: created_read_def cw)
  have u: "list_all utf8_ok (dataNodes sample_nodes)" unfolding sample_nodes_registry by (rule sample_nodes_utf8(3))
  have s: "w_rand single_world = Inr [1, 2] # [Inr [3, 4]]" "nodes_ok (w_cluster single_world)"
    using sample_nodes_ok by (simp_all add: single_world_def sample_world_def)
  have "ReadAt fh' (length [7, 9 :: byte]) 3 w2 = (w4, Inr (got, eof))" using rd by (simp add: numeral_2_eq_2)
  from created_file_write_read [OF single_sole sample_nodes_inv sample_nodes_utf8(1) u s(1) created_runs(4) s(2) _ o wr refl this]
  show ?thesis using rd by (simp add: created_read_def cw)
qed

end
