(* ===== verification/Go_Numbers.thy ===== *)
theory Go_Numbers
  imports Go_Strings
begin

section \<open>Reading numbers\<close>

text \<open>
  \<open>strconv.ParseUint(s, 0, 64)\<close> of Go's library, which package \<open>flag\<close> uses for the numeric flag of
  \<open>cmd/fstorex-metadata/main.go\<close>: a prefix \<open>0b\<close>, \<open>0o\<close>, \<open>0x\<close> or \<open>0\<close> gives the base, and underscores may
  separate digits. \<open>None\<close> is a syntax error or a number of more than 64 bits.
\<close>

definition lower :: "char \<Rightarrow> int" where
  "lower c = (let n = of_char c in if 65 \<le> n \<and> n \<le> 90 then n + 32 else n)"

definition digit_value :: "char \<Rightarrow> int option" where
  "digit_value c =
     (let n = of_char c in
      if 48 \<le> n \<and> n \<le> 57 then Some (n - 48)
      else if 97 \<le> lower c \<and> lower c \<le> 122 then Some (lower c - 97 + 10)
      else None)"

text \<open>The base and the digits after the prefix.\<close>

definition base_digits :: "string \<Rightarrow> int \<times> string" where
  "base_digits s =
     (if s = [] \<or> hd s \<noteq> CHR ''0'' then (10, s)
      else if length s \<ge> 3 \<and> lower (s ! 1) = 98 then (2, drop 2 s)
      else if length s \<ge> 3 \<and> lower (s ! 1) = 111 then (8, drop 2 s)
      else if length s \<ge> 3 \<and> lower (s ! 1) = 120 then (16, drop 2 s)
      else (8, tl s))"

fun uint_loop :: "int \<Rightarrow> string \<Rightarrow> int \<Rightarrow> int option" where
  "uint_loop base [] n = Some n"
| "uint_loop base (c # cs) n =
     (if c = CHR ''_'' then uint_loop base cs n
      else case digit_value c of
             None \<Rightarrow> None
           | Some d \<Rightarrow>
               if d \<ge> base then None
               else if n * base + d \<ge> 2 ^ 64 then None
               else uint_loop base cs (n * base + d))"

text \<open>Underscores must separate digits, or a base prefix from the first digit.\<close>

fun underscore_loop :: "bool \<Rightarrow> char \<Rightarrow> string \<Rightarrow> bool" where
  "underscore_loop hex i [] = (i \<noteq> CHR ''_'')"
| "underscore_loop hex i (c # cs) =
     (case digit_value c of
        Some d \<Rightarrow>
          if d < 10 \<or> hex \<and> d < 16 then underscore_loop hex CHR ''0'' cs
          else i \<noteq> CHR ''_'' \<and> underscore_loop hex CHR ''!'' cs
      | None \<Rightarrow>
          if c = CHR ''_'' then i = CHR ''0'' \<and> underscore_loop hex CHR ''_'' cs
          else i \<noteq> CHR ''_'' \<and> underscore_loop hex CHR ''!'' cs)"

definition underscoreOK :: "string \<Rightarrow> bool" where
  "underscoreOK s =
     (if length s \<ge> 2 \<and> hd s = CHR ''0'' \<and> (lower (s ! 1) = 98 \<or> lower (s ! 1) = 111 \<or> lower (s ! 1) = 120)
      then underscore_loop (lower (s ! 1) = 120) CHR ''0'' (drop 2 s)
      else underscore_loop False CHR ''^'' s)"

definition ParseUint :: "string \<Rightarrow> 64 word option" where
  "ParseUint s =
     (if s = [] then None
      else case base_digits s of
             (base, digits) \<Rightarrow>
               (case uint_loop base digits 0 of
                  None \<Rightarrow> None
                | Some n \<Rightarrow> if CHR ''_'' \<in> set s \<and> \<not> underscoreOK s then None else Some (word_of_int n)))"

subsection \<open>Printed numbers are read back\<close>

lemma digit_chars: "list_all (\<lambda>d. (of_char (digit_char d) :: int) = 48 + int d) [0..<10]"
  by code_simp

lemma of_digit_char: "d < 10 \<Longrightarrow> (of_char (digit_char d) :: int) = 48 + int d"
  using digit_chars by (auto simp: list_all_iff)

lemma digit_value_char: "d < 10 \<Longrightarrow> digit_value (digit_char d) = Some (int d)"
  by (simp add: digit_value_def of_digit_char Let_def)

lemma digit_not_underscore: "d < 10 \<Longrightarrow> digit_char d \<noteq> CHR ''_''"
  using of_digit_char [of d] by auto

lemma digit_zero: "d < 10 \<Longrightarrow> digit_char d = CHR ''0'' \<Longrightarrow> d = 0"
  using of_digit_char [of d] by auto

lemma uint_loop_append:
  "uint_loop b (xs @ ys) n = (case uint_loop b xs n of None \<Rightarrow> None | Some m \<Rightarrow> uint_loop b ys m)"
  by (induction b xs n rule: uint_loop.induct) (auto split: option.split)

lemma uint_loop_Itoa: "int n < 2 ^ 64 \<Longrightarrow> uint_loop 10 (Itoa n) 0 = Some (int n)"
proof (induction n rule: Itoa.induct)
  case (1 n)
  show ?case
  proof (cases "n < 10")
    case True
    then show ?thesis using 1(2) by (simp add: Itoa.simps [of n] digit_value_char digit_not_underscore)
  next
    case False
    have d: "n mod 10 < 10" by simp
    have eq: "int (n div 10) * 10 + int (n mod 10) = int n"
      by (metis div_mult_mod_eq of_nat_add of_nat_mult of_nat_numeral)
    have "uint_loop 10 (Itoa (n div 10)) 0 = Some (int (n div 10))" using 1 False by simp
    then show ?thesis
      using False 1(2) eq digit_value_char [OF d] digit_not_underscore [OF d]
      by (simp add: Itoa.simps [of n] uint_loop_append)
  qed
qed

lemma Itoa_plain: "Itoa n \<noteq> [] \<and> CHR ''_'' \<notin> set (Itoa n) \<and> (n \<noteq> 0 \<longrightarrow> hd (Itoa n) \<noteq> CHR ''0'')"
proof (induction n rule: Itoa.induct)
  case (1 n)
  show ?case
  proof (cases "n < 10")
    case True
    then show ?thesis using digit_not_underscore [of n] digit_zero [of n] by (auto simp: Itoa.simps [of n])
  next
    case False
    then have "n div 10 \<noteq> 0" by simp
    then show ?thesis using 1 False digit_not_underscore [of "n mod 10"] by (auto simp: Itoa.simps [of n])
  qed
qed

lemma ParseUint_Itoa: "int n < 2 ^ 64 \<Longrightarrow> ParseUint (Itoa n) = Some (word_of_nat n)"
proof (cases "n = 0")
  case True
  have "ParseUint (Itoa 0) = Some 0" by code_simp
  then show ?thesis using True by simp
next
  case False
  assume "int n < 2 ^ 64"
  then show ?thesis
    using uint_loop_Itoa [of n] Itoa_plain [of n] False by (simp add: ParseUint_def base_digits_def)
qed

end
