(* ===== verification/Go_Flags.thy ===== *)
theory Go_Flags
  imports Go_Numbers
begin

section \<open>Command line flags\<close>

text \<open>
  What the commands under \<open>cmd/\<close> use of Go's package \<open>flag\<close>: a flag set is the list of the
  defined flags with their values, and \<open>Parse\<close> takes flags off the front of the arguments
  until the first that is none. All flag sets of the program exit on an error. \<open>Parse\<close> recurses
  on what \<open>parseOne\<close> leaves, which is shorter (\<open>parseOne_shorter\<close>).
\<close>

datatype flag_value = BoolFlag bool | StringFlag string | UintFlag "64 word"

type_synonym flag_set = "(string \<times> flag_value) list"

datatype flag_error = ErrHelp | FlagError string

definition ParseBool :: "string \<Rightarrow> bool option" where
  "ParseBool s =
     (if List.member [''1'', ''t'', ''T'', ''true'', ''TRUE'', ''True''] s then Some True
      else if List.member [''0'', ''f'', ''F'', ''false'', ''FALSE'', ''False''] s then Some False
      else None)"

text \<open>The name of a flag argument, and the value after the first \<open>=\<close> that is not the first byte.\<close>

definition name_value :: "string \<Rightarrow> string \<times> string option" where
  "name_value s =
     (case dropWhile (\<lambda>c. c \<noteq> CHR ''='') (tl s) of
        [] \<Rightarrow> (s, None)
      | c # v \<Rightarrow> (hd s # takeWhile (\<lambda>c. c \<noteq> CHR ''='') (tl s), Some v))"

definition set_flag :: "string \<Rightarrow> flag_value \<Rightarrow> flag_set \<Rightarrow> flag_set" where
  "set_flag name v fs = map (\<lambda>(n, u). (n, if n = name then v else u)) fs"

text \<open>One flag: \<open>Done\<close> with the remaining arguments, \<open>Seen\<close> with the new values, or an error.\<close>

datatype parsed = Done "string list" | Seen flag_set "string list" | Bad flag_error

definition uint_value :: "flag_set \<Rightarrow> string \<Rightarrow> string \<Rightarrow> string list \<Rightarrow> parsed" where
  "uint_value fs name v args =
     (case ParseUint v of
        None \<Rightarrow> Bad (FlagError (''invalid value for flag -'' @ name))
      | Some n \<Rightarrow> Seen (set_flag name (UintFlag n) fs) args)"

definition parse_flag :: "flag_set \<Rightarrow> string \<Rightarrow> string list \<Rightarrow> parsed" where
  "parse_flag fs s args =
     (case name_value s of
        (name, value) \<Rightarrow>
          (case map_of fs name of
             None \<Rightarrow>
               if name = ''help'' \<or> name = ''h'' then Bad ErrHelp
               else Bad (FlagError (''flag provided but not defined: -'' @ name))
           | Some (BoolFlag b) \<Rightarrow>
               (case value of
                  None \<Rightarrow> Seen (set_flag name (BoolFlag True) fs) args
                | Some v \<Rightarrow>
                    (case ParseBool v of
                       None \<Rightarrow> Bad (FlagError (''invalid boolean value for -'' @ name))
                     | Some b \<Rightarrow> Seen (set_flag name (BoolFlag b) fs) args))
           | Some (StringFlag u) \<Rightarrow>
               (case value of
                  Some v \<Rightarrow> Seen (set_flag name (StringFlag v) fs) args
                | None \<Rightarrow>
                    (case args of
                       [] \<Rightarrow> Bad (FlagError (''flag needs an argument: -'' @ name))
                     | v # rest \<Rightarrow> Seen (set_flag name (StringFlag v) fs) rest))
           | Some (UintFlag u) \<Rightarrow>
               (case value of
                  Some v \<Rightarrow> uint_value fs name v args
                | None \<Rightarrow>
                    (case args of
                       [] \<Rightarrow> Bad (FlagError (''flag needs an argument: -'' @ name))
                     | v # rest \<Rightarrow> uint_value fs name v rest))))"

fun parseOne :: "flag_set \<Rightarrow> string list \<Rightarrow> parsed" where
  "parseOne fs [] = Done []"
| "parseOne fs (s # args) =
     (if length s < 2 \<or> hd s \<noteq> CHR ''-'' then Done (s # args)
      else if s = ''--'' then Done args
      else
        (let name = (if s ! 1 = CHR ''-'' then drop 2 s else drop 1 s) in
         if name = [] \<or> hd name = CHR ''-'' \<or> hd name = CHR ''='' then Bad (FlagError (''bad flag syntax: '' @ s))
         else parse_flag fs name args))"

lemma parse_flag_shorter: "parse_flag fs s args = Seen fs' rest \<Longrightarrow> length rest \<le> length args"
  by (auto simp: parse_flag_def uint_value_def split: prod.splits option.splits flag_value.splits list.splits if_splits)

lemma parseOne_shorter: "parseOne fs args = Seen fs' rest \<Longrightarrow> length rest < length args"
  using parse_flag_shorter by (cases args) (auto simp: Let_def less_Suc_eq_le split: if_splits)

text \<open>\<open>FlagSet.Parse\<close>: the values and the arguments that are left, or the error.\<close>

function Parse :: "flag_set \<Rightarrow> string list \<Rightarrow> flag_error + (flag_set \<times> string list)" where
  "Parse fs args =
     (case parseOne fs args of
        Done rest \<Rightarrow> Inr (fs, rest)
      | Seen fs' rest \<Rightarrow> Parse fs' rest
      | Bad e \<Rightarrow> Inl e)"
  by pat_completeness auto
termination
  by (relation "measure (\<lambda>(fs, args). length args)") (auto dest: parseOne_shorter)

declare Parse.simps [simp del]

text \<open>\<open>flag.ExitOnError\<close>: the exit code of an error.\<close>

fun exit_on_error :: "flag_error \<Rightarrow> nat" where
  "exit_on_error ErrHelp = 0"
| "exit_on_error (FlagError msg) = 2"

definition string_flag :: "string \<Rightarrow> flag_set \<Rightarrow> string" where
  "string_flag name fs = (case map_of fs name of Some (StringFlag s) \<Rightarrow> s | _ \<Rightarrow> '''')"

definition bool_flag :: "string \<Rightarrow> flag_set \<Rightarrow> bool" where
  "bool_flag name fs = (case map_of fs name of Some (BoolFlag b) \<Rightarrow> b | _ \<Rightarrow> False)"

definition uint_flag :: "string \<Rightarrow> flag_set \<Rightarrow> 64 word" where
  "uint_flag name fs = (case map_of fs name of Some (UintFlag n) \<Rightarrow> n | _ \<Rightarrow> 0)"

subsection \<open>Reading back\<close>

text \<open>Parsing stops at an argument that is no flag, and after \<open>--\<close>.\<close>

definition plain_arg :: "string \<Rightarrow> bool" where
  "plain_arg s \<longleftrightarrow> length s < 2 \<or> hd s \<noteq> CHR ''-''"

lemma Parse_stop: "args = [] \<or> plain_arg (hd args) \<Longrightarrow> Parse fs args = Inr (fs, args)"
  by (cases args) (auto simp: Parse.simps plain_arg_def)

lemma Parse_dashes: "Parse fs (''--'' # args) = Inr (fs, args)"
  by (simp add: Parse.simps)

definition flag_name :: "string \<Rightarrow> bool" where
  "flag_name name \<longleftrightarrow> name \<noteq> [] \<and> hd name \<noteq> CHR ''-'' \<and> CHR ''='' \<notin> set name"

lemma name_value_printed:
  assumes "flag_name name"
  shows "name_value (name @ ''='' @ v) = (name, Some v)" "name_value name = (name, None)"
proof -
  obtain c cs where n: "name = c # cs" "CHR ''='' \<notin> set cs" using assms by (cases name) (auto simp: flag_name_def)
  have "dropWhile (\<lambda>c. c \<noteq> CHR ''='') (cs @ ''='' @ v) = ''='' @ v" "takeWhile (\<lambda>c. c \<noteq> CHR ''='') (cs @ ''='' @ v) = cs"
    "dropWhile (\<lambda>c. c \<noteq> CHR ''='') cs = []"
    using n(2) by (induction cs) auto
  then show "name_value (name @ ''='' @ v) = (name, Some v)" "name_value name = (name, None)"
    using n(1) by (simp_all add: name_value_def del: dropWhile_eq_Nil_conv)
qed

text \<open>A printed flag is read back: \<open>-name=value\<close> for a string or number, \<open>-name\<close> for a switch.\<close>

lemma Parse_string_flag:
  assumes "flag_name name" "map_of fs name = Some (StringFlag u)"
  shows "Parse fs ((''-'' @ name @ ''='' @ v) # args) = Parse (set_flag name (StringFlag v) fs) args"
proof -
  have "parseOne fs ((''-'' @ name @ ''='' @ v) # args) = Seen (set_flag name (StringFlag v) fs) args"
    using assms name_value_printed(1) [OF assms(1), of v]
    by (cases name) (auto simp: flag_name_def parse_flag_def Let_def)
  then show ?thesis by (simp add: Parse.simps [of fs])
qed

lemma Parse_uint_flag:
  assumes "flag_name name" "map_of fs name = Some (UintFlag u)" "int n < 2 ^ 64"
  shows "Parse fs ((''-'' @ name @ ''='' @ Itoa n) # args) = Parse (set_flag name (UintFlag (word_of_nat n)) fs) args"
proof -
  have "parseOne fs ((''-'' @ name @ ''='' @ Itoa n) # args) = Seen (set_flag name (UintFlag (word_of_nat n)) fs) args"
    using assms name_value_printed(1) [OF assms(1), of "Itoa n"] ParseUint_Itoa [OF assms(3)]
    by (cases name) (auto simp: flag_name_def parse_flag_def uint_value_def Let_def)
  then show ?thesis by (simp add: Parse.simps [of fs])
qed

lemma Parse_bool_flag:
  assumes "flag_name name" "map_of fs name = Some (BoolFlag b)"
  shows "Parse fs ((''-'' @ name) # args) = Parse (set_flag name (BoolFlag True) fs) args"
proof -
  have "parseOne fs ((''-'' @ name) # args) = Seen (set_flag name (BoolFlag True) fs) args"
    using assms name_value_printed(2) [OF assms(1)]
    by (cases name) (auto simp: flag_name_def parse_flag_def Let_def)
  then show ?thesis by (simp add: Parse.simps [of fs])
qed

end
