(* ===== verification/Fstorex_Cli.thy ===== *)
theory Fstorex_Cli
  imports Fs_Client Go_Flags
begin

section \<open>The command line client\<close>

text \<open>
  \<open>cmd/fstorex/main.go\<close>: from the arguments to the calls of the client, the exit code and what
  is printed. A run returns the world, the exit code and the output, line by line; the rows given
  to a \<open>tabwriter\<close> are kept as cells, and the logger's error lines without their time. The
  informational log lines and what package \<open>flag\<close> prints on an error are left out. How a time is
  printed depends on the local time zone and is the parameter \<open>fmt\<close>.
\<close>

datatype printed = Line string | ErrorLog string string | Table "string list list"

type_synonym run = "world \<times> nat \<times> printed list"

definition check_mark :: string where "check_mark = map char_of [0xE2, 0x9C, 0x93 :: nat]"
definition arrow :: string where "arrow = map char_of [0xE2, 0x86, 0x92 :: nat]"

definition show_int :: "int \<Rightarrow> string" where
  "show_int i = (if i < 0 then CHR ''-'' # Itoa (nat (- i)) else Itoa (nat i))"

text \<open>The two ends of every command: an error is logged and the exit code is 1, or the output.\<close>

definition finish :: "string \<Rightarrow> ('a \<Rightarrow> printed list) \<Rightarrow> 'a client_result \<Rightarrow> run" where
  "finish msg out r = (case r of (w, Inl e) \<Rightarrow> (w, 1, [ErrorLog msg e]) | (w, Inr x) \<Rightarrow> (w, 0, out x))"

definition usage :: "string \<Rightarrow> world \<Rightarrow> run" where
  "usage text w = (w, 1, [Line text])"

subsection \<open>The commands\<close>

definition cmd_mkdir :: "Client \<Rightarrow> string list \<Rightarrow> world \<Rightarrow> run" where
  "cmd_mkdir c args w =
     (if length args < 2 then usage ''Usage: client mkdir <path>'' w
      else finish ''mkdir failed'' (\<lambda>u. [Line (check_mark @ '' Directory created: '' @ args ! 1)])
             (client_Mkdir c (args ! 1) w))"

definition put_flags :: flag_set where
  "put_flags = [(''overwrite'', BoolFlag False)]"

definition cmd_put :: "Client \<Rightarrow> string list \<Rightarrow> world \<Rightarrow> run" where
  "cmd_put c args w =
     (case Parse put_flags (tl args) of
        Inl e \<Rightarrow> (w, exit_on_error e, [])
      | Inr (fs, putArgs) \<Rightarrow>
          if length putArgs < 2 then usage ''Usage: client put [-overwrite] <local> <remote>'' w
          else
            (let putOpts = (if bool_flag ''overwrite'' fs then [OverwriteIfExists] else []) in
             finish ''put failed''
               (\<lambda>u. [Line (check_mark @ '' File uploaded: '' @ putArgs ! 0 @ '' '' @ arrow @ '' '' @ putArgs ! 1)])
               (PutFile c (putArgs ! 0) (putArgs ! 1) putOpts w)))"

definition cmd_get :: "Client \<Rightarrow> string list \<Rightarrow> world \<Rightarrow> run" where
  "cmd_get c args w =
     (if length args < 3 then usage ''Usage: client get <remote> <local>'' w
      else finish ''get failed''
             (\<lambda>u. [Line (check_mark @ '' File downloaded: '' @ args ! 1 @ '' '' @ arrow @ '' '' @ args ! 2)])
             (GetFile c (args ! 1) (args ! 2) w))"

definition ls_row :: "(time \<Rightarrow> string) \<Rightarrow> FileInfo \<Rightarrow> string list" where
  "ls_row fmt info =
     (let typ = (if fi_IsDir info then ''DIR'' else ''FILE'')
      in [fi_Name info, show_int (sint (fi_Size info)), fmt (fi_ModTime info), typ])"

definition cmd_ls :: "(time \<Rightarrow> string) \<Rightarrow> Client \<Rightarrow> string list \<Rightarrow> world \<Rightarrow> run" where
  "cmd_ls fmt c args w =
     (let path = (if length args \<ge> 2 then args ! 1 else ''/'') in
      finish ''ls failed''
        (\<lambda>infos. if infos = [] then [Line ''(empty)'']
                 else [Table ([''NAME'', ''SIZE'', ''MODIFIED'', ''TYPE''] # map (ls_row fmt) infos)])
        (client_ListDir c path w))"

definition stat_lines :: "(time \<Rightarrow> string) \<Rightarrow> FileInfo \<Rightarrow> printed list" where
  "stat_lines fmt info =
     [Line (''Name:      '' @ fi_Name info),
      Line (''Path:      '' @ fi_Path info),
      Line (''Type:      '' @ (if fi_IsDir info then ''Directory'' else ''File'')),
      Line (''Size:      '' @ show_int (sint (fi_Size info)) @ '' bytes''),
      Line (''Created:   '' @ fmt (fi_CreatedAt info)),
      Line (''Modified:  '' @ fmt (fi_ModTime info))]"

definition cmd_stat :: "(time \<Rightarrow> string) \<Rightarrow> Client \<Rightarrow> string list \<Rightarrow> world \<Rightarrow> run" where
  "cmd_stat fmt c args w =
     (if length args < 2 then usage ''Usage: client stat <path>'' w
      else finish ''stat failed'' (stat_lines fmt) (client_Stat c (args ! 1) w))"

definition cmd_rm :: "Client \<Rightarrow> string list \<Rightarrow> world \<Rightarrow> run" where
  "cmd_rm c args w =
     (if length args < 2 then usage ''Usage: client rm <path>'' w
      else finish ''rm failed'' (\<lambda>u. [Line (check_mark @ '' Path deleted: '' @ args ! 1)])
             (client_Delete c (args ! 1) w))"

fun replica_rows :: "nat \<Rightarrow> Replica list \<Rightarrow> string list list" where
  "replica_rows i [] = []"
| "replica_rows i (r # rs) = [Itoa (i + 1), Addr r, RemotePath r] # replica_rows (Suc i) rs"

definition cmd_replicas :: "Client \<Rightarrow> string list \<Rightarrow> world \<Rightarrow> run" where
  "cmd_replicas c args w =
     (if length args < 2 then usage ''Usage: client replicas <path>'' w
      else finish ''replicas failed''
             (\<lambda>replicas. [Line (''Replicas for '' @ args ! 1 @ '' ('' @ Itoa (length replicas) @ '' total):''),
                          Table ([''#'', ''DATA NODE'', ''REMOTE PATH''] # replica_rows 0 replicas)])
             (GetReplicas c (args ! 1) w))"

definition cmd_nodes :: "Client \<Rightarrow> world \<Rightarrow> run" where
  "cmd_nodes c w =
     finish ''list nodes failed''
       (\<lambda>nodes. Line (''Data nodes ('' @ Itoa (length nodes) @ ''):'') # map (\<lambda>n. Line (''  - '' @ n)) nodes)
       (client_ListDataNodes c w)"

definition cmd_gc :: "Client \<Rightarrow> world \<Rightarrow> run" where
  "cmd_gc c w =
     finish ''trigger GC failed''
       (\<lambda>u. [Line (check_mark @ '' GC triggered in background (check MDS logs for results)'')])
       (client_TriggerGC c w)"

subsection \<open>Dispatch\<close>

definition printUsage :: "printed list" where
  "printUsage = map Line
     [''FStoreX Client'', '''', ''Usage: client -mds=<addr> <command> [args]'', '''', ''Commands:'',
      ''  mkdir <path>                    Create directory'',
      ''  put [-overwrite] <local> <remote> Upload file (-overwrite to overwrite existing)'',
      ''  get <remote> <local>            Download file'',
      ''  ls [path]                       List directory (default: /)'',
      ''  stat <path>                     Show file/directory info'',
      ''  rm <path>                       Delete file/directory'',
      ''  replicas <path>                 Show file's replica locations'',
      ''  nodes                           List registered data nodes'',
      ''  gc                              Trigger orphan data garbage collection'']"

definition main_flags :: flag_set where
  "main_flags = [(''mds'', StringFlag ''localhost:9001'')]"

definition dispatch :: "(time \<Rightarrow> string) \<Rightarrow> Client \<Rightarrow> string list \<Rightarrow> world \<Rightarrow> run" where
  "dispatch fmt c args w =
     (let cmd = hd args in
      if cmd = ''mkdir'' then cmd_mkdir c args w
      else if cmd = ''put'' then cmd_put c args w
      else if cmd = ''get'' then cmd_get c args w
      else if cmd = ''ls'' then cmd_ls fmt c args w
      else if cmd = ''stat'' then cmd_stat fmt c args w
      else if cmd = ''rm'' then cmd_rm c args w
      else if cmd = ''replicas'' then cmd_replicas c args w
      else if cmd = ''nodes'' then cmd_nodes c w
      else if cmd = ''gc'' then cmd_gc c w
      else (w, 1, [Line (''Unknown command: '' @ cmd), Line ''''] @ printUsage))"

definition fstorex_main :: "(time \<Rightarrow> string) \<Rightarrow> string list \<Rightarrow> world \<Rightarrow> run" where
  "fstorex_main fmt osArgs w =
     (case Parse main_flags osArgs of
        Inl e \<Rightarrow> (w, exit_on_error e, [])
      | Inr (fs, args) \<Rightarrow>
          if length args = 0 then (w, 1, printUsage)
          else dispatch fmt (NewClient (string_flag ''mds'' fs)) args w)"

subsection \<open>The operation behind a command\<close>

datatype cli_op = Cmd_Mkdir string | Cmd_Put bool string string | Cmd_Get string string | Cmd_Ls string
  | Cmd_Stat string | Cmd_Rm string | Cmd_Replicas string | Cmd_Nodes | Cmd_Gc

text \<open>How to ask for it: \<open>--\<close> ends the options of \<open>put\<close>, so that any local path may follow.\<close>

fun cli_args :: "cli_op \<Rightarrow> string list" where
  "cli_args (Cmd_Mkdir p) = [''mkdir'', p]"
| "cli_args (Cmd_Put overwrite src dst) = ''put'' # (if overwrite then [''-overwrite''] else []) @ [''--'', src, dst]"
| "cli_args (Cmd_Get src dst) = [''get'', src, dst]"
| "cli_args (Cmd_Ls p) = [''ls'', p]"
| "cli_args (Cmd_Stat p) = [''stat'', p]"
| "cli_args (Cmd_Rm p) = [''rm'', p]"
| "cli_args (Cmd_Replicas p) = [''replicas'', p]"
| "cli_args Cmd_Nodes = [''nodes'']"
| "cli_args Cmd_Gc = [''gc'']"

text \<open>The call of the client, and whether it succeeded.\<close>

definition outcome :: "'a client_result \<Rightarrow> world \<times> bool" where
  "outcome r = (fst r, case snd r of Inl e \<Rightarrow> False | Inr x \<Rightarrow> True)"

fun client_op :: "Client \<Rightarrow> cli_op \<Rightarrow> world \<Rightarrow> world \<times> bool" where
  "client_op c (Cmd_Mkdir p) w = outcome (client_Mkdir c p w)"
| "client_op c (Cmd_Put overwrite src dst) w = outcome (PutFile c src dst (if overwrite then [OverwriteIfExists] else []) w)"
| "client_op c (Cmd_Get src dst) w = outcome (GetFile c src dst w)"
| "client_op c (Cmd_Ls p) w = outcome (client_ListDir c p w)"
| "client_op c (Cmd_Stat p) w = outcome (client_Stat c p w)"
| "client_op c (Cmd_Rm p) w = outcome (client_Delete c p w)"
| "client_op c (Cmd_Replicas p) w = outcome (GetReplicas c p w)"
| "client_op c Cmd_Nodes w = outcome (client_ListDataNodes c w)"
| "client_op c Cmd_Gc w = outcome (client_TriggerGC c w)"

lemma finish_outcome: "\<exists>out. finish msg f r = (fst (outcome r), if snd (outcome r) then 0 else 1, out)"
  by (cases r; cases "snd r") (auto simp: finish_def outcome_def)

lemmas cmd_defs = cmd_mkdir_def cmd_put_def cmd_get_def cmd_ls_def cmd_stat_def cmd_rm_def cmd_replicas_def
  cmd_nodes_def cmd_gc_def

lemma put_parsed:
  "Parse put_flags ((if overwrite then [''-overwrite''] else []) @ [''--'', src, dst]) =
     Inr ([(''overwrite'', BoolFlag overwrite)], [src, dst])"
  using Parse_bool_flag [of "''overwrite''" put_flags False "[''--'', src, dst]"]
  by (auto simp: Parse_dashes put_flags_def flag_name_def set_flag_def)

lemma dispatch_op:
  "\<exists>out. dispatch fmt c (cli_args op) w = (fst (client_op c op w), if snd (client_op c op w) then 0 else 1, out)"
proof (cases op)
  case (Cmd_Put overwrite src dst)
  let ?opts = "if overwrite then [OverwriteIfExists] else []"
  have "\<exists>f. dispatch fmt c (cli_args op) w = finish ''put failed'' f (PutFile c src dst ?opts w)"
    using put_parsed [of overwrite src dst] Cmd_Put by (auto simp: dispatch_def Let_def cmd_put_def bool_flag_def)
  then obtain f where "dispatch fmt c (cli_args op) w = finish ''put failed'' f (PutFile c src dst ?opts w)" by blast
  then show ?thesis using finish_outcome [of "''put failed''" f "PutFile c src dst ?opts w"] Cmd_Put by simp
qed (simp_all add: dispatch_def Let_def cmd_defs finish_outcome)

lemma main_parsed: "args = [] \<or> plain_arg (hd args) \<Longrightarrow>
    Parse main_flags ((''-mds='' @ addr) # args) = Inr ([(''mds'', StringFlag addr)], args)"
  using Parse_string_flag [of "''mds''" main_flags "''localhost:9001''" addr args] Parse_stop [of args]
  by (simp add: main_flags_def flag_name_def set_flag_def)

lemma cli_args_plain: "plain_arg (hd (cli_args op)) \<and> cli_args op \<noteq> []"
  by (cases op) (simp_all add: plain_arg_def)

lemma fstorex_dispatch:
  "fstorex_main fmt ((''-mds='' @ addr) # cli_args op) w = dispatch fmt (NewClient addr) (cli_args op) w"
  using main_parsed [of "cli_args op" addr] cli_args_plain [of op] by (simp add: fstorex_main_def string_flag_def)

end
