(* ===== verification/Fstorex_Servers.thy ===== *)
theory Fstorex_Servers
  imports Client_World Go_Flags
begin

section \<open>Starting the servers\<close>

text \<open>
  \<open>cmd/fstorex-metadata/main.go\<close> and \<open>cmd/fstorex-datanode/main.go\<close> up to the point where they
  serve: the flags, the configuration of Raft, the start of the two kinds of server, the recovery of
  the state of a metadata server, and the heartbeat that registers a data node. What follows,
  accepting connections and the shutdown, is \<open>Serve_Loop\<close>. \<open>raft.InitServer\<close> of goraft is the
  parameter \<open>init\<close>: an error, or the Raft node and the calls that goraft makes on the state machine it
  was given to bring back its snapshot and its log (\<open>README.md\<close>, WAL + Snapshot persistence). \<open>register\<close>
  and \<open>listen\<close> say whether \<open>net/rpc\<close> accepts the services and whether the system lets the process
  listen on its address, and \<open>os\<close> is the disk of the server's machine. Logging is left out, and with
  it the \<open>Logger\<close> of the configuration.
\<close>

subsection \<open>The metadata server\<close>

record Config =
  LocalID :: string
  Peers :: "string list"
  WalDir :: string
  SnapDir :: string
  MaxIndexSpan :: "64 word"
  ElectionTimeout :: time
  StateMachine :: "MetadataServer option"

definition parse_peers :: "string \<Rightarrow> string \<Rightarrow> string list" where
  "parse_peers nodeID peersStr =
     (if peersStr \<noteq> ''''
      then fold (\<lambda>p peers. let p = TrimSpace p in if p \<noteq> '''' \<and> p \<noteq> nodeID then peers @ [p] else peers)
             (Split peersStr CHR '','') []
      else [])"

definition raft_config :: "string \<Rightarrow> string \<Rightarrow> string \<Rightarrow> string \<Rightarrow> 64 word \<Rightarrow> Config" where
  "raft_config nodeID peersStr walDir snapDir maxIndexSpan =
     \<lparr>LocalID = nodeID, Peers = parse_peers nodeID peersStr, WalDir = walDir, SnapDir = snapDir,
      MaxIndexSpan = maxIndexSpan, ElectionTimeout = 3 * 10 ^ 9, StateMachine = None\<rparr>"

text \<open>What goraft asks of the state machine while it recovers, with the clock that \<open>Apply\<close> reads; the
  errors are goraft's.\<close>

datatype sm_call = SmRestore snapshot_data | SmApply time log_entry

fun sm_step :: "sm_call \<Rightarrow> MetadataServer \<Rightarrow> MetadataServer" where
  "sm_step (SmRestore data) mds = fst (Restore data mds)"
| "sm_step (SmApply now (op, data)) mds = fst (Apply now op data mds)"

text \<open>The goroutines of a started server: goraft's election and heartbeat timers, and the ticker that
  runs \<open>startGC_tick\<close> every \<open>gcInterval\<close>.\<close>

datatype background = RaftTimers | GcTicker time

text \<open>\<open>NewMetadataServer\<close> whole: the new server is the state machine that goraft recovers.\<close>

definition start_MetadataServer ::
  "(Config \<Rightarrow> string + raft_node \<times> sm_call list) \<Rightarrow> time \<Rightarrow> time \<Rightarrow> Config \<Rightarrow>
   string + (raft_node \<times> MetadataServer \<times> background list)" where
  "start_MetadataServer init now1 now2 raftConfig =
     (let mds = NewMetadataServer now1 now2;
          raftConfig = raftConfig\<lparr>StateMachine := Some mds\<rparr>
      in case init raftConfig of
           Inl e \<Rightarrow> Inl (''init raft server failed: '' @ e)
         | Inr (raftNode, calls) \<Rightarrow> Inr (raftNode, fold sm_step calls mds, [RaftTimers, GcTicker gcInterval]))"

text \<open>How \<open>main\<close> ends: with an exit code, or it goes on to serve. The errors of the two \<open>os.MkdirAll\<close>
  are ignored.\<close>

datatype process = Exit nat | Serving "background list"

definition metadata_main ::
  "(Config \<Rightarrow> string + raft_node \<times> sm_call list) \<Rightarrow> (string \<Rightarrow> bool) \<Rightarrow> bool \<Rightarrow> time \<Rightarrow> time \<Rightarrow> string \<Rightarrow> string \<Rightarrow>
   string \<Rightarrow> string \<Rightarrow> 64 word \<Rightarrow> os_state \<Rightarrow> world \<Rightarrow> os_state \<times> world \<times> process" where
  "metadata_main init register listen now1 now2 nodeID peersStr walDir snapDir maxIndexSpan os w =
     (let os = fst (os_MkdirAll walDir os);
          os = fst (os_MkdirAll snapDir os);
          raftConfig = raft_config nodeID peersStr walDir snapDir maxIndexSpan
      in case start_MetadataServer init now1 now2 raftConfig of
           Inl e \<Rightarrow> (os, w, Exit 1)
         | Inr (raftNode, mds, started) \<Rightarrow>
             if \<not> register ''Server'' then (os, w, Exit 1)
             else if \<not> register ''MetadataService'' then (os, w, Exit 1)
             else if \<not> listen then (os, w, Exit 1)
             else (os, w\<lparr>w_mds := (w_mds w)(nodeID \<mapsto> (raftNode, mds))\<rparr>, Serving started))"

definition metadata_flags :: flag_set where
  "metadata_flags = [(''id'', StringFlag ''localhost:9001''), (''peers'', StringFlag ''''), (''waldir'', StringFlag ''/tmp/mds/wal''),
     (''snapdir'', StringFlag ''/tmp/mds/snap''), (''maxindexspan'', UintFlag 1000)]"

definition fstorex_metadata ::
  "(Config \<Rightarrow> string + raft_node \<times> sm_call list) \<Rightarrow> (string \<Rightarrow> bool) \<Rightarrow> bool \<Rightarrow> time \<Rightarrow> time \<Rightarrow> string list \<Rightarrow>
   os_state \<Rightarrow> world \<Rightarrow> os_state \<times> world \<times> process" where
  "fstorex_metadata init register listen now1 now2 osArgs os w =
     (case Parse metadata_flags osArgs of
        Inl e \<Rightarrow> (os, w, Exit (exit_on_error e))
      | Inr (fs, args) \<Rightarrow>
          metadata_main init register listen now1 now2 (string_flag ''id'' fs) (string_flag ''peers'' fs) (string_flag ''waldir'' fs)
            (string_flag ''snapdir'' fs) (uint_flag ''maxindexspan'' fs) os w)"

subsection \<open>The data node\<close>

text \<open>The result is \<open>None\<close> for a data node that runs, else the exit code. The first heartbeat of a data node is \<open>StartHeartbeat\<close>'s.\<close>

definition StartHeartbeat :: "DataNode \<Rightarrow> world \<Rightarrow> world" where
  "StartHeartbeat dn w = sendHeartbeat dn w"

definition datanode_main :: "bool \<Rightarrow> string \<Rightarrow> string \<Rightarrow> string \<Rightarrow> os_state \<Rightarrow> world \<Rightarrow> world \<times> nat option" where
  "datanode_main listen addr mds dir os w =
     (case NewDataNode dir mds addr os of
        (os, Inl e) \<Rightarrow> (w, Some 1)
      | (os, Inr dn) \<Rightarrow>
          if \<not> listen then (w, Some 1)
          else
            (let cl = w_cluster w;
                 w = w\<lparr>w_cluster := cl\<lparr>cl_nodes := (cl_nodes cl)(addr \<mapsto> (dn, os))\<rparr>\<rparr>
             in (StartHeartbeat dn w, None)))"

definition datanode_flags :: flag_set where
  "datanode_flags = [(''addr'', StringFlag '':9101''), (''mds'', StringFlag ''localhost:9001''), (''datadir'', StringFlag ''/tmp/dn1'')]"

definition fstorex_datanode :: "bool \<Rightarrow> string list \<Rightarrow> os_state \<Rightarrow> world \<Rightarrow> world \<times> nat option" where
  "fstorex_datanode listen osArgs os w =
     (case Parse datanode_flags osArgs of
        Inl e \<Rightarrow> (w, Some (exit_on_error e))
      | Inr (fs, args) \<Rightarrow>
          datanode_main listen (string_flag ''addr'' fs) (string_flag ''mds'' fs) (string_flag ''datadir'' fs) os w)"

subsection \<open>Arguments\<close>

lemma fstorex_datanode_args:
  "fstorex_datanode listen [''-addr='' @ addr, ''-mds='' @ mds, ''-datadir='' @ dir] os w = datanode_main listen addr mds dir os w"
proof -
  let ?f = "\<lambda>a m d. [(''addr'', StringFlag a), (''mds'', StringFlag m), (''datadir'', StringFlag d)]"
  note read = Parse_string_flag [of "''addr''" datanode_flags "'':9101''" addr "[''-mds='' @ mds, ''-datadir='' @ dir]"]
    Parse_string_flag [of "''mds''" "?f addr ''localhost:9001'' ''/tmp/dn1''" "''localhost:9001''" mds "[''-datadir='' @ dir]"]
    Parse_string_flag [of "''datadir''" "?f addr mds ''/tmp/dn1''" "''/tmp/dn1''" dir "[]"]
  have "Parse datanode_flags [''-addr='' @ addr, ''-mds='' @ mds, ''-datadir='' @ dir] = Inr (?f addr mds dir, [])"
    using read Parse_stop [of "[]" "?f addr mds dir"] by (simp add: datanode_flags_def flag_name_def set_flag_def)
  then show ?thesis by (simp add: fstorex_datanode_def string_flag_def)
qed

lemma fstorex_metadata_args:
  assumes "int n < 2 ^ 64"
  shows "fstorex_metadata init register listen now1 now2
      [''-id='' @ i, ''-peers='' @ ps, ''-waldir='' @ wd, ''-snapdir='' @ sd, ''-maxindexspan='' @ Itoa n] os w =
    metadata_main init register listen now1 now2 i ps wd sd (word_of_nat n) os w"
proof -
  let ?f = "\<lambda>i p wd sd m. [(''id'', StringFlag i), (''peers'', StringFlag p), (''waldir'', StringFlag wd),
     (''snapdir'', StringFlag sd), (''maxindexspan'', UintFlag m)]"
  let ?d = "''localhost:9001''" and ?wd = "''/tmp/mds/wal''" and ?sd = "''/tmp/mds/snap''"
  have "Parse metadata_flags [''-id='' @ i, ''-peers='' @ ps, ''-waldir='' @ wd, ''-snapdir='' @ sd, ''-maxindexspan='' @ Itoa n] =
      Inr (?f i ps wd sd (word_of_nat n), [])"
    using Parse_string_flag [of "''id''" metadata_flags ?d i "[''-peers='' @ ps, ''-waldir='' @ wd, ''-snapdir='' @ sd, ''-maxindexspan='' @ Itoa n]"]
      Parse_string_flag [of "''peers''" "?f i '''' ?wd ?sd 1000" "''''" ps "[''-waldir='' @ wd, ''-snapdir='' @ sd, ''-maxindexspan='' @ Itoa n]"]
      Parse_string_flag [of "''waldir''" "?f i ps ?wd ?sd 1000" ?wd wd "[''-snapdir='' @ sd, ''-maxindexspan='' @ Itoa n]"]
      Parse_string_flag [of "''snapdir''" "?f i ps wd ?sd 1000" ?sd sd "[''-maxindexspan='' @ Itoa n]"]
      Parse_uint_flag [of "''maxindexspan''" "?f i ps wd sd 1000" 1000 n "[]", OF _ _ assms]
      Parse_stop [of "[]" "?f i ps wd sd (word_of_nat n)"]
    by (simp add: metadata_flags_def flag_name_def set_flag_def)
  then show ?thesis by (simp add: fstorex_metadata_def string_flag_def uint_flag_def)
qed

lemma metadata_main_serves:
  assumes "metadata_main init register listen now1 now2 self ps wd sd m os w = (os', w', Serving started)"
  obtains rf calls where
    "init ((raft_config self ps wd sd m)\<lparr>StateMachine := Some (NewMetadataServer now1 now2)\<rparr>) = Inr (rf, calls)"
    "started = [RaftTimers, GcTicker gcInterval]"
    "w' = w\<lparr>w_mds := (w_mds w)(self \<mapsto> (rf, fold sm_step calls (NewMetadataServer now1 now2)))\<rparr>"
  using assms
  by (cases "init ((raft_config self ps wd sd m)\<lparr>StateMachine := Some (NewMetadataServer now1 now2)\<rparr>)")
     (auto simp: metadata_main_def start_MetadataServer_def Let_def split: if_splits)

subsection \<open>Recovery\<close>

text \<open>What the README says of goraft: it restores the last snapshot, if there is one, and replays the
  commands of the log that are not in it.\<close>

definition recovery :: "json option \<Rightarrow> (time \<times> log_entry) list \<Rightarrow> sm_call list" where
  "recovery snap ys =
     (case snap of None \<Rightarrow> [] | Some j \<Rightarrow> [SmRestore (Json j)]) @ map (\<lambda>(now, c). SmApply now c) ys"

lemma recovery_log: "fold sm_step (map (\<lambda>(now, c). SmApply now c) ys) mds = run_log apply_at ys mds"
  by (induction ys arbitrary: mds) (auto simp: apply_at_def)

lemma recovery_state:
  "fold sm_step (recovery snap ys) mds =
     run_log apply_at ys (case snap of None \<Rightarrow> mds | Some j \<Rightarrow> fst (Restore (Json j) mds))"
  by (simp add: recovery_def recovery_log split: option.split)

lemma recovered:
  assumes log: "map snd ys = map snd ys'"
    and snap: "case snap of None \<Rightarrow> xs = []
      | Some j \<Rightarrow> zone_ok zone \<and> Snapshot zone (run_log apply_at xs (NewMetadataServer a b)) = Some (Inr j) \<and>
          depth_ok 4998 (mds_view (run_log apply_at xs (NewMetadataServer a b)))"
  shows "mds_inv (fold sm_step (recovery snap ys') (NewMetadataServer now1 now2)) \<and>
    untimed (abs_state (fold sm_step (recovery snap ys') (NewMetadataServer now1 now2))) =
    untimed (abs_state (run_log apply_at (xs @ ys) (NewMetadataServer a b)))"
proof -
  let ?old = "NewMetadataServer a b" and ?new = "NewMetadataServer now1 now2"
  note inv = NewMetadataServer_inv [of a b] NewMetadataServer_inv [of now1 now2]
  show ?thesis
  proof (cases snap)
    case None
    then show ?thesis
      using snap untimed.replicas_agree [OF inv untimed_New log] run_log_inv [OF inv(2)] by (simp add: recovery_state)
  next
    case (Some j)
    let ?s = "run_log apply_at xs ?old"
    note j = snap [unfolded Some option.case] run_log_reachable [OF reachable.init, of xs a b]
    have "fitting zone ?s"
      using j reachable_utf8 [OF j(2)] Snapshot_result [OF reachable_inv [OF j(2)], of zone]
      by (auto simp: fitting_def fits_def abs_state_def split: if_splits)
    from untimed_snapshot.compaction [OF inv this _ log, of j] j show ?thesis
      using run_log_inv [of "restore_json j ?new" ys'] by (simp add: Some recovery_state restore_json_def snapshot_json_Some)
  qed
qed

subsection \<open>Peers\<close>

lemma parse_peers_filter:
  "parse_peers nodeID peersStr =
     (if peersStr \<noteq> '''' then filter (\<lambda>p. p \<noteq> '''' \<and> p \<noteq> nodeID) (map TrimSpace (Split peersStr CHR '','')) else [])"
proof -
  have "fold (\<lambda>p peers. let p = TrimSpace p in if p \<noteq> '''' \<and> p \<noteq> nodeID then peers @ [p] else peers) ps acc =
      acc @ filter (\<lambda>p. p \<noteq> '''' \<and> p \<noteq> nodeID) (map TrimSpace ps)" for ps acc
    by (induction ps arbitrary: acc) (auto simp: Let_def)
  then show ?thesis by (simp add: parse_peers_def)
qed

text \<open>An address as it may stand in the list.\<close>

definition peer_name :: "string \<Rightarrow> bool" where
  "peer_name p \<longleftrightarrow> p \<noteq> '''' \<and> CHR '','' \<notin> set p \<and> TrimSpace p = p"

fun comma_list :: "string list \<Rightarrow> string" where
  "comma_list [] = ''''"
| "comma_list [p] = p"
| "comma_list (p # q # ps) = p @ CHR '','' # comma_list (q # ps)"

lemma Split_comma_list: "\<forall>p \<in> set ps. CHR '','' \<notin> set p \<Longrightarrow> ps \<noteq> [] \<Longrightarrow> Split (comma_list ps) CHR '','' = ps"
  by (induction ps rule: comma_list.induct) (simp_all add: Split_plain Split_append_sep)

lemma comma_list_nonempty: "ps \<noteq> [] \<Longrightarrow> \<forall>p \<in> set ps. p \<noteq> '''' \<Longrightarrow> comma_list ps \<noteq> ''''"
  by (cases ps rule: comma_list.cases) auto

subsection \<open>Heartbeats\<close>

text \<open>The data node's copy of the redirection does what the client's does.\<close>

lemma heartbeat_loop_redirect:
  "heartbeat_loop n dn addr w = fst (redirect_loop n method (write_method (\<lambda>rf. Heartbeat rf (dn_addr dn))) addr w)"
proof (induction n arbitrary: addr w)
  case (Suc n)
  obtain w1 d where d: "dial_mds addr w = (w1, d)" by fastforce
  obtain w2 r where c: "call_mds addr (write_method (\<lambda>rf. Heartbeat rf (dn_addr dn))) w1 = (w2, r)" by fastforce
  show ?case using d c Suc.IH by (simp add: Let_def split: option.split sum.split)
qed simp

lemma Heartbeat_local:
  assumes "utf8_ok addr"
  shows "\<exists>mds'. Heartbeat (local_node t) addr mds = (mds', Inr \<lparr>IsLeader = True, Leader = ''''\<rparr>) \<and>
    mds' = fst (applyHeartbeat t (empty_payload\<lparr>p_Op := OpHeartbeat, p_Addr := addr\<rparr>) mds)"
proof -
  let ?p = "empty_payload\<lparr>p_Op := OpHeartbeat, p_Addr := addr\<rparr>"
  have "utf8_ok OpHeartbeat" unfolding OpHeartbeat_def by code_simp
  then have u: "payload_utf8 ?p" using assms by (simp add: payload_utf8_def empty_payload_def)
  have "Heartbeat (local_node t) addr mds = submit_reply (local_node t) ?p \<lparr>IsLeader = True, Leader = ''''\<rparr> mds"
    by (simp add: Heartbeat_def checkLeader_def local_node_def)
  then show ?thesis
    using wire_payload_utf8 [OF u]
    by (simp add: submit_reply_def submitCommand_def local_node_def local_do_def Apply_def Unmarshal_Marshal Let_def
        apply_payload_def applyHeartbeat_def op_defs)
qed

end
