(* ===== verification/Cli_Properties.thy ===== *)
theory Cli_Properties
  imports Fstorex_Cli Fstorex_Servers Pending_Files System_Runs
begin

section \<open>The programs under \<open>cmd/\<close>\<close>

subsection \<open>The command line\<close>

text \<open>C15. Every operation can be asked for on the command line, and the exit code tells how it ended:
  \<open>-mds=\<close> sends it to that server, \<open>--\<close> protects a local path that starts with a dash, the client
  makes exactly the one call, and the exit code is 0 if and only if the call succeeded.\<close>

theorem cli_runs_operation:
  "\<exists>out. fstorex_main fmt ((''-mds='' @ addr) # cli_args op) w =
     (fst (client_op (NewClient addr) op w), if snd (client_op (NewClient addr) op w) then 0 else 1, out)"
  unfolding fstorex_dispatch by (rule dispatch_op)

lemma finish_cases: "finish msg f r = (w', code, out) \<Longrightarrow> (code = 0) \<or> (code = 1 \<and> (\<exists>e. out = [ErrorLog msg e]))"
  by (auto simp: finish_def split: prod.splits sum.splits)

lemma exit_on_error_cases: "exit_on_error e \<in> {0, 2}"
  by (cases e) auto

text \<open>What a command may do: call the client, or reject its arguments without touching anything.\<close>

definition run_ok :: "world \<Rightarrow> run \<Rightarrow> bool" where
  "run_ok w r \<longleftrightarrow> (case r of (w', code, out) \<Rightarrow>
     code \<in> {0, 1, 2} \<and> (code = 2 \<longrightarrow> w' = w) \<and> (code = 1 \<longrightarrow> w' = w \<or> (\<exists>msg e. out = [ErrorLog msg e])) \<and>
     (code = 1 \<longrightarrow> (\<nexists>msg e. out = [ErrorLog msg e]) \<longrightarrow> (\<exists>l. Line l \<in> set out)))"

lemma run_ok_simps [simp]:
  "run_ok w (finish msg f r)" "run_ok w (usage text w)" "run_ok w (w, exit_on_error e, [])"
  "run_ok w (w, 1, Line l # out)"
  using finish_cases [of msg f r] exit_on_error_cases [of e]
  by (auto simp: run_ok_def usage_def split: prod.splits)

lemma dispatch_run_ok: "run_ok w (dispatch fmt c args w)"
  using run_ok_simps(4) [of w "''Unknown command: '' @ hd args" "Line '''' # printUsage"]
  by (auto simp: dispatch_def Let_def cmd_defs simp del: One_nat_def split: sum.split prod.split)

text \<open>Wrong usage touches nothing: whatever the arguments, the exit code is 0, 1 or 2; with a flag
  error (2), or a 1 without a logged error, no server was called and no file changed, and in the
  second case a message was printed.\<close>

theorem cli_wrong_usage:
  assumes "fstorex_main fmt args w = (w', code, out)"
  shows "code \<in> {0, 1, 2} \<and> (code = 2 \<longrightarrow> w' = w) \<and>
    (code = 1 \<longrightarrow> (\<nexists>msg e. out = [ErrorLog msg e]) \<longrightarrow> w' = w \<and> (\<exists>l. Line l \<in> set out))"
proof -
  have "run_ok w (fstorex_main fmt args w)"
    using run_ok_simps(3,4) [of w] dispatch_run_ok
    by (auto simp: fstorex_main_def printUsage_def simp del: One_nat_def split: sum.split prod.split)
  then show ?thesis using assms by (auto simp: run_ok_def)
qed

theorem cli_wrong_usage_witness:
  "fst (fstorex_main (\<lambda>t. '''') [''-mds=m1'', ''rm''] single_world) = single_world"
proof -
  have v: "snd (fstorex_main (\<lambda>t. '''') [''-mds=m1'', ''rm''] single_world) = (1, [Line ''Usage: client rm <path>''])"
    by code_simp
  then obtain w' where "fstorex_main (\<lambda>t. '''') [''-mds=m1'', ''rm''] single_world = (w', 1, [Line ''Usage: client rm <path>''])"
    by (metis prod.collapse)
  from cli_wrong_usage [OF this] this show ?thesis by simp
qed

subsection \<open>Directories, end to end\<close>

lemma local_accepted:
  assumes "payload_utf8 p" "submit_reply (local_node t) p r mds = (mds', Inr r')"
  shows "apply_payload t (p_Op p) p mds = (mds', None)"
  using assms(2) unfolding local_submit [OF assms(1)] by (auto split: prod.splits option.splits)

lemma Mkdir_local:
  assumes "mds_inv mds" "utf8_ok path" "Mkdir (local_node t) path mds = (mds', Inr True)"
  shows "mds_inv mds' \<and> dir_at (mds_view mds') (splitPath path)"
proof -
  let ?p = "empty_payload\<lparr>p_Op := OpMkdir, p_Path := path\<rparr>"
  have "utf8_ok OpMkdir" unfolding OpMkdir_def by code_simp
  then have u: "payload_utf8 ?p" using assms(2) by (simp add: payload_utf8_def empty_payload_def)
  have "submit_reply (local_node t) ?p True mds = (mds', Inr True)"
    using assms(3) by (simp add: Mkdir_def checkLeader_def local_node_def)
  from local_accepted [OF u this] have ap: "apply_payload t OpMkdir ?p mds = (mds', None)" by simp
  then have run: "applyMkdir t ?p mds = (mds', None)" by (simp add: apply_payload_def op_defs)
  have ok: "mds_ok mds" using assms(1) by (simp add: mds_inv_def)
  have s: "spec_mkdir_loop path t 0 [] (splitPath path) (mds_view mds) = (mds_view mds', None)"
    using applyMkdir_refines [OF ok run] by (simp add: spec_mkdir_def)
  have r: "dir_at (mds_view mds) ps" if "prefix ps []" for ps
    using that heap_ok_root [OF ok] by (simp add: dir_at_view)
  have "dir_at (mds_view mds') (splitPath path)" using spec_mkdir_loop_ok [OF s r] by simp
  then show ?thesis using apply_payload_inv [OF assms(1), of t OpMkdir ?p] ap by simp
qed

text \<open>A directory made on the command line is there: with one metadata server that applies its
  commands at once, after a \<open>mkdir\<close> with exit code 0 a \<open>stat\<close> of the same path has exit code 0 and
  prints that it is a directory.\<close>

theorem mkdir_then_stat:
  assumes server: "sole_server addr (local_node t) mds w" "mds_inv mds" and utf8: "utf8_ok path"
    and mk: "fstorex_main fmt [''-mds='' @ addr, ''mkdir'', path] w = (w1, 0, out)"
  shows "\<exists>lines. fstorex_main fmt [''-mds='' @ addr, ''stat'', path] w1 = (w1, 0, lines) \<and>
    Line ''Type:      Directory'' \<in> set lines"
proof -
  let ?c = "NewClient addr" and ?m = "write_method (\<lambda>rf. Mkdir rf path)"
  have c: "c_mdsAddr ?c = addr" by (simp add: NewClient_def)
  have "fst (client_Mkdir ?c path w) = w1" "\<exists>u. snd (client_Mkdir ?c path w) = Inr u"
    using mk fstorex_dispatch [of fmt addr "Cmd_Mkdir path" w]
    by (auto simp: dispatch_def cmd_mkdir_def finish_def split: prod.splits sum.splits)
  then obtain u where call: "redirect_loop 3 ''MetadataService.Mkdir'' ?m addr w = (w1, Inr u)"
    using c by (auto simp: client_Mkdir_def with_context_def callMDSWithRedirect_def split: prod.splits sum.splits)
  have w: "\<And>b. b \<noteq> addr \<Longrightarrow> w_mds w b = None" "mds_reaches w addr" "w_mds w addr = Some (local_node t, mds)"
    using server(1) by (simp_all add: sole_server_def)
  obtain mds' r where run: "Mkdir (local_node t) path mds = (mds', r)" by fastforce
  have "r = Inr u \<and> w1 = w\<lparr>w_mds := (w_mds w)(addr \<mapsto> (local_node t, mds'))\<rparr>"
    by (rule single_server [OF _ w(2,3) _ _ call]) (use w(1) run in \<open>simp_all add: write_method_def\<close>)
  then have "r = Inr u" by simp
  moreover have "r = Inr u \<Longrightarrow> u = True"
    using run by (auto simp: Mkdir_def checkLeader_def local_node_def submit_reply_def split: prod.splits option.splits)
  ultimately have d: "mds_inv mds'" "dir_at (mds_view mds') (splitPath path)"
    using Mkdir_local [OF server(2) utf8, of t mds'] run by simp_all
  have s: "mds_reaches w1 addr" "w_mds w1 addr = Some (local_node t, mds')"
    using sole_server_call [OF server(1) call] run by (simp_all add: sole_server_def)
  obtain e where "lookup_entry mds' path = Some e" "isDir e"
    using d lookup_entry_view [OF d(1), of path]
    by (cases "lookup_entry mds' path") (auto simp: dir_at_def split: option.splits)
  then obtain info where i: "Stat mds' path = Inr info" "fi_IsDir info" by (simp add: Stat_def)
  then have "client_Stat ?c path w1 = (w1, Inr info)"
    using ask_direct [where f = "\<lambda>mds. Stat mds path", OF _ _ i(1)] s c by (simp add: client_Stat_def)
  then show ?thesis
    using fstorex_dispatch [of fmt addr "Cmd_Stat path" w1] i(2)
    by (simp add: dispatch_def cmd_stat_def finish_def stat_lines_def)
qed

theorem mkdir_then_stat_witness:
  "\<exists>w1 lines. fstorex_main (\<lambda>t. '''') [''-mds=m1'', ''stat'', ''/d/x''] w1 = (w1, 0, lines) \<and>
     Line ''Type:      Directory'' \<in> set lines"
proof -
  have sole: "sole_server ''m1'' (local_node 5) sample_nodes single_world"
    by (simp add: sole_server_def mds_reaches_def single_world_def sample_world_def)
  have u: "utf8_ok ''/d/x''" by code_simp
  have "fst (snd (fstorex_main (\<lambda>t. '''') [''-mds='' @ ''m1'', ''mkdir'', ''/d/x''] single_world)) = 0" by code_simp
  then obtain w1 out where "fstorex_main (\<lambda>t. '''') [''-mds='' @ ''m1'', ''mkdir'', ''/d/x''] single_world = (w1, 0, out)"
    by (metis prod.collapse)
  from mkdir_then_stat [OF sole sample_nodes_inv u this] show ?thesis by auto
qed

subsection \<open>The cluster\<close>

text \<open>The peers of a metadata server are read back: from the comma-separated list of all addresses
  of the cluster each server takes all but its own.\<close>

theorem peers_read_back:
  assumes "\<forall>p \<in> set nodes. peer_name p"
  shows "parse_peers self (comma_list nodes) = filter (\<lambda>p. p \<noteq> self) nodes"
proof (cases "nodes = []")
  case False
  have "Split (comma_list nodes) CHR '','' = nodes"
    using assms False by (intro Split_comma_list) (auto simp: peer_name_def)
  moreover have "map TrimSpace nodes = nodes" using assms by (simp add: map_idI peer_name_def)
  moreover have "filter (\<lambda>p. p \<noteq> '''' \<and> p \<noteq> self) nodes = filter (\<lambda>p. p \<noteq> self) nodes"
    using assms by (intro filter_cong) (auto simp: peer_name_def)
  moreover have "comma_list nodes \<noteq> ''''" using assms False by (intro comma_list_nonempty) (auto simp: peer_name_def)
  ultimately show ?thesis by (simp add: parse_peers_filter)
qed (simp add: parse_peers_filter)

theorem peers_read_back_witness:
  "parse_peers ''b:2'' ''a:1,b:2,c:3'' = [''a:1'', ''c:3'']"
proof -
  have "\<forall>p \<in> set [''a:1'', ''b:2'', ''c:3'']. peer_name p"
    by (simp add: peer_name_def TrimSpace_printable printable_def)
  from peers_read_back [OF this, of "''b:2''"] show ?thesis by simp
qed

text \<open>C17. A metadata server starts with the configuration it was given: when \<open>fstorex-metadata\<close> runs with
  its own address, the list of all addresses of the cluster, the two directories and a printed
  64-bit threshold, and goes on to serve, goraft was started for exactly that configuration, with
  all other servers as peers and the new server as its state machine; the server at that address is
  the Raft node that goraft returned, with the state that goraft's recovery calls made of a new
  server (an empty tree and no data nodes when there was nothing to recover); the Raft timers and the
  garbage collection run; and no other server has changed.\<close>

theorem started_metadata_server:
  assumes run: "fstorex_metadata init register listen now1 now2 [''-id='' @ self, ''-peers='' @ comma_list nodes, ''-waldir='' @ wd,
      ''-snapdir='' @ sd, ''-maxindexspan='' @ Itoa n] os w = (os', w', Serving started)"
    and args: "\<forall>p \<in> set nodes. peer_name p" "int n < 2 ^ 64"
  shows "\<exists>rf calls cfg mds. init cfg = Inr (rf, calls) \<and> LocalID cfg = self \<and> Peers cfg = filter (\<lambda>p. p \<noteq> self) nodes \<and>
    WalDir cfg = wd \<and> SnapDir cfg = sd \<and> unat (MaxIndexSpan cfg) = n \<and> ElectionTimeout cfg = 3 * 10 ^ 9 \<and>
    StateMachine cfg = Some (NewMetadataServer now1 now2) \<and>
    w_mds w' self = Some (rf, mds) \<and> mds = fold sm_step calls (NewMetadataServer now1 now2) \<and>
    (calls = [] \<longrightarrow> mds_view mds = [[] \<mapsto> dir_entry ''/'' now1 now2] \<and> dataNodes mds = []) \<and>
    set started = {RaftTimers, GcTicker gcInterval} \<and> (\<forall>a. a \<noteq> self \<longrightarrow> w_mds w' a = w_mds w a)"
proof -
  let ?cfg = "(raft_config self (comma_list nodes) wd sd (word_of_nat n))\<lparr>StateMachine := Some (NewMetadataServer now1 now2)\<rparr>"
  from run [unfolded fstorex_metadata_args [OF args(2)]] obtain rf calls
    where rf: "init ?cfg = Inr (rf, calls)" "started = [RaftTimers, GcTicker gcInterval]"
      "w' = w\<lparr>w_mds := (w_mds w)(self \<mapsto> (rf, fold sm_step calls (NewMetadataServer now1 now2)))\<rparr>"
    by (rule metadata_main_serves)
  have "unat (word_of_nat n :: 64 word) = n" using args(2) by (simp add: unat_of_nat take_bit_nat_eq_self)
  then have "LocalID ?cfg = self \<and> Peers ?cfg = filter (\<lambda>p. p \<noteq> self) nodes \<and> WalDir ?cfg = wd \<and> SnapDir ?cfg = sd \<and>
      unat (MaxIndexSpan ?cfg) = n \<and> ElectionTimeout ?cfg = 3 * 10 ^ 9"
    using peers_read_back [OF args(1), of self] by (simp add: raft_config_def)
  then show ?thesis
    using rf view_New New_registry(1)
    by (intro exI [of _ rf] exI [of _ calls] exI [of _ ?cfg] exI [of _ "fold sm_step calls (NewMetadataServer now1 now2)"]) simp
qed

text \<open>The arguments of the examples.\<close>

definition sample_args_b :: "string list" where
  "sample_args_b = [''-id='' @ ''b:2'', ''-peers='' @ comma_list [''a:1'', ''b:2'', ''c:3''],
     ''-waldir='' @ ''/w'', ''-snapdir='' @ ''/s'', ''-maxindexspan='' @ Itoa 1000]"

lemma sample_args_b_ok: "\<forall>p \<in> set [''a:1'', ''b:2'', ''c:3'']. peer_name p" "int 1000 < 2 ^ 64"
  by (simp_all add: peer_name_def TrimSpace_printable printable_def)

lemma sample_args_b_run:
  "\<exists>os' w'. fstorex_metadata (\<lambda>cfg. Inr (local_node 0, calls)) (\<lambda>s. True) True 1 1 sample_args_b sample_os single_world =
     (os', w', Serving [RaftTimers, GcTicker gcInterval])"
  unfolding sample_args_b_def fstorex_metadata_args [OF sample_args_b_ok(2)]
  by (simp add: metadata_main_def start_MetadataServer_def Let_def)

theorem started_metadata_server_witness:
  "\<exists>os' w' mds. fstorex_metadata (\<lambda>cfg. Inr (local_node 0, [])) (\<lambda>s. True) True 1 1 sample_args_b sample_os single_world =
       (os', w', Serving [RaftTimers, GcTicker gcInterval]) \<and>
     w_mds w' ''b:2'' = Some (local_node 0, mds) \<and> dataNodes mds = []"
proof -
  obtain os' w' where run: "fstorex_metadata (\<lambda>cfg. Inr (local_node 0, [])) (\<lambda>s. True) True 1 1 sample_args_b sample_os single_world =
      (os', w', Serving [RaftTimers, GcTicker gcInterval])"
    using sample_args_b_run by blast
  from started_metadata_server [OF run [unfolded sample_args_b_def] sample_args_b_ok] run show ?thesis by auto
qed

text \<open>C18. A restarted metadata server has the state it lost. The old server had run the log \<open>xs @ ys\<close>
  since it was new; on disk are its last snapshot, taken after \<open>xs\<close>, or none (then \<open>xs\<close> is empty), and
  the log \<open>ys\<close> after it; the tree of the snapshot has no path of more than 4998 names. When
  goraft restores that snapshot and replays that log, \<open>fstorex-metadata\<close> serves at its address a well
  formed state with the same namespace, registry and errors to come as the old one, but for the time
  stamps of the replay.\<close>

theorem restarted_server_recovers:
  assumes run: "fstorex_metadata init register listen now1 now2 [''-id='' @ self, ''-peers='' @ comma_list nodes, ''-waldir='' @ wd,
      ''-snapdir='' @ sd, ''-maxindexspan='' @ Itoa n] os w = (os', w', Serving started)"
    and args: "int n < 2 ^ 64"
    and goraft: "\<And>cfg. LocalID cfg = self \<Longrightarrow> WalDir cfg = wd \<Longrightarrow> SnapDir cfg = sd \<Longrightarrow> StateMachine cfg \<noteq> None \<Longrightarrow>
      init cfg = Inr (rf, recovery snap ys')"
    and log: "map snd ys = map snd ys'"
    and snapshot: "case snap of None \<Rightarrow> xs = []
      | Some j \<Rightarrow> zone_ok zone \<and> Snapshot zone (run_log apply_at xs (NewMetadataServer a b)) = Some (Inr j) \<and>
          depth_ok 4998 (mds_view (run_log apply_at xs (NewMetadataServer a b)))"
  shows "\<exists>mds. w_mds w' self = Some (rf, mds) \<and> mds_inv mds \<and>
    untimed (abs_state mds) = untimed (abs_state (run_log apply_at (xs @ ys) (NewMetadataServer a b)))"
proof -
  let ?cfg = "(raft_config self (comma_list nodes) wd sd (word_of_nat n))\<lparr>StateMachine := Some (NewMetadataServer now1 now2)\<rparr>"
  from run [unfolded fstorex_metadata_args [OF args]] obtain rf' calls
    where r: "init ?cfg = Inr (rf', calls)"
      "w' = w\<lparr>w_mds := (w_mds w)(self \<mapsto> (rf', fold sm_step calls (NewMetadataServer now1 now2)))\<rparr>"
    by (rule metadata_main_serves)
  have "init ?cfg = Inr (rf, recovery snap ys')" by (rule goraft) (simp_all add: raft_config_def)
  with r recovered [OF log snapshot, of now1 now2] show ?thesis by simp
qed

theorem restarted_server_recovers_witness:
  "\<exists>j os' w' mds. Snapshot utc (run_log apply_at sample_log sample_root) = Some (Inr j) \<and>
     fstorex_metadata (\<lambda>cfg. Inr (local_node 0, recovery (Some j) sample_log_late)) (\<lambda>s. True) True 1 1
       sample_args_b sample_os single_world = (os', w', Serving [RaftTimers, GcTicker gcInterval]) \<and>
     w_mds w' ''b:2'' = Some (local_node 0, mds) \<and>
     untimed (abs_state mds) = untimed (abs_state (run_log apply_at (sample_log @ sample_log) sample_root))"
proof -
  have "fs_times utc (abs_state (run_log apply_at sample_log sample_root))"
    by (rule run_log_times [OF sample_root_inv sample_root_times sample_log_times])
  then obtain j where j: "Snapshot utc (run_log apply_at sample_log sample_root) = Some (Inr j)"
    using Snapshot_result [OF reachable_inv [OF run_log_reachable [OF sample_root_reachable]], of utc sample_log] by auto
  have snap: "case Some j of None \<Rightarrow> sample_log = []
      | Some j \<Rightarrow> zone_ok utc \<and> Snapshot utc (run_log apply_at sample_log (NewMetadataServer 0 0)) = Some (Inr j) \<and>
          depth_ok 4998 (mds_view (run_log apply_at sample_log (NewMetadataServer 0 0)))"
    using j utc_ok sample_log_depth by (simp add: sample_root_def)
  have log: "map snd sample_log = map snd sample_log_late" by (simp add: sample_log_late_def sample_log_def)
  obtain os' w' where run: "fstorex_metadata (\<lambda>cfg. Inr (local_node 0, recovery (Some j) sample_log_late)) (\<lambda>s. True) True 1 1
      sample_args_b sample_os single_world = (os', w', Serving [RaftTimers, GcTicker gcInterval])"
    using sample_args_b_run by blast
  from restarted_server_recovers [OF run [unfolded sample_args_b_def] sample_args_b_ok(2) refl log snap] run j
  show ?thesis unfolding sample_root_def by blast
qed

text \<open>C16. A started data node is registered: when \<open>fstorex-datanode\<close> runs and its metadata server is
  the leader or redirects to it, the leader, which applies at once, has the node in its registry
  with a fresh heartbeat, and the node is on the network at its address.\<close>

theorem started_node_is_registered:
  assumes run: "fstorex_datanode listen [''-addr='' @ addr, ''-mds='' @ mdsA, ''-datadir='' @ dir] os w = (w', None)"
    and leader: "mds_reaches w l" "w_mds w l = Some (local_node t, mds)" "utf8_ok addr"
    and server: "mdsA = l \<or> (mds_reaches w mdsA \<and> w_mds w mdsA = Some (rf, mdsf) \<and> \<not> rf_IsLeader rf \<and>
      rf_GetLeader rf = l \<and> l \<noteq> mdsA \<and> l \<noteq> '''' \<and> TrimSpace l = l)"
  shows "\<exists>mds' os'. w_mds w' l = Some (local_node t, mds') \<and> addr \<in> set (dataNodes mds') \<and>
    map_get (lastHeartbeat mds') addr = Some t \<and>
    cl_nodes (w_cluster w') addr = Some (\<lparr>dataDir = dir, mdsAddr = mdsA, dn_addr = addr\<rparr>, os')"
proof -
  let ?dn = "\<lparr>dataDir = dir, mdsAddr = mdsA, dn_addr = addr\<rparr>" and ?f = "\<lambda>rf. Heartbeat rf addr"
  obtain os' where start: "NewDataNode dir mdsA addr os = (os', Inr ?dn)"
    using run unfolding fstorex_datanode_args by (auto simp: datanode_main_def NewDataNode_def split: prod.splits sum.splits)
  let ?w = "w\<lparr>w_cluster := (w_cluster w)\<lparr>cl_nodes := (cl_nodes (w_cluster w))(addr \<mapsto> (?dn, os'))\<rparr>\<rparr>"
  have w': "w' = fst (redirect_loop 3 ''MetadataService.Heartbeat'' (write_method ?f) mdsA ?w)"
    using run [unfolded fstorex_datanode_args] start heartbeat_loop_redirect [of 3 ?dn mdsA ?w "''MetadataService.Heartbeat''"]
    by (auto simp: datanode_main_def StartHeartbeat_def sendHeartbeat_def Let_def split: if_splits)
  obtain mds' where h: "Heartbeat (local_node t) addr mds = (mds', Inr \<lparr>IsLeader = True, Leader = ''''\<rparr>)"
    "mds' = fst (applyHeartbeat t (empty_payload\<lparr>p_Op := OpHeartbeat, p_Addr := addr\<rparr>) mds)"
    using Heartbeat_local [OF leader(3), of t mds] by blast
  then have reg: "addr \<in> set (dataNodes mds')" "map_get (lastHeartbeat mds') addr = Some t"
    by (auto simp: applyHeartbeat_def Let_def map_get_put)
  have l: "mds_reaches ?w l" "w_mds ?w l = Some (local_node t, mds)" using leader by (simp_all add: mds_reaches_def)
  from server have "w' = ?w\<lparr>w_mds := (w_mds ?w)(l \<mapsto> (local_node t, mds'))\<rparr>"
  proof
    assume "mdsA = l"
    then show ?thesis using redirect_direct [where f = ?f, OF l h(1)] w' by simp
  next
    assume f: "mds_reaches w mdsA \<and> w_mds w mdsA = Some (rf, mdsf) \<and> \<not> rf_IsLeader rf \<and>
      rf_GetLeader rf = l \<and> l \<noteq> mdsA \<and> l \<noteq> '''' \<and> TrimSpace l = l"
    then have "mds_reaches ?w mdsA" "w_mds ?w mdsA = Some (rf, mdsf)" "?f rf mdsf = (mdsf, Inl (ErrNotLeader l))"
      by (simp_all add: mds_reaches_def Heartbeat_def checkLeader_def)
    then show ?thesis using redirect_once [where f = ?f, OF _ _ _ _ _ _ l h(1)] f w' by simp
  qed
  then show ?thesis using reg by simp
qed

text \<open>A third node, configured with the follower \<open>m2\<close> of the sample cluster.\<close>

theorem started_node_is_registered_witness:
  "\<exists>w' mds'. fstorex_datanode True [''-addr=n3'', ''-mds=m2'', ''-datadir=/var/dn''] sample_os sample_world = (w', None) \<and>
     w_mds w' ''m1'' = Some (local_node 5, mds') \<and> ''n3'' \<in> set (dataNodes mds')"
proof -
  have "map_sum id dn_addr (snd (NewDataNode ''/var/dn'' ''m2'' ''n3'' sample_os)) = Inr ''n3''" by code_simp
  then obtain os' dn where "NewDataNode ''/var/dn'' ''m2'' ''n3'' sample_os = (os', Inr dn)"
    by (cases "NewDataNode ''/var/dn'' ''m2'' ''n3'' sample_os"; cases "snd (NewDataNode ''/var/dn'' ''m2'' ''n3'' sample_os)") auto
  then obtain w' where run:
    "fstorex_datanode True [''-addr='' @ ''n3'', ''-mds='' @ ''m2'', ''-datadir='' @ ''/var/dn''] sample_os sample_world = (w', None)"
    unfolding fstorex_datanode_args by (simp add: datanode_main_def Let_def)
  have m: "mds_reaches sample_world ''m1''" "w_mds sample_world ''m1'' = Some (local_node 5, sample_nodes)" "utf8_ok ''n3''"
    "mds_reaches sample_world ''m2'' \<and> w_mds sample_world ''m2'' = Some (follower, sample_tree) \<and> \<not> rf_IsLeader follower \<and>
      rf_GetLeader follower = ''m1'' \<and> ''m1'' \<noteq> ''m2'' \<and> ''m1'' \<noteq> '''' \<and> TrimSpace ''m1'' = ''m1''"
    by (simp_all add: sample_world_def mds_reaches_def follower_def TrimSpace_printable printable_def)
       (code_simp)
  show ?thesis using started_node_is_registered [OF run m(1-3) disjI2 [OF m(4)]] run by auto
qed

end
