(* ===== verification/Serve_Loop.thy ===== *)
theory Serve_Loop
  imports Main
begin

section \<open>Serving and shutting down\<close>

text \<open>
  The end of \<open>main\<close> in \<open>cmd/fstorex-metadata/main.go\<close> and \<open>cmd/fstorex-datanode/main.go\<close>, the same in
  both. Two goroutines share the channel \<open>sigCh\<close>, whose buffer holds one signal: \<open>main\<close> waits for
  a signal, closes the listener and returns; the accept loop starts a goroutine for every
  connection (\<open>sv_conns\<close> counts them; the requests they serve are the RPCs of the other theories) and looks for a signal when \<open>Accept\<close> fails. \<open>signal.Notify\<close> sends without blocking:
  to \<open>main\<close> if it waits there, else to the buffer, and a signal that finds the buffer full is
  dropped. A step of the program is one event; what cannot happen is \<open>None\<close>.
\<close>

datatype main_pc = Starting | Waiting | Stopping | Exited

datatype accept_pc = Accepting | Failed | Returned

record server =
  sv_main :: main_pc
  sv_accept :: accept_pc
  sv_pending :: bool
  sv_listening :: bool
  sv_conns :: nat

definition serving_started :: server where
  "serving_started = \<lparr>sv_main = Starting, sv_accept = Accepting, sv_pending = False, sv_listening = True, sv_conns = 0\<rparr>"

text \<open>
  \<open>Signal\<close>: a SIGINT or SIGTERM arrives. \<open>Receive\<close>: \<open>main\<close> comes to \<open><-sigCh\<close>. \<open>CloseListener\<close> and
  \<open>Return\<close>: the rest of \<open>main\<close>. \<open>Accept\<close>, \<open>AcceptFails\<close>, \<open>Select\<close>: the accept loop, where \<open>Accept\<close>
  may fail at any time and must fail on a closed listener.
\<close>

datatype event = Signal | Receive | CloseListener | Return | Accept | AcceptFails | Select

fun sv_step :: "event \<Rightarrow> server \<Rightarrow> server option" where
  "sv_step Signal s =
     (if sv_main s = Exited then None
      else if sv_main s = Waiting then Some (s\<lparr>sv_main := Stopping\<rparr>)
      else Some (s\<lparr>sv_pending := True\<rparr>))"
| "sv_step Receive s =
     (if sv_main s \<noteq> Starting then None
      else if sv_pending s then Some (s\<lparr>sv_main := Stopping, sv_pending := False\<rparr>)
      else Some (s\<lparr>sv_main := Waiting\<rparr>))"
| "sv_step CloseListener s =
     (if sv_main s = Stopping \<and> sv_listening s then Some (s\<lparr>sv_listening := False\<rparr>) else None)"
| "sv_step Return s =
     (if sv_main s = Stopping \<and> \<not> sv_listening s then Some (s\<lparr>sv_main := Exited\<rparr>) else None)"
| "sv_step Accept s =
     (if sv_main s \<noteq> Exited \<and> sv_accept s = Accepting \<and> sv_listening s then Some (s\<lparr>sv_conns := sv_conns s + 1\<rparr>) else None)"
| "sv_step AcceptFails s =
     (if sv_main s \<noteq> Exited \<and> sv_accept s = Accepting then Some (s\<lparr>sv_accept := Failed\<rparr>) else None)"
| "sv_step Select s =
     (if sv_main s = Exited \<or> sv_accept s \<noteq> Failed then None
      else if sv_pending s then Some (s\<lparr>sv_accept := Returned, sv_pending := False\<rparr>)
      else Some (s\<lparr>sv_accept := Accepting\<rparr>))"

inductive serves :: "event list \<Rightarrow> server \<Rightarrow> bool" where
  init: "serves [] serving_started"
| step: "serves es s \<Longrightarrow> sv_step e s = Some s' \<Longrightarrow> serves (es @ [e]) s'"

inductive_cases serves_snocE: "serves (es @ [e]) s"

text \<open>An executable form of a run.\<close>

fun sv_run :: "event list \<Rightarrow> server \<Rightarrow> server option" where
  "sv_run [] s = Some s"
| "sv_run (e # es) s = (case sv_step e s of None \<Rightarrow> None | Some s' \<Rightarrow> sv_run es s')"

lemma sv_run_serves: "serves es0 s \<Longrightarrow> sv_run es s = Some s' \<Longrightarrow> serves (es0 @ es) s'"
proof (induction es arbitrary: es0 s)
  case (Cons e es)
  then obtain s1 where 1: "sv_step e s = Some s1" "sv_run es s1 = Some s'" by (auto split: option.splits)
  from Cons.IH [OF serves.step [OF Cons.prems(1) 1(1)] 1(2)] show ?case by simp
qed simp

text \<open>Where the signals have gone: \<open>main\<close> stops only on one, the accept loop ends only on one, and
  none is in the buffer while \<open>main\<close> waits.\<close>

definition sv_inv :: "event list \<Rightarrow> server \<Rightarrow> bool" where
  "sv_inv es s \<longleftrightarrow>
     (Signal \<in> set es \<longleftrightarrow> sv_pending s \<or> sv_main s \<in> {Stopping, Exited} \<or> sv_accept s = Returned) \<and>
     (sv_main s = Waiting \<longrightarrow> \<not> sv_pending s) \<and>
     (sv_listening s \<or> sv_main s \<in> {Stopping, Exited}) \<and> (sv_main s = Exited \<longrightarrow> \<not> sv_listening s) \<and>
     sv_conns s = length (filter (\<lambda>e. e = Accept) es)"

lemma serves_inv: "serves es s \<Longrightarrow> sv_inv es s"
proof (induction rule: serves.induct)
  case init
  show ?case by (simp add: sv_inv_def serving_started_def)
next
  case (step es s e s')
  then show ?case
    by (cases e; cases "sv_main s"; cases "sv_accept s") (auto simp: sv_inv_def split: if_splits)
qed

text \<open>Steps of the accept loop and further signals do not bring a stopping \<open>main\<close> back.\<close>

lemma stopping_stays: "sv_main s = Stopping \<Longrightarrow> sv_run es s = Some s' \<Longrightarrow> sv_main s' \<in> {Stopping, Exited}"
proof -
  have "sv_main s \<in> {Stopping, Exited} \<Longrightarrow> sv_run es s = Some s' \<Longrightarrow> sv_main s' \<in> {Stopping, Exited}"
  proof (induction es arbitrary: s)
    case (Cons e es)
    then obtain s1 where 1: "sv_step e s = Some s1" "sv_run es s1 = Some s'" by (auto split: option.splits)
    then have "sv_main s1 \<in> {Stopping, Exited}" using Cons.prems(1) by (cases e) (auto split: if_splits)
    then show ?case using Cons.IH 1(2) by blast
  qed simp
  then show "sv_main s = Stopping \<Longrightarrow> sv_run es s = Some s' \<Longrightarrow> sv_main s' \<in> {Stopping, Exited}" by simp
qed

subsection \<open>The properties\<close>

text \<open>C19. A server serves until it is told to stop, and then it stops: without a signal it listens, its
  accept loop runs and every connection is served; and once \<open>main\<close> waits, the next signal makes
  it close the listener and return, whatever the accept loop and further signals do in between.\<close>

theorem serves_until_signal:
  assumes "serves es s"
  shows "(Signal \<notin> set es \<longrightarrow> sv_listening s \<and> sv_accept s \<noteq> Returned \<and> sv_main s \<in> {Starting, Waiting} \<and>
      sv_conns s = length (filter (\<lambda>e. e = Accept) es)) \<and>
    (sv_main s = Waiting \<longrightarrow> sv_run (Signal # es') s = Some s' \<longrightarrow> sv_main s' \<noteq> Exited \<longrightarrow>
      (\<exists>s''. sv_run (if sv_listening s' then [CloseListener, Return] else [Return]) s' = Some s'' \<and>
         sv_main s'' = Exited \<and> \<not> sv_listening s''))"
proof -
  have inv: "sv_inv es s" by (rule serves_inv [OF assms])
  have "sv_main s' = Stopping" if "sv_main s = Waiting" "sv_run (Signal # es') s = Some s'" "sv_main s' \<noteq> Exited"
    using that stopping_stays [of "s\<lparr>sv_main := Stopping\<rparr>" es' s'] by simp
  then show ?thesis using inv by (cases "sv_main s") (auto simp: sv_inv_def)
qed

theorem serves_until_signal_witness:
  "\<exists>s s' s''. serves [Accept, Receive, Accept] s \<and> sv_conns s = 2 \<and> sv_run [Signal, AcceptFails, Select] s = Some s' \<and>
     sv_run [CloseListener, Return] s' = Some s'' \<and> sv_main s'' = Exited"
proof -
  let ?s = "\<lparr>sv_main = Waiting, sv_accept = Accepting, sv_pending = False, sv_listening = True, sv_conns = 2\<rparr>"
  have "sv_run [Accept, Receive, Accept] serving_started = Some ?s" by (simp add: serving_started_def)
  from sv_run_serves [OF serves.init this] have r: "serves [Accept, Receive, Accept] ?s" by simp
  have s': "sv_run [Signal, AcceptFails, Select] ?s = Some (?s\<lparr>sv_main := Stopping\<rparr>)" by simp
  obtain s'' where "sv_run [CloseListener, Return] (?s\<lparr>sv_main := Stopping\<rparr>) = Some s''" "sv_main s'' = Exited"
    using serves_until_signal [OF r, of "[AcceptFails, Select]" "?s\<lparr>sv_main := Stopping\<rparr>"] s' by fastforce
  then show ?thesis using r s'
    by (intro exI [of _ ?s] exI [of _ "?s\<lparr>sv_main := Stopping\<rparr>"] exI [of _ s'']) simp
qed

text \<open>The first signal can be lost: if \<open>Accept\<close> fails before \<open>main\<close> waits for signals, the accept loop
  may take the signal. The server then neither accepts another connection nor stops, until a
  second signal.\<close>

theorem accept_loop_takes_signal:
  "\<exists>s. serves [AcceptFails, Signal, Select, Receive] s \<and> sv_main s = Waiting \<and> sv_listening s \<and>
     (\<forall>es s'. Signal \<notin> set es \<longrightarrow> sv_run es s = Some s' \<longrightarrow> s' = s)"
proof -
  obtain s where s: "sv_run [AcceptFails, Signal, Select, Receive] serving_started = Some s" by (simp add: serving_started_def)
  have f: "sv_main s = Waiting" "sv_listening s" "sv_accept s = Returned"
    using s by (auto simp: serving_started_def)
  have "s' = s" if "Signal \<notin> set es" "sv_run es s = Some s'" for es s'
  proof (cases es)
    case (Cons e es')
    then show ?thesis using that f by (cases e) auto
  qed (use that in simp)
  then show ?thesis using sv_run_serves [OF serves.init s] f by auto
qed

end
