(* ===== verification/Spec2Isabelle.thy ===== *)
theory Spec2Isabelle
  imports GC_Properties Client_Runs System_Runs Upload_Survives Overwritten_Uploads Gc_Races Failed_Uploads Open_Files Cli_Properties
    Serve_Loop
begin

text \<open>
  FStoreX: a verification library of the distributed file system in this repository.

  The program. Metadata servers (\<open>internal/metadata\<close>) keep the directory tree and the registry of
  data nodes as a state machine that Raft replicates: write RPCs are submitted as commands on the
  leader, reads are answered from the local tree. Data nodes (\<open>internal/datanode\<close>) store the bytes of
  files under \<open>/data/<FileID>\<close> in a directory of the local disk and send heartbeats. Clients
  (\<open>internal/client\<close>) ask a metadata server where a file is and move the bytes to and from the data
  nodes themselves, file-wise (\<open>PutFile\<close>, \<open>GetFile\<close>) or through handles (\<open>Open\<close>, \<open>ReadAt\<close>,
  \<open>WriteAt\<close>). The leader removes data nodes without heartbeats and deletes orphaned data
  (\<open>gc.go\<close>). Three programs under \<open>cmd/\<close> start these parts.

  Where the code is modelled. One definition per function, with the source's name; where two parts
  have a method of the same name the client's is \<open>client_...\<close> and the handle's \<open>fh_...\<close>.
  \<^item> \<open>Prelude\<close>, \<open>Go_Strings\<close>, \<open>Go_Numbers\<close>, \<open>Go_Paths\<close>, \<open>Go_Flags\<close>, \<open>Utf8_Strings\<close>, \<open>Go_Time\<close>: Go's maps
    as association lists, what is used of \<open>strings\<close>, \<open>strconv\<close>, \<open>hex\<close>, \<open>path/filepath\<close> and \<open>flag\<close>, and
    what \<open>encoding/json\<close> makes of strings and times; \<open>Fs_Types\<close>: the structs of \<open>internal/types\<close> and the
    errors as data.
  \<^item> \<open>Path_Names\<close>, \<open>Entry_Heap\<close>, \<open>Tree_Edit\<close>, \<open>Meta_Apply\<close>, \<open>Rename_Move\<close>: \<open>splitPath\<close>, the tree of
    entries with its pointers on a heap, and the commands of \<open>apply.go\<close>. \<open>Namespace_Spec\<close> is the
    abstract specification, a map from paths to attributes, that the commands refine.
  \<^item> \<open>Wire_Json\<close>, \<open>State_Machine\<close>: the JSON form of a command and \<open>Apply\<close> (\<open>state_machine.go\<close>);
    \<open>Meta_Snapshot\<close>, \<open>Snapshot_Json\<close>: the structs of a snapshot (\<open>mds.go\<close>), their JSON, \<open>Snapshot\<close> and
    \<open>Restore\<close>. \<open>State_Utf8\<close>, \<open>Snapshot_Roundtrip\<close>: what a snapshot holds and when it can be written and
    read; \<open>Reachable_States\<close>: the states that commands and snapshots lead to and their invariants.
  \<^item> \<open>Meta_Server\<close>: the RPC handlers of \<open>mds.go\<close>.
  \<^item> \<open>Os_Disk\<close>, \<open>Data_Node\<close>, \<open>Node_Healthy\<close>: a disk with injected faults, the data service of
    \<open>datanode.go\<close> on it, and what its methods do when nothing fails.
  \<^item> \<open>Data_Cluster\<close>, \<open>Orphan_GC\<close>: data nodes behind a network with injected faults, and \<open>gc.go\<close>.
  \<^item> \<open>Client_World\<close>, \<open>Fs_Client\<close>, \<open>File_Handle\<close>: metadata servers, data nodes, networks and local disk
    as one \<open>world\<close>, the redirection to the leader, \<open>client.go\<close> and \<open>file_handle.go\<close>.
  \<^item> \<open>Fstorex_Cli\<close>, \<open>Fstorex_Servers\<close>: the programs of \<open>cmd/\<close> from their arguments on, with the calls by
    which goraft recovers the state of a metadata server; \<open>Serve_Loop\<close>: the accept loop and the shutdown of the two servers, as a state machine of two goroutines and a channel.

  What is shown.
  \<^item> \<open>State_Properties\<close>, \<open>Namespace_Properties\<close>: \<open>Apply\<close> computes the specification, errors included,
    and keeps the tree a tree; failed commands change nothing; replicas of one log agree up to times;
    \<open>Snapshot\<close> fails only on times that cannot be written, and \<open>Restore\<close> brings the same state back up to a
    depth of the tree beyond which \<open>json.Unmarshal\<close> gives up; what rename, delete, mkdir and create do to every path.
  \<^item> \<open>Server_Properties\<close>: the handlers, under the contract of Raft only: what \<open>CreateFile\<close> submits and
    what that makes of the tree, replica selection, listings, redirection.
  \<^item> \<open>Node_Properties\<close>: stores are atomic at every fault but for their temporary file, data are read back, a node touches nothing
    outside its directory, listings are exact.
  \<^item> \<open>GC_Properties\<close>: the collection deletes only old orphans under any faults and all of them on a
    node that answers.
  \<^item> \<open>Replica_Store\<close>, \<open>Client_Properties\<close>, \<open>File_Transfer\<close>: writes reach the leader, a written range is
    read back from any replica, an uploaded file is downloaded.
  \<^item> \<open>Open_Files\<close>: a file created through a handle gives back what is written to it.
  \<^item> \<open>Upload_Survives\<close>, \<open>Gc_Races\<close>: an uploaded file survives garbage collection, after the upload and
    beside it, in every interleaving of the calls of both. \<open>Overwritten_Uploads\<close>: one that overwrote a
    file does not, whatever the file, the content and the nodes.
  \<^item> \<open>World_Evolution\<close>, \<open>World_Operations\<close>, \<open>System_Runs\<close>: in any interleaving of clients, handles,
    heartbeats, collection, elections and faults, of whole operations or single calls, metadata servers
    only apply logs of commands and data nodes only run their own methods.
  \<^item> \<open>Cli_Properties\<close>: what the command line does and how its exit codes tell it, the configuration and
    the state of a started metadata server, that a restarted one has the state it lost, and the
    registration of a started data node. \<open>Serve_Loop\<close>: a server serves until a signal and then stops.
  \<^item> \<open>Pending_Files\<close>, \<open>Failed_Uploads\<close>, \<open>Client_Runs\<close> and single theorems of the others: where the code does not do what
    it or \<open>docs/filesystem-semantics.md\<close> says. An overwritten file loses its data to the collection, a file
    written through a handle stays pending and downloads empty, a replica without the file hides the
    others, a failed overwrite deletes the old file, a clock that is late by more than the safety window
    lets the collection delete an upload, a signal that the accept loop takes is lost, a tree with a path
    of 5000 names leaves snapshots that cannot be restored.

  Interfaces. \<open>replicated_machine\<close> and \<open>snapshot_machine\<close> are what Raft needs of a state machine, with and
    without time stamps; \<open>raft_client\<close> is what the handlers assume of Raft, with the single leader that applies at
  once as an instance; \<open>blob_store\<close> and \<open>range_store\<close> are what clients need of a data node, \<open>replica_op\<close>
  what the loops over replicas need of one call, \<open>world_method\<close> what the calls of a client need of a
  method of the metadata service; each is interpreted on the code's model.

  Bounds. Recursion over the tree has the number of addresses ever allocated as fuel, shown to be
  enough in every reachable state (\<open>toSnapshot_enough\<close>, \<open>collect_enough\<close>); redirection tries three
  servers as in the code; sizes and offsets are 64-bit words, with the lengths of byte strings below
  \<open>2 ^ 63\<close> where a theorem needs it. Times are nanoseconds as integers; in a snapshot they are the text
  of RFC 3339 in the zone \<open>zone\<close>, any function from times to offsets of less than a day, in whole minutes,
  and their years have four digits (\<open>wire_time\<close>). \<open>encoding/json\<close> reads values nested up to
  \<open>maxNestingDepth\<close> = 10000 levels deep; a snapshot spends two levels on each name of a path and up to
  four on the rest, so 4998 names always fit and 5000 never do.

  What stands outside. goraft is a parameter: a handler's submission is any function on the state
  that satisfies \<open>raft_contract\<close>, elections may happen at any step, and no liveness of Raft is claimed.
  The theorems that run the whole system to the end take the leader that applies commands at once.
  Faults of disks and networks are scripts that the theorems quantify over; a crash in the middle of a
  system call is not modelled, \<open>fsync\<close> has no effect on what is stored, permissions are not checked,
  and symbolic links do not occur. Parallel calls to replicas run in the order of the replicas.

  Not modelled. Locks (each method is one step), logging, the JSON text syntax below the value level,
  what goraft does with its directories beyond the calls on the state machine, the padding of printed
  tables, the registration of the data service with \<open>net/rpc\<close>, which cannot fail here (that of the
  metadata services is the parameter \<open>register\<close>), memory limits, and the two Go interfaces of \<open>internal/types\<close>, which
  have no behaviour.
\<close>

end
